(* ===== verification/MB_Prelude.thy ===== *)
theory MB_Prelude
  imports Main "HOL-Library.Word"
begin

text \<open>
  What every component shares: the machine types, the C++ exceptions the sources can
  raise as values of a sum type, the two loops over \<^verbatim>\<open>std::string\<close> that the sources write
  again and again (splitting at a delimiter, joining with one), the string searches they
  call, the external libraries as one record of parameters, and the interfaces as locales: a
  text codec, a codec of lines, one that relays what it decodes, and a transition system with
  an invariant.
\<close>

unbundle bit_operations_syntax

named_theorems wire_simps \<open>equations that evaluate encoders and decoders on well-formed text\<close>
named_theorems res_simps \<open>equations of the result type\<close>

subsection \<open>Machine types\<close>

type_synonym u8 = "8 word"
type_synonym u32 = "32 word"
type_synonym u64 = "64 word"
type_synonym i64 = "64 word" \<comment> \<open>two's complement: read with \<open>sint\<close>\<close>
type_synonym bytes = "u8 list"

text \<open>
  The width of \<^verbatim>\<open>unsigned long\<close> differs between the two platforms the sources support:
  64 bits on POSIX systems, 32 bits on Windows.
\<close>

datatype data_model = LP64 | LLP64

fun long_bits :: "data_model \<Rightarrow> nat" where
  "long_bits LP64 = 64"
| "long_bits LLP64 = 32"

text \<open>The data models are ordered by what they can hold.\<close>

instantiation data_model :: linorder
begin

definition less_eq_data_model :: "data_model \<Rightarrow> data_model \<Rightarrow> bool" where
  "less_eq_data_model a b \<longleftrightarrow> long_bits a \<le> long_bits b"

definition less_data_model :: "data_model \<Rightarrow> data_model \<Rightarrow> bool" where
  "less_data_model a b \<longleftrightarrow> long_bits a < long_bits b"

instance
proof
  fix a b :: data_model
  show "a \<le> b \<Longrightarrow> b \<le> a \<Longrightarrow> a = b"
    by (cases a; cases b) (simp_all add: less_eq_data_model_def)
qed (auto simp: less_eq_data_model_def less_data_model_def)

end

lemma data_model_le: "a \<le> b \<longleftrightarrow> long_bits a \<le> long_bits b"
  by (rule less_eq_data_model_def)

lemma long_bits_ge_32 [simp]: "32 \<le> long_bits dm"
  by (cases dm) auto

subsection \<open>Exceptions as values\<close>

text \<open>
  \<open>InvalidArgument\<close> and \<open>OutOfRange\<close> are \<^verbatim>\<open>std::invalid_argument\<close> and
  \<^verbatim>\<open>std::out_of_range\<close> of the number conversions. \<open>BufferOverflow\<close> marks a write past
  the end of a \<^verbatim>\<open>std::array\<close>, which is undefined behaviour in the source.
\<close>

datatype cpp_error = InvalidArgument | OutOfRange | BufferOverflow

type_synonym 'a res = "cpp_error + 'a"

definition bind_res :: "'a res \<Rightarrow> ('a \<Rightarrow> 'b res) \<Rightarrow> 'b res" where
  "bind_res r f = (case r of Inl e \<Rightarrow> Inl e | Inr x \<Rightarrow> f x)"

lemma bind_res_simps [simp, res_simps]:
  "bind_res (Inl e) f = Inl e"
  "bind_res (Inr x) f = f x"
  by (simp_all add: bind_res_def)

lemma bind_res_Inr_iff: "bind_res r f = Inr y \<longleftrightarrow> (\<exists>x. r = Inr x \<and> f x = Inr y)"
  by (auto simp: bind_res_def split: sum.splits)

lemma bind_res_Inl_iff: "bind_res r f = Inl e \<longleftrightarrow> r = Inl e \<or> (\<exists>x. r = Inr x \<and> f x = Inl e)"
  by (auto simp: bind_res_def split: sum.splits)

lemma bind_res_assoc: "bind_res (bind_res r f) g = bind_res r (\<lambda>x. bind_res (f x) g)"
  by (simp add: bind_res_def split: sum.splits)

text \<open>A loop whose body may throw: the first exception leaves the loop.\<close>

fun fold_res :: "('a \<Rightarrow> 's \<Rightarrow> 's res) \<Rightarrow> 'a list \<Rightarrow> 's \<Rightarrow> 's res" where
  "fold_res f [] s = Inr s"
| "fold_res f (x # xs) s = bind_res (f x s) (fold_res f xs)"

lemma fold_res_append:
  "fold_res f (xs @ ys) s = bind_res (fold_res f xs s) (fold_res f ys)"
  by (induction xs arbitrary: s) (auto simp: bind_res_def split: sum.splits)

lemma fold_res_invariant:
  assumes "fold_res f xs s = Inr s'" and "P s"
    and "\<And>x s s'. x \<in> set xs \<Longrightarrow> f x s = Inr s' \<Longrightarrow> P s \<Longrightarrow> P s'"
  shows "P s'"
  using assms
proof (induction xs arbitrary: s)
  case Nil
  then show ?case by simp
next
  case (Cons x xs)
  from Cons.prems(1) obtain t where t: "f x s = Inr t" "fold_res f xs t = Inr s'"
    by (auto simp: bind_res_Inr_iff)
  from t(1) Cons.prems(2,3) have "P t" by auto
  from t(2) this Cons.prems(3) show ?case by (intro Cons.IH[of t]) auto
qed

fun map_res :: "('a \<Rightarrow> 'b res) \<Rightarrow> 'a list \<Rightarrow> 'b list res" where
  "map_res f [] = Inr []"
| "map_res f (x # xs) = bind_res (f x) (\<lambda>y. bind_res (map_res f xs) (\<lambda>ys. Inr (y # ys)))"

lemma map_res_map_Inr:
  "(\<And>x. x \<in> set xs \<Longrightarrow> f (g x) = Inr x) \<Longrightarrow> map_res f (map g xs) = Inr xs"
  by (induction xs) simp_all

lemma map_res_length: "map_res f xs = Inr ys \<Longrightarrow> length ys = length xs"
  by (induction xs arbitrary: ys) (auto simp: bind_res_Inr_iff)

subsection \<open>Splitting and joining text\<close>

text \<open>
  The loop \<^verbatim>\<open>for (char c : s) if (c == d) { out.push_back(cur); cur.clear(); }
  else cur.push_back(c);\<close> followed by a final \<^verbatim>\<open>out.push_back(cur)\<close>.
\<close>

fun split_on :: "char \<Rightarrow> string \<Rightarrow> string \<Rightarrow> string list" where
  "split_on d cur [] = [cur]"
| "split_on d cur (c # cs) =
     (if c = d then cur # split_on d [] cs else split_on d (cur @ [c]) cs)"

text \<open>The loop \<^verbatim>\<open>if (i) oss << d; oss << xs[i];\<close>.\<close>

fun join_with :: "char \<Rightarrow> string list \<Rightarrow> string" where
  "join_with d [] = []"
| "join_with d [x] = x"
| "join_with d (x # y # zs) = x @ d # join_with d (y # zs)"

lemma split_on_nonempty [simp]: "split_on d cur s \<noteq> []"
  by (induction d cur s rule: split_on.induct) auto

lemma split_on_no_delim [simp, wire_simps]:
  "d \<notin> set x \<Longrightarrow> split_on d cur x = [cur @ x]"
  by (induction x arbitrary: cur) auto

lemma split_on_delim [simp, wire_simps]:
  "d \<notin> set x \<Longrightarrow> split_on d cur (x @ d # rest) = (cur @ x) # split_on d [] rest"
  by (induction x arbitrary: cur) auto

lemma split_on_join:
  "xs \<noteq> [] \<Longrightarrow> \<forall>x \<in> set xs. d \<notin> set x \<Longrightarrow> split_on d [] (join_with d xs) = xs"
  by (induction d xs rule: join_with.induct) auto

lemma join_Cons: "xs \<noteq> [] \<Longrightarrow> join_with d (x # xs) = x @ d # join_with d xs"
  by (cases xs) auto

lemma join_split_on: "join_with d (split_on d cur s) = cur @ s"
  by (induction d cur s rule: split_on.induct) (auto simp: join_Cons)

lemma split_on_parts:
  "d \<notin> set cur \<Longrightarrow> f \<in> set (split_on d cur s) \<Longrightarrow> d \<notin> set f"
  by (induction d cur s rule: split_on.induct) (auto split: if_splits)

lemma set_join_with: "set (join_with d xs) \<subseteq> insert d (\<Union> (set ` set xs))"
  by (induction d xs rule: join_with.induct) auto

lemma set_join_parts: "x \<in> set xs \<Longrightarrow> set x \<subseteq> set (join_with d xs)"
  by (induction d xs rule: join_with.induct) auto

lemma join_with_eq_Nil: "join_with d xs = [] \<longleftrightarrow> xs = [] \<or> xs = [[]]"
  by (induction d xs rule: join_with.induct) auto

lemma join_with_inj:
  assumes "join_with d xs = join_with d ys" "xs \<noteq> []" "ys \<noteq> []"
    "\<forall>x \<in> set xs. d \<notin> set x" "\<forall>y \<in> set ys. d \<notin> set y"
  shows "xs = ys"
  by (metis assms split_on_join)

text \<open>Cutting a text at the first delimiter is unambiguous when the parts lack it.\<close>

lemma append_delim_eq:
  assumes "x @ d # r = y @ d # r'" "d \<notin> set x" "d \<notin> set y"
  shows "x = y \<and> r = r'"
  using assms
proof (induction x arbitrary: y)
  case Nil
  then show ?case by (cases y) auto
next
  case (Cons c x)
  then show ?case by (cases y) auto
qed

subsection \<open>Searches in strings\<close>

text \<open>\<^verbatim>\<open>s.find(c, pos)\<close>: the least index at or after \<open>pos\<close>, \<open>None\<close> for \<^verbatim>\<open>npos\<close>.\<close>

fun find_char_at :: "nat \<Rightarrow> char \<Rightarrow> string \<Rightarrow> nat option" where
  "find_char_at i c [] = None"
| "find_char_at i c (x # xs) = (if x = c then Some i else find_char_at (Suc i) c xs)"

definition find_char :: "string \<Rightarrow> char \<Rightarrow> nat \<Rightarrow> nat option" where
  "find_char s c pos = find_char_at pos c (drop pos s)"

text \<open>
  \<^verbatim>\<open>s.substr(pos, n)\<close> and \<^verbatim>\<open>s.substr(pos)\<close>. The library throws when \<open>pos\<close> is past the
  end; every call in the sources is at a position that a search or a prefix test found.
\<close>

definition substr :: "string \<Rightarrow> nat \<Rightarrow> nat \<Rightarrow> string" where
  "substr s pos n = take n (drop pos s)"

definition substr_from :: "string \<Rightarrow> nat \<Rightarrow> string" where
  "substr_from s pos = drop pos s"

text \<open>\<^verbatim>\<open>s.rfind(p, 0) == 0\<close>: \<open>p\<close> is a prefix of \<open>s\<close>.\<close>

definition starts_with :: "string \<Rightarrow> string \<Rightarrow> bool" where
  "starts_with s p \<longleftrightarrow> take (length p) s = p"

lemma starts_with_append [simp]: "starts_with (p @ s) p"
  by (simp add: starts_with_def)

lemma starts_with_iff: "starts_with s p \<longleftrightarrow> (\<exists>r. s = p @ r)"
  by (auto simp: starts_with_def) (metis append_take_drop_id)

lemma find_char_at_None: "find_char_at i c s = None \<longleftrightarrow> c \<notin> set s"
  by (induction s arbitrary: i) auto

lemma find_char_at_append:
  "c \<notin> set x \<Longrightarrow> find_char_at i c (x @ c # r) = Some (i + length x)"
  by (induction x arbitrary: i) auto

lemma find_char_at_bound: "find_char_at i c s = Some p \<Longrightarrow> i \<le> p \<and> p < i + length s"
  by (induction s arbitrary: i) (fastforce split: if_splits)+

lemma find_char_in_range: "find_char s c pos = Some p \<Longrightarrow> pos \<le> p \<and> p < length s"
proof -
  assume "find_char s c pos = Some p"
  then have "pos \<le> p \<and> p < pos + length (drop pos s)"
    unfolding find_char_def by (rule find_char_at_bound)
  then show ?thesis by auto
qed

lemma find_char_0_append [simp, wire_simps]:
  "c \<notin> set x \<Longrightarrow> find_char (x @ c # r) c 0 = Some (length x)"
  by (simp add: find_char_def find_char_at_append)

lemma find_char_0_None: "find_char s c 0 = None \<longleftrightarrow> c \<notin> set s"
  by (simp add: find_char_def find_char_at_None)

lemma find_char_after [wire_simps]:
  assumes "c \<notin> set y"
  shows "find_char (x @ y @ c # r) c (length x) = Some (length x + length y)"
  using assms by (simp add: find_char_def find_char_at_append)

subsection \<open>The external libraries\<close>

text \<open>
  OpenSSL is not part of the repository: its digest and its Ed25519 operations are
  parameters of the model, together with the platform's data model. Private keys and public
  keys are 32 bytes, signatures and SHA-512 digests 64 bytes; \<open>openssl_ok\<close> states that and
  that a signature made with a private key verifies under the matching public key.
\<close>

record env =
  evp_sha512 :: "string \<Rightarrow> bytes"
  ed25519_public :: "bytes \<Rightarrow> bytes"
  ed25519_sign :: "bytes \<Rightarrow> string \<Rightarrow> bytes"
  ed25519_verify :: "bytes \<Rightarrow> string \<Rightarrow> bytes \<Rightarrow> bool"
  platform :: data_model

definition openssl_ok :: "env \<Rightarrow> bool" where
  "openssl_ok E \<longleftrightarrow>
     (\<forall>s. length (evp_sha512 E s) = 64)
     \<and> (\<forall>k. length (ed25519_public E k) = 32)
     \<and> (\<forall>k m. length (ed25519_sign E k m) = 64)
     \<and> (\<forall>k m. length k = 32 \<longrightarrow> ed25519_verify E (ed25519_public E k) m (ed25519_sign E k m))"

lemma openssl_okD:
  assumes "openssl_ok E"
  shows "length (evp_sha512 E s) = 64" "length (ed25519_public E k) = 32"
    "length (ed25519_sign E k m) = 64"
    "length k = 32 \<Longrightarrow> ed25519_verify E (ed25519_public E k) m (ed25519_sign E k m)"
  using assms by (simp_all add: openssl_ok_def)

subsection \<open>Interface: a text codec\<close>

text \<open>
  What the wire formats promise to the code that stores and sends their text: decoding an
  encoded well-formed value gives that value back.
\<close>

locale codec =
  fixes enc :: "'a \<Rightarrow> string" and dec :: "string \<Rightarrow> 'a res" and wf :: "'a \<Rightarrow> bool"
  assumes dec_enc: "wf x \<Longrightarrow> dec (enc x) = Inr x"
begin

lemma enc_inj: "wf x \<Longrightarrow> wf y \<Longrightarrow> enc x = enc y \<Longrightarrow> x = y"
  by (metis dec_enc sum.inject(2))

lemma enc_inj_on: "inj_on enc (Collect wf)"
  by (rule inj_onI) (auto intro: enc_inj)

lemma dec_enc_list: "\<forall>x \<in> set xs. wf x \<Longrightarrow> map_res dec (map enc xs) = Inr xs"
  by (rule map_res_map_Inr) (auto intro: dec_enc)

end

text \<open>
  A line codec also keeps the line separator and the end marker of the chain transfer out of
  its text, so that a list of values can be sent as lines.
\<close>

locale line_codec = codec +
  assumes enc_no_newline: "wf x \<Longrightarrow> CHR 0x0A \<notin> set (enc x)"
    and enc_not_end: "wf x \<Longrightarrow> enc x \<noteq> ''END''"
    and enc_nonempty: "wf x \<Longrightarrow> enc x \<noteq> []"
begin

lemma enc_lines: "\<forall>x \<in> set xs. wf x \<Longrightarrow> l \<in> set (map enc xs) \<Longrightarrow>
    CHR 0x0A \<notin> set l \<and> l \<noteq> ''END'' \<and> l \<noteq> []"
  using enc_no_newline enc_not_end enc_nonempty by auto

end

text \<open>
  A relaying codec decodes lines to well-formed values only, so that whatever was received can
  be sent on: the value read back from its own line is the value received.
\<close>

locale relay_codec = line_codec +
  assumes dec_wf: "CHR 0x0A \<notin> set s \<Longrightarrow> dec s = Inr x \<Longrightarrow> wf x"
begin

lemma relay: "CHR 0x0A \<notin> set s \<Longrightarrow> dec s = Inr x \<Longrightarrow> dec (enc x) = Inr x"
  by (intro dec_enc dec_wf)

lemma dec_list_wf:
  "\<forall>s \<in> set ss. CHR 0x0A \<notin> set s \<Longrightarrow> map_res dec ss = Inr xs \<Longrightarrow> x \<in> set xs \<Longrightarrow> wf x"
  by (induction ss arbitrary: xs) (auto simp: bind_res_Inr_iff intro: dec_wf)

end

subsection \<open>Interface: a transition system with an invariant\<close>

text \<open>
  The states reachable from an initial state by a step relation, and the rule that lifts an
  invariant of single steps to all of them.
\<close>

inductive reach_from :: "('s \<Rightarrow> bool) \<Rightarrow> ('s \<Rightarrow> 's \<Rightarrow> bool) \<Rightarrow> 's \<Rightarrow> bool"
  for init :: "'s \<Rightarrow> bool" and step :: "'s \<Rightarrow> 's \<Rightarrow> bool" where
  reach_init: "init s \<Longrightarrow> reach_from init step s"
| reach_step: "reach_from init step s \<Longrightarrow> step s t \<Longrightarrow> reach_from init step t"

lemma reach_run: "step\<^sup>*\<^sup>* a b \<Longrightarrow> reach_from init step a \<Longrightarrow> reach_from init step b"
  by (induction rule: rtranclp_induct) (auto intro: reach_step)

text \<open>A history: the states of a run, the latest first.\<close>

inductive trace_from :: "('s \<Rightarrow> bool) \<Rightarrow> ('s \<Rightarrow> 's \<Rightarrow> bool) \<Rightarrow> 's list \<Rightarrow> bool"
  for init :: "'s \<Rightarrow> bool" and step :: "'s \<Rightarrow> 's \<Rightarrow> bool" where
  trace_init: "init s \<Longrightarrow> trace_from init step [s]"
| trace_step: "trace_from init step (s # past) \<Longrightarrow> step s t \<Longrightarrow> trace_from init step (t # s # past)"

lemma trace_reach: "trace_from init step ss \<Longrightarrow> reach_from init step (hd ss)"
  by (induction rule: trace_from.induct) (auto intro: reach_init reach_step)

lemma reach_trace: "reach_from init step s \<Longrightarrow> \<exists>past. trace_from init step (s # past)"
  by (induction rule: reach_from.induct) (blast intro: trace_init trace_step)+

locale invariant_system =
  fixes init :: "'s \<Rightarrow> bool" and step :: "'s \<Rightarrow> 's \<Rightarrow> bool" and inv :: "'s \<Rightarrow> bool"
  assumes inv_init: "init s \<Longrightarrow> inv s"
    and inv_step: "inv s \<Longrightarrow> step s t \<Longrightarrow> inv t"
begin

lemma reach_inv: "reach_from init step s \<Longrightarrow> inv s"
  by (induction rule: reach_from.induct) (auto intro: inv_init inv_step)

lemma steps_inv: "step\<^sup>*\<^sup>* s t \<Longrightarrow> inv s \<Longrightarrow> inv t"
  by (induction rule: rtranclp_induct) (auto intro: inv_step)

end

subsection \<open>Interface: a transition system that refines another\<close>

text \<open>
  A view of the states of one system under which its initial states are initial and each of its
  steps is a number of steps, perhaps none, of another system.
\<close>

locale refining_system =
  fixes cinit :: "'c \<Rightarrow> bool" and cstep :: "'c \<Rightarrow> 'c \<Rightarrow> bool"
    and ainit :: "'a \<Rightarrow> bool" and astep :: "'a \<Rightarrow> 'a \<Rightarrow> bool" and abs :: "'c \<Rightarrow> 'a"
  assumes abs_init: "cinit c \<Longrightarrow> ainit (abs c)"
    and abs_step: "cstep c c' \<Longrightarrow> astep\<^sup>*\<^sup>* (abs c) (abs c')"
begin

lemma abs_run: "cstep\<^sup>*\<^sup>* c c' \<Longrightarrow> astep\<^sup>*\<^sup>* (abs c) (abs c')"
  by (induction rule: rtranclp_induct) (auto intro: rtranclp_trans abs_step)

lemma abs_reach: "reach_from cinit cstep c \<Longrightarrow> reach_from ainit astep (abs c)"
  by (induction rule: reach_from.induct) (auto intro: reach_init abs_init reach_run abs_step)

end

end
