(* ===== verification/Number_Text.thy ===== *)
theory Number_Text
  imports MB_Prelude
begin

text \<open>
  The C++ library's decimal text: what \<^verbatim>\<open>operator<<\<close> and \<^verbatim>\<open>std::to_string\<close> print for the
  integer types of the sources, and what \<^verbatim>\<open>std::stoi\<close>, \<^verbatim>\<open>std::stol\<close>, \<^verbatim>\<open>std::stoul\<close>,
  \<^verbatim>\<open>std::stoll\<close> and \<^verbatim>\<open>std::stoull\<close> read, with the exceptions they throw. The lemmas show that
  reading gives back what was printed, for every value of each type, and that printed numbers
  hold none of the characters the wire formats use as separators.
\<close>

subsection \<open>Printing\<close>

definition digit_char :: "nat \<Rightarrow> char" where
  "digit_char d = char_of (48 + d)"

fun show_nat :: "nat \<Rightarrow> string" where
  "show_nat n =
     (if n < 10 then [digit_char n] else show_nat (n div 10) @ [digit_char (n mod 10)])"

declare show_nat.simps [simp del]

definition show_int :: "int \<Rightarrow> string" where
  "show_int i = (if i < 0 then CHR ''-'' # show_nat (nat (- i)) else show_nat (nat i))"

definition show_u64 :: "u64 \<Rightarrow> string" where
  "show_u64 w = show_nat (unat w)"

definition show_u32 :: "u32 \<Rightarrow> string" where
  "show_u32 w = show_nat (unat w)"

definition show_i64 :: "i64 \<Rightarrow> string" where
  "show_i64 w = show_int (sint w)"

subsection \<open>Reading\<close>

text \<open>\<^verbatim>\<open>isspace\<close> in the C locale: space, tab, newline, vertical tab, form feed, return.\<close>

definition is_space :: "char \<Rightarrow> bool" where
  "is_space c \<longleftrightarrow> of_char c \<in> {32, 9, 10, 11, 12, 13 :: nat}"

definition digit_val :: "nat \<Rightarrow> char \<Rightarrow> nat option" where
  "digit_val base c =
     (let k = of_char c :: nat;
          v = (if 48 \<le> k \<and> k \<le> 57 then k - 48
               else if 97 \<le> k \<and> k \<le> 122 then k - 87
               else if 65 \<le> k \<and> k \<le> 90 then k - 55
               else 36)
      in if v < base then Some v else None)"

definition is_digit :: "nat \<Rightarrow> char \<Rightarrow> bool" where
  "is_digit base c \<longleftrightarrow> digit_val base c \<noteq> None"

definition digits_value :: "nat \<Rightarrow> string \<Rightarrow> nat" where
  "digits_value base ds = foldl (\<lambda>v c. v * base + the (digit_val base c)) 0 ds"

text \<open>In base 16 a prefix \<^verbatim>\<open>0x\<close> is part of the number when a hex digit follows it.\<close>

definition skip_0x :: "nat \<Rightarrow> string \<Rightarrow> string" where
  "skip_0x base s =
     (case s of
        z # x # h # r \<Rightarrow>
          (if base = 16 \<and> z = CHR ''0'' \<and> (x = CHR ''x'' \<or> x = CHR ''X'') \<and> is_digit 16 h
           then h # r else s)
      | _ \<Rightarrow> s)"

definition scan_sign :: "string \<Rightarrow> bool \<times> string" where
  "scan_sign s =
     (case s of
        [] \<Rightarrow> (False, [])
      | c # r \<Rightarrow> (if c = CHR ''-'' then (True, r) else if c = CHR ''+'' then (False, r) else (False, s)))"

text \<open>
  The text \<^verbatim>\<open>strtol\<close> and its kin accept: white space, a sign, digits; what follows the digits
  is ignored. \<open>None\<close> when there is no digit.
\<close>

definition scan_int :: "nat \<Rightarrow> string \<Rightarrow> (bool \<times> nat) option" where
  "scan_int base s =
     (case scan_sign (dropWhile is_space s) of (neg, s') \<Rightarrow>
        (let ds = takeWhile (is_digit base) (skip_0x base s')
         in if ds = [] then None else Some (neg, digits_value base ds)))"

text \<open>Unsigned conversions negate modulo the width when the text has a minus sign.\<close>

definition strtou :: "nat \<Rightarrow> nat \<Rightarrow> string \<Rightarrow> nat res" where
  "strtou bits base s =
     (case scan_int base s of
        None \<Rightarrow> Inl InvalidArgument
      | Some (neg, v) \<Rightarrow>
          (if 2 ^ bits \<le> v then Inl OutOfRange
           else if neg then Inr ((2 ^ bits - v) mod 2 ^ bits)
           else Inr v))"

definition strtos :: "nat \<Rightarrow> nat \<Rightarrow> string \<Rightarrow> int res" where
  "strtos bits base s =
     (case scan_int base s of
        None \<Rightarrow> Inl InvalidArgument
      | Some (neg, v) \<Rightarrow>
          (if neg then (if 2 ^ (bits - 1) < v then Inl OutOfRange else Inr (- int v))
           else (if 2 ^ (bits - 1) \<le> v then Inl OutOfRange else Inr (int v))))"

definition stoull :: "string \<Rightarrow> u64 res" where
  "stoull s = bind_res (strtou 64 10 s) (\<lambda>n. Inr (word_of_nat n))"

definition stoll :: "string \<Rightarrow> i64 res" where
  "stoll s = bind_res (strtos 64 10 s) (\<lambda>i. Inr (word_of_int i))"

definition stoul :: "data_model \<Rightarrow> nat \<Rightarrow> string \<Rightarrow> nat res" where
  "stoul dm base s = strtou (long_bits dm) base s"

definition stol :: "data_model \<Rightarrow> string \<Rightarrow> int res" where
  "stol dm s = strtos (long_bits dm) 10 s"

text \<open>\<^verbatim>\<open>std::stoi\<close> reads a \<^verbatim>\<open>long\<close> and throws \<^verbatim>\<open>out_of_range\<close> when it is not an \<^verbatim>\<open>int\<close>.\<close>

definition stoi :: "string \<Rightarrow> int res" where
  "stoi s = strtos 32 10 s"

subsection \<open>Digits\<close>

lemma digit_val_digit_char [simp]: "d < 10 \<Longrightarrow> 10 \<le> base \<Longrightarrow> digit_val base (digit_char d) = Some d"
  by (simp add: digit_val_def digit_char_def)

lemma is_digit_digit_char [simp]: "d < 10 \<Longrightarrow> is_digit 10 (digit_char d)"
  by (simp add: is_digit_def)

lemma show_nat_digits: "c \<in> set (show_nat n) \<Longrightarrow> \<exists>d<10. c = digit_char d"
proof (induction n rule: show_nat.induct)
  case (1 n)
  then show ?case
    by (cases "n < 10") (auto simp: show_nat.simps[of n] intro: exI[of _ "n mod 10"])
qed

lemma show_nat_is_digit: "c \<in> set (show_nat n) \<Longrightarrow> is_digit 10 c"
  using show_nat_digits by force

lemma show_nat_nonempty [simp]: "show_nat n \<noteq> []"
  by (subst show_nat.simps) auto

lemma digits_value_snoc:
  "digits_value base (ds @ [c]) = digits_value base ds * base + the (digit_val base c)"
  by (simp add: digits_value_def)

lemma digits_value_bound:
  "0 < base \<Longrightarrow> \<forall>c \<in> set ds. is_digit base c \<Longrightarrow> digits_value base ds < base ^ length ds"
proof (induction ds rule: rev_induct)
  case Nil
  then show ?case by (simp add: digits_value_def)
next
  case (snoc c ds)
  then have lt: "digits_value base ds < base ^ length ds" by simp
  obtain v where v: "digit_val base c = Some v" "v < base"
    using snoc.prems by (auto simp: is_digit_def digit_val_def Let_def split: if_splits)
  have "digits_value base ds * base + v < (digits_value base ds + 1) * base"
    using v(2) by simp
  also have "\<dots> \<le> base ^ length ds * base" using lt by (intro mult_le_mono1) simp
  finally show ?case using v(1) by (simp add: digits_value_snoc mult.commute)
qed

lemma digits_value_show_nat [simp]: "digits_value 10 (show_nat n) = n"
proof (induction n rule: show_nat.induct)
  case (1 n)
  show ?case
  proof (cases "n < 10")
    case True
    then show ?thesis by (simp add: show_nat.simps[of n] digits_value_def)
  next
    case False
    with "1.IH" show ?thesis
      by (subst show_nat.simps) (simp add: digits_value_snoc)
  qed
qed

lemma show_nat_inj: "show_nat m = show_nat n \<Longrightarrow> m = n"
  by (metis digits_value_show_nat)

lemma digit_code: "is_digit 10 c \<longleftrightarrow> 48 \<le> (of_char c :: nat) \<and> (of_char c :: nat) \<le> 57"
  by (auto simp: is_digit_def digit_val_def Let_def split: if_splits)

lemma takeWhile_show_nat [simp]:
  "takeWhile (is_digit 10) (show_nat n) = show_nat n"
  by (simp add: takeWhile_eq_all_conv show_nat_is_digit)

lemma takeWhile_show_nat_append [simp]:
  "\<not> is_digit 10 c \<Longrightarrow> takeWhile (is_digit 10) (show_nat n @ c # r) = show_nat n"
  by (simp add: takeWhile_append show_nat_is_digit)

lemma show_nat_Cons: obtains c r where "show_nat n = c # r" "is_digit 10 c"
  by (metis list.exhaust list.set_intros(1) show_nat_is_digit show_nat_nonempty)

text \<open>The characters a printed number cannot hold.\<close>

lemma show_nat_not_in:
  "(of_char c :: nat) < 48 \<or> 57 < (of_char c :: nat) \<Longrightarrow> c \<notin> set (show_nat n)"
  using show_nat_is_digit digit_code by fastforce

lemma show_int_not_in:
  "(of_char c :: nat) < 48 \<or> 57 < (of_char c :: nat) \<Longrightarrow> c \<noteq> CHR ''-'' \<Longrightarrow> c \<notin> set (show_int i)"
  using show_nat_not_in by (auto simp: show_int_def)

lemma show_separators [simp]:
  "CHR ''|'' \<notin> set (show_nat n)" "CHR '','' \<notin> set (show_nat n)"
  "CHR '';'' \<notin> set (show_nat n)" "CHR 0x0A \<notin> set (show_nat n)"
  "CHR ''|'' \<notin> set (show_int i)" "CHR '','' \<notin> set (show_int i)"
  "CHR '';'' \<notin> set (show_int i)" "CHR 0x0A \<notin> set (show_int i)"
  by (simp_all add: show_nat_not_in show_int_not_in)

lemma show_word_separators [simp]:
  "CHR ''|'' \<notin> set (show_u64 w)" "CHR '','' \<notin> set (show_u64 w)"
  "CHR '';'' \<notin> set (show_u64 w)" "CHR 0x0A \<notin> set (show_u64 w)"
  "CHR ''|'' \<notin> set (show_u32 v)" "CHR '','' \<notin> set (show_u32 v)"
  "CHR '';'' \<notin> set (show_u32 v)" "CHR 0x0A \<notin> set (show_u32 v)"
  "CHR ''|'' \<notin> set (show_i64 w)" "CHR '','' \<notin> set (show_i64 w)"
  "CHR '';'' \<notin> set (show_i64 w)" "CHR 0x0A \<notin> set (show_i64 w)"
  by (simp_all add: show_u64_def show_u32_def show_i64_def)

subsection \<open>Reading what was printed\<close>

text \<open>What follows the digits does not matter.\<close>

lemma scan_int_show_nat_then:
  assumes "r = [] \<or> \<not> is_digit 10 (hd r)"
  shows "scan_int 10 (show_nat n @ r) = Some (False, n)"
proof -
  obtain c cs where s: "show_nat n = c # cs" and d: "is_digit 10 c"
    by (rule show_nat_Cons)
  from d have "\<not> is_space c" "c \<noteq> CHR ''-''" "c \<noteq> CHR ''+''"
    by (auto simp: digit_code is_space_def)
  then have *: "scan_sign (dropWhile is_space (show_nat n @ r)) = (False, show_nat n @ r)"
    by (simp add: s scan_sign_def)
  have "skip_0x 10 (show_nat n @ r) = show_nat n @ r"
    by (auto simp: skip_0x_def split: list.splits)
  moreover have "takeWhile (is_digit 10) (show_nat n @ r) = show_nat n"
    using assms show_nat_is_digit by (cases r) auto
  ultimately show ?thesis using * by (simp add: scan_int_def Let_def)
qed

lemma scan_int_show_nat: "scan_int 10 (show_nat n) = Some (False, n)"
  using scan_int_show_nat_then[of "[]" n] by simp

lemma scan_int_minus: "scan_int 10 (CHR ''-'' # show_nat n) = Some (True, n)"
proof -
  have "skip_0x 10 (show_nat n) = show_nat n"
    by (auto simp: skip_0x_def split: list.splits)
  then show ?thesis by (simp add: scan_int_def scan_sign_def is_space_def Let_def)
qed

lemma scan_int_show_int: "scan_int 10 (show_int i) = Some (i < 0, nat \<bar>i\<bar>)"
  by (simp add: show_int_def scan_int_show_nat scan_int_minus)

lemma strtou_show_nat: "n < 2 ^ bits \<Longrightarrow> strtou bits 10 (show_nat n) = Inr n"
  by (simp add: strtou_def scan_int_show_nat)

lemma strtos_show_int:
  "- (2 ^ (bits - 1)) \<le> i \<Longrightarrow> i < 2 ^ (bits - 1) \<Longrightarrow> strtos bits 10 (show_int i) = Inr i"
  by (auto simp: strtos_def scan_int_show_int nat_less_iff nat_le_iff le_nat_iff)

lemma stoull_show_u64_then:
  assumes "r = [] \<or> \<not> is_digit 10 (hd r)"
  shows "stoull (show_u64 w @ r) = Inr w"
proof -
  have "\<not> 2 ^ 64 \<le> unat w" using unsigned_less[where 'a=nat, of w] by simp
  with scan_int_show_nat_then[OF assms] show ?thesis by (simp add: stoull_def show_u64_def strtou_def)
qed

lemma stoull_show_u64 [simp, wire_simps]: "stoull (show_u64 w) = Inr w"
  using stoull_show_u64_then[of "[]" w] by simp

lemma stoll_show_i64 [simp, wire_simps]: "stoll (show_i64 w) = Inr w"
proof -
  have "- (2 ^ 63) \<le> sint w \<and> sint w < 2 ^ 63"
    using sint_greater_eq[of w] sint_lt[of w] by simp
  then have "strtos 64 10 (show_int (sint w)) = Inr (sint w)"
    by (intro strtos_show_int) simp_all
  then show ?thesis by (simp add: stoll_def show_i64_def)
qed

lemma stoul_show_u32 [simp, wire_simps]: "stoul dm 10 (show_u32 v) = Inr (unat v)"
proof -
  have "unat v < 2 ^ 32" using unsigned_less[where 'a=nat, of v] by simp
  also have "(2::nat) ^ 32 \<le> 2 ^ long_bits dm"
    by (rule power_increasing) simp_all
  finally show ?thesis by (simp add: stoul_def show_u32_def strtou_show_nat)
qed

lemma length_skip_0x: "length (skip_0x base s) \<le> length s"
  by (auto simp: skip_0x_def split: list.splits)

lemma length_scan_sign: "length (snd (scan_sign s)) \<le> length s"
  by (auto simp: scan_sign_def split: list.splits)

text \<open>A text too short to reach the width never overflows.\<close>

lemma strtou_short:
  assumes "strtou bits base s = Inl e" "0 < base" "base ^ length s \<le> 2 ^ bits"
  shows "e = InvalidArgument"
proof (rule ccontr)
  assume "e \<noteq> InvalidArgument"
  with assms(1) obtain neg v where v: "scan_int base s = Some (neg, v)" "2 ^ bits \<le> v"
    by (auto simp: strtou_def split: option.splits if_splits prod.splits)
  let ?s' = "snd (scan_sign (dropWhile is_space s))"
  let ?ds = "takeWhile (is_digit base) (skip_0x base ?s')"
  have "v = digits_value base ?ds"
    using v(1) by (auto simp: scan_int_def Let_def split: prod.splits if_splits)
  also have "\<dots> < base ^ length ?ds"
    using assms(2) by (intro digits_value_bound) (auto dest: set_takeWhileD)
  also have "\<dots> \<le> base ^ length s"
  proof (rule power_increasing)
    have "length ?ds \<le> length (skip_0x base ?s')" by (rule length_takeWhile_le)
    also have "\<dots> \<le> length ?s'" by (rule length_skip_0x)
    also have "\<dots> \<le> length (dropWhile is_space s)" by (rule length_scan_sign)
    also have "\<dots> \<le> length s" by (rule length_dropWhile_le)
    finally show "length ?ds \<le> length s" .
  qed (use assms(2) in simp)
  finally show False using v(2) assms(3) by simp
qed

lemma show_u64_inj: "show_u64 a = show_u64 b \<Longrightarrow> a = b"
  by (metis stoull_show_u64 sum.inject(2))

lemma show_i64_inj: "show_i64 a = show_i64 b \<Longrightarrow> a = b"
  by (metis stoll_show_i64 sum.inject(2))

lemma show_u32_inj: "show_u32 a = show_u32 b \<Longrightarrow> a = b"
  by (simp add: show_u32_def) (metis show_nat_inj unsigned_word_eqI)

lemma show_word_nonempty [simp]:
  "show_u64 w \<noteq> []" "show_u32 v \<noteq> []" "show_i64 w \<noteq> []"
  by (simp_all add: show_u64_def show_u32_def show_i64_def show_int_def)

lemma show_u64_not_E: "show_u64 w \<noteq> CHR ''E'' # r"
proof
  assume "show_u64 w = CHR ''E'' # r"
  then have "is_digit 10 (CHR ''E'')"
    using show_nat_is_digit[of "CHR ''E''" "unat w"] by (simp add: show_u64_def)
  then show False by (simp add: digit_code)
qed

lemma strtos_show_nat:
  "strtos bits 10 (show_nat n) = (if 2 ^ (bits - 1) \<le> n then Inl OutOfRange else Inr (int n))"
  by (simp add: strtos_def scan_int_show_nat)

lemma stoi_show_int: "- (2 ^ 31) \<le> i \<Longrightarrow> i < 2 ^ 31 \<Longrightarrow> stoi (show_int i) = Inr i"
  unfolding stoi_def by (rule strtos_show_int) simp_all

lemma stoi_range: "stoi s = Inr i \<Longrightarrow> - (2 ^ 31) \<le> i \<and> i < 2 ^ 31"
  by (auto simp: stoi_def strtos_def not_le not_less split: option.splits if_splits prod.splits)

end
