(* ===== verification/Sample_Env.thy ===== *)
theory Sample_Env
  imports MB_Prelude
begin

text \<open>
  A concrete instance of the external libraries, small enough to evaluate: a one-byte
  checksum padded to the length of a digest, and a signature scheme whose signatures are a
  checksum of key and message. It satisfies \<open>openssl_ok\<close>, so the hypotheses about the
  libraries can hold. It is used in the witnesses only.
\<close>

definition sample_checksum :: "string \<Rightarrow> u8" where
  "sample_checksum s = word_of_nat (sum_list (map of_char s))"

definition sample_tag :: "bytes \<Rightarrow> string \<Rightarrow> bytes" where
  "sample_tag k m = replicate 63 0 @ [sum_list k + sample_checksum m]"

definition sample_env :: env where
  "sample_env = \<lparr>
     evp_sha512 = (\<lambda>s. replicate 63 0 @ [sample_checksum s]),
     ed25519_public = (\<lambda>k. take 32 (k @ replicate 32 0)),
     ed25519_sign = sample_tag,
     ed25519_verify = (\<lambda>p m s. s = sample_tag p m),
     platform = LP64\<rparr>"

lemma sample_env_ok: "openssl_ok sample_env"
  by (auto simp: openssl_ok_def sample_env_def sample_tag_def min_def)

lemma sample_env_simps [simp]:
  "evp_sha512 sample_env s = replicate 63 0 @ [sample_checksum s]"
  "platform sample_env = LP64"
  by (simp_all add: sample_env_def)

end
