(* ===== verification/Hash512.thy ===== *)
theory Hash512
  imports Number_Text Sample_Env
begin

text \<open>
  \<^verbatim>\<open>src/crypto/hash.hpp\<close>: SHA-512 applied twice, hexadecimal text of a digest, and the count of
  leading zero digits that the difficulty test uses. The digest function itself is OpenSSL's
  and is the parameter \<open>evp_sha512\<close>.
\<close>

definition sha512 :: "env \<Rightarrow> string \<Rightarrow> bytes" where
  "sha512 E s = evp_sha512 E s"

text \<open>\<^verbatim>\<open>std::string(reinterpret_cast<char*>(p), n)\<close>: the bytes read as characters.\<close>

definition chars_of_bytes :: "bytes \<Rightarrow> string" where
  "chars_of_bytes bs = map (\<lambda>b. char_of (unat b)) bs"

definition sha512d :: "env \<Rightarrow> string \<Rightarrow> bytes" where
  "sha512d E s = (let first = sha512 E s in sha512 E (chars_of_bytes first))"

definition hexChars :: string where
  "hexChars = ''0123456789abcdef''"

definition hex_byte :: "u8 \<Rightarrow> string" where
  "hex_byte b = [hexChars ! unat (drop_bit 4 b), hexChars ! unat (b AND 0x0F)]"

fun toHex :: "bytes \<Rightarrow> string" where
  "toHex [] = []"
| "toHex (b # bs) = hex_byte b @ toHex bs"

fun leadingZeroHexDigits :: "string \<Rightarrow> nat" where
  "leadingZeroHexDigits [] = 0"
| "leadingZeroHexDigits (c # cs) = (if c = CHR ''0'' then Suc (leadingZeroHexDigits cs) else 0)"

subsection \<open>Nibbles and hexadecimal text\<close>

lemma nibble_high: "unat (drop_bit 4 b) = unat b div 16" for b :: u8
  by (simp add: drop_bit_eq_div unat_div)

lemma nibble_low: "unat (b AND 0x0F) = unat b mod 16" for b :: u8
proof -
  have "b AND 0x0F = take_bit 4 b"
    by (simp add: take_bit_eq_mask mask_eq_exp_minus_1)
  then show ?thesis by (simp add: take_bit_eq_mod unat_mod)
qed

lemma nibble_bounds:
  "unat (drop_bit 4 b) < 16" "unat (b AND 0x0F) < 16" for b :: u8
proof -
  have "unat b < 256" using unsigned_less[where 'a=nat, of b] by simp
  then show "unat (drop_bit 4 b) < 16" by (simp add: nibble_high)
  show "unat (b AND 0x0F) < 16" by (simp add: nibble_low)
qed

lemma length_hexChars: "length hexChars = 16"
  by (simp add: hexChars_def)

lemma digit_val_hexChars: "i < 16 \<Longrightarrow> digit_val 16 (hexChars ! i) = Some i"
proof -
  have "map (digit_val 16) hexChars = map Some [0..<16]"
    by (simp add: hexChars_def digit_val_def upt_rec)
  then have "map (digit_val 16) hexChars ! i = map Some [0..<16] ! i"
    by simp
  then show "i < 16 \<Longrightarrow> digit_val 16 (hexChars ! i) = Some i"
    by (simp add: length_hexChars)
qed

lemma hexChars_is_hex: "i < 16 \<Longrightarrow> is_digit 16 (hexChars ! i)"
  by (simp add: is_digit_def digit_val_hexChars)

lemma hexChars_nth_in: "i < 16 \<Longrightarrow> hexChars ! i \<in> set hexChars"
  by (rule nth_mem) (simp add: length_hexChars)

lemma length_hex_byte [simp]: "length (hex_byte b) = 2"
  by (simp add: hex_byte_def)

lemma length_toHex [simp]: "length (toHex bs) = 2 * length bs"
  by (induction bs) auto

lemma set_hex_byte: "set (hex_byte b) \<subseteq> set hexChars"
  using nibble_bounds[of b] by (simp add: hex_byte_def hexChars_nth_in)

lemma set_toHex: "set (toHex bs) \<subseteq> set hexChars"
  using set_hex_byte by (induction bs) auto

lemma toHex_separators [simp]:
  "CHR ''|'' \<notin> set (toHex bs)" "CHR '','' \<notin> set (toHex bs)"
  "CHR '';'' \<notin> set (toHex bs)" "CHR 0x0A \<notin> set (toHex bs)"
  using set_toHex[of bs] by (auto simp: hexChars_def)

lemma toHex_eq_Nil [simp]: "toHex bs = [] \<longleftrightarrow> bs = []"
  by (cases bs) (auto simp: hex_byte_def)

lemma toHex_append: "toHex (as @ bs) = toHex as @ toHex bs"
  by (induction as) auto

lemma hex_byte_inj: "hex_byte a = hex_byte b \<Longrightarrow> a = b"
proof -
  assume "hex_byte a = hex_byte b"
  then have "digit_val 16 (hexChars ! unat (drop_bit 4 a)) = digit_val 16 (hexChars ! unat (drop_bit 4 b))"
    "digit_val 16 (hexChars ! unat (a AND 0x0F)) = digit_val 16 (hexChars ! unat (b AND 0x0F))"
    by (simp_all add: hex_byte_def)
  then have "unat a div 16 = unat b div 16" "unat a mod 16 = unat b mod 16"
    using nibble_bounds[of a] nibble_bounds[of b]
    by (simp_all add: digit_val_hexChars nibble_high nibble_low)
  then have "unat a = unat b" by (metis div_mult_mod_eq)
  then show "a = b" by (simp add: word_unat_eq_iff)
qed

lemma toHex_inj: "toHex as = toHex bs \<Longrightarrow> as = bs"
proof (induction as arbitrary: bs)
  case Nil
  then show ?case by (metis toHex.simps(1) toHex_eq_Nil)
next
  case (Cons a as)
  then obtain b bs' where bs: "bs = b # bs'" by (cases bs) (auto simp: hex_byte_def)
  with Cons.prems have "hex_byte a = hex_byte b" "toHex as = toHex bs'"
    by (simp_all add: append_eq_append_conv)
  with Cons.IH bs hex_byte_inj show ?case by blast
qed

subsection \<open>Leading zeros\<close>

lemma leadingZeroHexDigits_le: "leadingZeroHexDigits s \<le> length s"
  by (induction s) auto

lemma leadingZeroHexDigits_replicate:
  "leadingZeroHexDigits (replicate n (CHR ''0'') @ s) = n + leadingZeroHexDigits s"
  by (induction n) auto

lemma leadingZeroHexDigits_ge_iff:
  "n \<le> leadingZeroHexDigits s \<longleftrightarrow> n \<le> length s \<and> take n s = replicate n (CHR ''0'')"
proof (induction n arbitrary: s)
  case 0
  then show ?case by simp
next
  case (Suc n)
  then show ?case by (cases s) auto
qed

lemma sha512d_length: "openssl_ok E \<Longrightarrow> length (sha512d E s) = 64"
  by (simp add: sha512d_def sha512_def openssl_okD Let_def)

subsection \<open>The sample digest\<close>

lemma sample_sha512d:
  "sha512d sample_env s = replicate 63 0 @ [sample_checksum s]"
proof -
  have "sample_checksum (chars_of_bytes (replicate 63 0 @ [b])) = b" for b
    using unsigned_less[where 'a=nat, of b]
    by (simp add: sample_checksum_def chars_of_bytes_def sum_list_replicate)
  then show ?thesis by (simp add: sha512d_def sha512_def Let_def)
qed

lemma toHex_zeros: "toHex (replicate n 0) = replicate (2 * n) (CHR ''0'')"
  by (induction n) (simp_all add: hex_byte_def hexChars_def)

text \<open>Every sample hash starts with 126 zero digits.\<close>

lemma sample_leading: "126 \<le> leadingZeroHexDigits (toHex (sha512d sample_env s))"
  by (simp add: sample_sha512d toHex_append toHex_zeros leadingZeroHexDigits_replicate)

end
