(* ===== verification/Block.thy ===== *)
theory Block
  imports Hash512
begin

text \<open>
  \<^verbatim>\<open>src/blockchain/block.hpp\<close>: the block, the text its hash is computed from, and the line that
  carries it between peers. The line format is interpreted as a line codec on the blocks
  whose texts keep clear of the separators.
\<close>

record block =
  blk_height :: u64
  blk_timestamp :: i64
  blk_difficulty :: u32
  blk_nonce :: u64
  blk_previousHash :: string
  blk_transactions :: "string list"

text \<open>The default member initialisers.\<close>

definition block_default :: block where
  "block_default = \<lparr>blk_height = 0, blk_timestamp = 0, blk_difficulty = 1, blk_nonce = 0,
     blk_previousHash = [], blk_transactions = []\<rparr>"

definition header_text :: "block \<Rightarrow> string" where
  "header_text b =
     show_u64 (blk_height b) @ CHR ''|'' # show_i64 (blk_timestamp b) @ CHR ''|'' #
     show_u32 (blk_difficulty b) @ CHR ''|'' # show_u64 (blk_nonce b) @ CHR ''|'' #
     blk_previousHash b @ [CHR ''|'']"

definition serializeForHash :: "block \<Rightarrow> string" where
  "serializeForHash b =
     header_text b @ concat (map (\<lambda>tx. tx @ [CHR '';'']) (blk_transactions b))"

definition computeHash :: "env \<Rightarrow> block \<Rightarrow> string" where
  "computeHash E b = toHex (sha512d E (serializeForHash b))"

definition block_toLine :: "block \<Rightarrow> string" where
  "block_toLine b = header_text b @ join_with (CHR '','') (blk_transactions b)"

text \<open>
  The loop of \<^verbatim>\<open>fromLine\<close>: it collects fields until there are five or the line ends, and
  leaves the rest of the line untouched. The text after the last bar of a short line is
  dropped.
\<close>

fun scan_fields :: "string list \<Rightarrow> string \<Rightarrow> string \<Rightarrow> string list \<times> string" where
  "scan_fields flds cur [] = (flds, [])"
| "scan_fields flds cur (c # cs) =
     (if length flds < 5
      then if c = CHR ''|'' then scan_fields (flds @ [cur]) [] cs
           else scan_fields flds (cur @ [c]) cs
      else (flds, c # cs))"

definition block_fromLine :: "data_model \<Rightarrow> string \<Rightarrow> block res" where
  "block_fromLine dm line =
     (case scan_fields [] [] line of (flds, txBlob) \<Rightarrow>
        if length flds < 5 then Inr block_default
        else
          bind_res (stoull (flds ! 0)) (\<lambda>height.
          bind_res (stoll (flds ! 1)) (\<lambda>timestamp.
          bind_res (stoul dm 10 (flds ! 2)) (\<lambda>difficulty.
          bind_res (stoull (flds ! 3)) (\<lambda>nonce.
            Inr \<lparr>blk_height = height, blk_timestamp = timestamp,
                 blk_difficulty = word_of_nat difficulty, blk_nonce = nonce,
                 blk_previousHash = flds ! 4,
                 blk_transactions =
                   (if txBlob = [] then [] else split_on (CHR '','') [] txBlob)\<rparr>)))))"

subsection \<open>Scanning the header\<close>

lemma scan_fields_full [simp]: "5 \<le> length flds \<Longrightarrow> scan_fields flds cur line = (flds, line)"
  by (cases line) auto

lemma scan_fields_field:
  assumes "CHR ''|'' \<notin> set x" "length flds < 5"
  shows "scan_fields flds cur (x @ CHR ''|'' # rest) = scan_fields (flds @ [cur @ x]) [] rest"
  using assms by (induction x arbitrary: cur) auto

lemma scan_fields_header:
  assumes "CHR ''|'' \<notin> set (blk_previousHash b)"
  shows "scan_fields [] [] (header_text b @ blob) =
    ([show_u64 (blk_height b), show_i64 (blk_timestamp b), show_u32 (blk_difficulty b),
      show_u64 (blk_nonce b), blk_previousHash b], blob)"
  using assms by (simp add: header_text_def scan_fields_field)

lemma scan_fields_short:
  "CHR ''|'' \<notin> set x \<Longrightarrow> length flds < 5 \<Longrightarrow> scan_fields flds cur x = (flds, [])"
  by (induction x arbitrary: cur) auto

text \<open>The number of fields is the number of bars, up to five.\<close>

lemma scan_fields_count:
  "length flds \<le> 5 \<Longrightarrow>
   length (fst (scan_fields flds cur line)) = min 5 (length flds + count_list line (CHR ''|''))"
  by (induction flds cur line rule: scan_fields.induct) auto

lemma scan_fields_no_bar:
  "CHR ''|'' \<notin> set cur \<Longrightarrow> \<forall>f \<in> set flds. CHR ''|'' \<notin> set f \<Longrightarrow>
   f \<in> set (fst (scan_fields flds cur line)) \<Longrightarrow> CHR ''|'' \<notin> set f"
  by (induction flds cur line rule: scan_fields.induct) (auto split: if_splits)

subsection \<open>The wire line\<close>

text \<open>
  The blocks the line format can carry: no bar in the previous hash, no comma in a
  transaction, no newline anywhere, and not the one list of transactions, a single empty
  text, whose line is that of the empty list.
\<close>

definition block_wire_ok :: "block \<Rightarrow> bool" where
  "block_wire_ok b \<longleftrightarrow>
     CHR ''|'' \<notin> set (blk_previousHash b) \<and> CHR 0x0A \<notin> set (blk_previousHash b)
     \<and> (\<forall>tx \<in> set (blk_transactions b). CHR '','' \<notin> set tx \<and> CHR 0x0A \<notin> set tx)
     \<and> blk_transactions b \<noteq> [[]]"

lemma header_text_nonempty [simp]: "header_text b \<noteq> []"
  by (simp add: header_text_def)

lemma header_text_not_E: "header_text b \<noteq> CHR ''E'' # r"
proof -
  obtain c t where s: "show_u64 (blk_height b) = c # t" and d: "is_digit 10 c"
    using show_nat_Cons[of "unat (blk_height b)"] by (metis show_u64_def)
  from d have "c \<noteq> CHR ''E''" by (auto simp: digit_code)
  with s show ?thesis by (simp add: header_text_def)
qed

lemma block_fromLine_fields:
  assumes "CHR ''|'' \<notin> set (blk_previousHash b)" "\<forall>tx \<in> set (blk_transactions b). CHR '','' \<notin> set tx"
    and "blk_transactions b \<noteq> [[]]"
  shows "block_fromLine dm (block_toLine b) = Inr b"
proof -
  let ?txs = "blk_transactions b" and ?blob = "join_with (CHR '','') (blk_transactions b)"
  have txs: "(if ?blob = [] then [] else split_on (CHR '','') [] ?blob) = ?txs"
    using assms split_on_join[of ?txs "CHR '',''"]
    by (auto simp: join_with_eq_Nil)
  have "scan_fields [] [] (block_toLine b) =
    ([show_u64 (blk_height b), show_i64 (blk_timestamp b), show_u32 (blk_difficulty b),
      show_u64 (blk_nonce b), blk_previousHash b], ?blob)"
    using assms by (simp add: block_toLine_def scan_fields_header)
  then show ?thesis
    by (simp only: block_fromLine_def txs) (simp add: txs)
qed

lemma block_fromLine_toLine: "block_wire_ok b \<Longrightarrow> block_fromLine dm (block_toLine b) = Inr b"
  by (rule block_fromLine_fields) (auto simp: block_wire_ok_def)

lemma block_toLine_no_newline:
  assumes "block_wire_ok b"
  shows "CHR 0x0A \<notin> set (block_toLine b)"
  using assms set_join_with[of "CHR '',''" "blk_transactions b"]
  by (auto simp: block_toLine_def header_text_def block_wire_ok_def)

lemma block_toLine_not_end: "block_toLine b \<noteq> ''END''" "block_toLine b \<noteq> []"
proof -
  obtain c r where h: "header_text b = c # r" by (cases "header_text b") simp_all
  with header_text_not_E have "c \<noteq> CHR ''E''" by metis
  with h show "block_toLine b \<noteq> ''END''" "block_toLine b \<noteq> []"
    by (simp_all add: block_toLine_def)
qed

interpretation blk: line_codec block_toLine "block_fromLine dm" block_wire_ok for dm
  by unfold_locales
    (auto simp: block_fromLine_toLine block_toLine_no_newline block_toLine_not_end)

text \<open>Decoding fails only by an exception of one of the four number conversions.\<close>

lemma block_fromLine_error:
  assumes "block_fromLine dm line = Inl e"
  shows "5 \<le> count_list line (CHR ''|'') \<and> (e = InvalidArgument \<or> e = OutOfRange)"
proof -
  obtain flds blob where f: "scan_fields [] [] line = (flds, blob)"
    by (cases "scan_fields [] [] line")
  have "length flds = min 5 (count_list line (CHR ''|''))"
    using scan_fields_count[of "[]" "[]" line] f by simp
  moreover from assms f have "5 \<le> length flds" "e = InvalidArgument \<or> e = OutOfRange"
    by (auto simp: block_fromLine_def bind_res_Inl_iff stoull_def stoll_def stoul_def
        strtou_def strtos_def split: if_splits option.splits)
  ultimately show ?thesis by simp
qed

lemma block_fromLine_short:
  "count_list line (CHR ''|'') < 5 \<Longrightarrow> block_fromLine dm line = Inr block_default"
  using scan_fields_count[of "[]" "[]" line]
  by (auto simp: block_fromLine_def split: prod.split)

lemma block_fromLine_no_bar:
  assumes "block_fromLine dm line = Inr b"
  shows "CHR ''|'' \<notin> set (blk_previousHash b)"
    and "tx \<in> set (blk_transactions b) \<Longrightarrow> CHR '','' \<notin> set tx"
proof -
  obtain flds blob where f: "scan_fields [] [] line = (flds, blob)"
    by (cases "scan_fields [] [] line")
  then have bar: "5 \<le> length flds \<Longrightarrow> CHR ''|'' \<notin> set (flds ! 4)"
    using scan_fields_no_bar[of "[]" "[]" "flds ! 4" line] by auto
  show "CHR ''|'' \<notin> set (blk_previousHash b)"
    using assms f bar
    by (auto simp: block_fromLine_def bind_res_Inr_iff block_default_def split: if_splits)
  show "tx \<in> set (blk_transactions b) \<Longrightarrow> CHR '','' \<notin> set tx"
    using assms f split_on_parts[of "CHR '',''" "[]" tx blob]
    by (auto simp: block_fromLine_def bind_res_Inr_iff block_default_def split: if_splits)
qed

subsection \<open>What the hash commits to\<close>

text \<open>
  The serialised text determines the block when the transactions hold no semicolon and the
  previous hash no bar.
\<close>

definition block_hash_ok :: "block \<Rightarrow> bool" where
  "block_hash_ok b \<longleftrightarrow>
     CHR ''|'' \<notin> set (blk_previousHash b)
     \<and> (\<forall>tx \<in> set (blk_transactions b). CHR '';'' \<notin> set tx)"

lemma header_text_inj:
  assumes "header_text a @ r = header_text b @ r'"
    and "CHR ''|'' \<notin> set (blk_previousHash a)" "CHR ''|'' \<notin> set (blk_previousHash b)"
  shows "blk_height a = blk_height b \<and> blk_timestamp a = blk_timestamp b
    \<and> blk_difficulty a = blk_difficulty b \<and> blk_nonce a = blk_nonce b
    \<and> blk_previousHash a = blk_previousHash b \<and> r = r'"
proof -
  have "scan_fields [] [] (header_text a @ r) = scan_fields [] [] (header_text b @ r')"
    using assms(1) by simp
  then show ?thesis
    using assms(2,3)
    by (auto simp: scan_fields_header dest: show_u64_inj show_i64_inj show_u32_inj)
qed

lemma terminated_list_inj:
  assumes "concat (map (\<lambda>x. x @ [d]) xs) = concat (map (\<lambda>x. x @ [d]) ys)"
    and "\<forall>x \<in> set xs. d \<notin> set x" "\<forall>y \<in> set ys. d \<notin> set y"
  shows "xs = ys"
  using assms
proof (induction xs arbitrary: ys)
  case Nil
  then show ?case by (cases ys) auto
next
  case (Cons x xs)
  then obtain y ys' where ys: "ys = y # ys'" by (cases ys) auto
  with Cons.prems have "x = y \<and> concat (map (\<lambda>x. x @ [d]) xs) = concat (map (\<lambda>x. x @ [d]) ys')"
    by (intro append_delim_eq[of x d]) auto
  with Cons ys show ?case by auto
qed

lemma serializeForHash_inj:
  assumes "serializeForHash a = serializeForHash b" "block_hash_ok a" "block_hash_ok b"
  shows "a = b"
proof -
  let ?t = "\<lambda>b. concat (map (\<lambda>tx. tx @ [CHR '';'']) (blk_transactions b))"
  have "blk_height a = blk_height b \<and> blk_timestamp a = blk_timestamp b
    \<and> blk_difficulty a = blk_difficulty b \<and> blk_nonce a = blk_nonce b
    \<and> blk_previousHash a = blk_previousHash b \<and> ?t a = ?t b"
    using assms by (intro header_text_inj) (simp_all add: serializeForHash_def block_hash_ok_def)
  moreover from this have "blk_transactions a = blk_transactions b"
    using assms(2,3) by (intro terminated_list_inj[of "CHR '';''"]) (auto simp: block_hash_ok_def)
  ultimately show "a = b" by simp
qed

text \<open>Whatever the transactions hold, equal texts have equal headers.\<close>

lemma serializeForHash_header:
  assumes "serializeForHash a = serializeForHash b"
    and "CHR ''|'' \<notin> set (blk_previousHash a)" "CHR ''|'' \<notin> set (blk_previousHash b)"
  shows "blk_height a = blk_height b" "blk_previousHash a = blk_previousHash b"
    "blk_difficulty a = blk_difficulty b"
  using header_text_inj[OF _ assms(2,3)] assms(1) unfolding serializeForHash_def by blast+

lemma computeHash_length: "openssl_ok E \<Longrightarrow> length (computeHash E b) = 128"
  by (simp add: computeHash_def sha512d_length)

lemma computeHash_separators [simp]:
  "CHR ''|'' \<notin> set (computeHash E b)" "CHR '','' \<notin> set (computeHash E b)"
  "CHR '';'' \<notin> set (computeHash E b)" "CHR 0x0A \<notin> set (computeHash E b)"
  by (simp_all add: computeHash_def)

lemma computeHash_digest:
  "computeHash E a = computeHash E b \<longleftrightarrow> sha512d E (serializeForHash a) = sha512d E (serializeForHash b)"
  by (auto simp: computeHash_def dest: toHex_inj)

subsection \<open>Properties\<close>

definition sample_block :: block where
  "sample_block = \<lparr>blk_height = 7, blk_timestamp = -5, blk_difficulty = 3, blk_nonce = 42,
     blk_previousHash = ''ab'', blk_transactions = [''COINBASE|m|50'', ''hello world'']\<rparr>"

lemma sample_block_ok: "block_wire_ok sample_block" "block_hash_ok sample_block"
  by (auto simp: block_wire_ok_def block_hash_ok_def sample_block_def)

text \<open>The line of a single empty transaction is the line of none.\<close>

lemma block_fromLine_one_empty:
  assumes "blk_transactions b = [[]]"
  shows "block_fromLine dm (block_toLine b) \<noteq> Inr b"
proof
  assume r: "block_fromLine dm (block_toLine b) = Inr b"
  let ?none = "b\<lparr>blk_transactions := []\<rparr>"
  have "block_toLine ?none = block_toLine b"
    using assms by (simp add: block_toLine_def header_text_def)
  moreover have "block_fromLine dm (block_toLine ?none) = Inr ?none"
    using block_fromLine_no_bar(1)[OF r] by (intro block_fromLine_fields) simp_all
  ultimately have "?none = b" using r by simp
  with assms show False by (metis (no_types) block.select_convs(6) block.surjective block.update_convs(6) list.distinct(1))
qed

lemma block_line_newline:
  "CHR 0x0A \<notin> set (block_toLine b) \<longleftrightarrow> CHR 0x0A \<notin> set (blk_previousHash b)
    \<and> (\<forall>tx \<in> set (blk_transactions b). CHR 0x0A \<notin> set tx)"
  using set_join_with[of "CHR '',''" "blk_transactions b"] set_join_parts[of _ "blk_transactions b" "CHR '',''"]
  by (auto simp: block_toLine_def header_text_def)

text \<open>
  C32: Round trip of the wire line, and exactly when it fails. A block is read back from its line as
  itself if and only if its previous hash holds no bar, no transaction holds a comma and the
  transactions are not one empty text, for every value of its numeric fields and on both data
  models. Its line is never empty and never the end marker of the chain transfer, and it is one
  line if and only if neither the previous hash nor a transaction holds a newline.
\<close>

theorem block_line_roundtrip:
  "(block_fromLine dm (block_toLine b) = Inr b \<longleftrightarrow>
      CHR ''|'' \<notin> set (blk_previousHash b) \<and> (\<forall>tx \<in> set (blk_transactions b). CHR '','' \<notin> set tx)
      \<and> blk_transactions b \<noteq> [[]])
    \<and> block_toLine b \<noteq> ''END'' \<and> block_toLine b \<noteq> []
    \<and> (CHR 0x0A \<notin> set (block_toLine b) \<longleftrightarrow> CHR 0x0A \<notin> set (blk_previousHash b)
        \<and> (\<forall>tx \<in> set (blk_transactions b). CHR 0x0A \<notin> set tx))"
  using block_fromLine_fields[of b dm] block_fromLine_no_bar[of dm "block_toLine b" b]
    block_fromLine_one_empty[of b dm] block_toLine_not_end[of b] block_line_newline[of b] by blast

text \<open>A block that comes back, and one that \<^verbatim>\<open>add a,b\<close> makes, which does not.\<close>

theorem block_line_roundtrip_witness:
  "block_fromLine LLP64 (block_toLine sample_block) = Inr sample_block
    \<and> block_fromLine LLP64 (block_toLine (sample_block\<lparr>blk_transactions := [''a,b'']\<rparr>))
      \<noteq> Inr (sample_block\<lparr>blk_transactions := [''a,b'']\<rparr>)"
  using block_line_roundtrip[of LLP64 sample_block] block_line_roundtrip[of LLP64 "sample_block\<lparr>blk_transactions := [''a,b'']\<rparr>"]
  by (simp add: sample_block_def)

text \<open>
  Outcomes of decoding. A line with fewer than five bars decodes to the default block and
  never fails; a failure is an exception of a number conversion on a line with at least five
  bars; a decoded block never holds a bar in its previous hash nor a comma in a transaction.
\<close>

lemma block_line_outcomes:
  "case block_fromLine dm line of
     Inl e \<Rightarrow> 5 \<le> count_list line (CHR ''|'') \<and> (e = InvalidArgument \<or> e = OutOfRange)
   | Inr b \<Rightarrow> (if count_list line (CHR ''|'') < 5 then b = block_default
       else CHR ''|'' \<notin> set (blk_previousHash b)
         \<and> (\<forall>tx \<in> set (blk_transactions b). CHR '','' \<notin> set tx))"
  using block_fromLine_short[of line dm]
  by (auto split: sum.split dest: block_fromLine_error block_fromLine_no_bar)

lemma block_line_outcomes_example:
  "block_fromLine LP64 ''not a block'' = Inr block_default"
  using block_line_outcomes[where dm = LP64 and line = "''not a block''"] by (simp split: sum.splits)

text \<open>
  The hashed text commits to the whole block: two blocks whose transactions hold no semicolon
  and whose previous hashes hold no bar have the same text only if they are the same block.
\<close>

lemma serialize_commits:
  assumes "block_hash_ok a" "block_hash_ok b"
  shows "serializeForHash a = serializeForHash b \<longleftrightarrow> a = b"
  using serializeForHash_inj[OF _ assms] by auto

lemma serialize_commits_example:
  "serializeForHash sample_block \<noteq> serializeForHash (sample_block\<lparr>blk_nonce := 43\<rparr>)"
proof -
  have "block_hash_ok (sample_block\<lparr>blk_nonce := 43\<rparr>)"
    using sample_block_ok(2) by (simp add: block_hash_ok_def)
  from serialize_commits[OF sample_block_ok(2) this] show ?thesis by (simp add: sample_block_def)
qed

text \<open>
  Without that restriction it does not: splitting a transaction at a semicolon gives a
  different block with the same text and so, whatever the digest, the same hash.
\<close>

lemma serialize_ambiguous:
  "computeHash E (b\<lparr>blk_transactions := xs @ (s @ CHR '';'' # t) # ys\<rparr>) =
   computeHash E (b\<lparr>blk_transactions := xs @ s # t # ys\<rparr>)"
  by (simp add: computeHash_def serializeForHash_def header_text_def)

end
