(* ===== verification/Keystore.thy ===== *)
theory Keystore
  imports Hash512
begin

text \<open>
  \<^verbatim>\<open>src/wallet/keystore.hpp\<close>: hexadecimal text of byte arrays and back, and the wallet: its
  keys, its address, the file it is saved to, and the create-or-load step of \<^verbatim>\<open>main\<close>. The key
  generation, signature and verification are OpenSSL's.
\<close>

definition kEd25519KeyLen :: nat where "kEd25519KeyLen = 32"
definition kEd25519SigLen :: nat where "kEd25519SigLen = 64"

text \<open>\<^verbatim>\<open>wallet::toHex(data, len)\<close>: the first \<open>len\<close> bytes at \<open>data\<close>.\<close>

definition wallet_toHex :: "bytes \<Rightarrow> nat \<Rightarrow> string" where
  "wallet_toHex data len = concat (map (\<lambda>i. hex_byte (data ! i)) [0..<len])"

text \<open>
  Two characters at a time through \<^verbatim>\<open>std::stoul(.., nullptr, 16)\<close>, narrowed to a byte; an odd
  last character is ignored.
\<close>

fun fromHex :: "data_model \<Rightarrow> string \<Rightarrow> bytes res" where
  "fromHex dm (a # b # r) =
     bind_res (stoul dm 16 [a, b]) (\<lambda>v.
     bind_res (fromHex dm r) (\<lambda>bs. Inr (word_of_nat v # bs)))"
| "fromHex dm _ = Inr []"

record wallet =
  wal_privKey :: bytes
  wal_pubKey :: bytes
  wal_address :: string

text \<open>\<^verbatim>\<open>std::copy\<close> into a fixed array: writing past its end is undefined behaviour.\<close>

definition copy_into :: "bytes \<Rightarrow> bytes \<Rightarrow> bytes res" where
  "copy_into src arr =
     (if length arr < length src then Inl BufferOverflow else Inr (src @ drop (length src) arr))"

definition computeAddress :: "env \<Rightarrow> bytes \<Rightarrow> string" where
  "computeAddress E pub = ''mbc1'' @ wallet_toHex (sha512d E (chars_of_bytes pub)) 20"

text \<open>\<open>key\<close> is the private key that OpenSSL's key generation drew.\<close>

definition wallet_generate :: "env \<Rightarrow> bytes \<Rightarrow> wallet" where
  "wallet_generate E key =
     (let pub = ed25519_public E key
      in \<lparr>wal_privKey = key, wal_pubKey = pub, wal_address = computeAddress E pub\<rparr>)"

definition fromPrivateKeyHex :: "env \<Rightarrow> string \<Rightarrow> wallet res" where
  "fromPrivateKeyHex E privHex =
     bind_res (fromHex (platform E) privHex) (\<lambda>bs.
     bind_res (copy_into bs (replicate kEd25519KeyLen 0)) (\<lambda>key.
       let pub = ed25519_public E key
       in Inr \<lparr>wal_privKey = key, wal_pubKey = pub, wal_address = computeAddress E pub\<rparr>))"

definition wallet_sign :: "env \<Rightarrow> wallet \<Rightarrow> string \<Rightarrow> bytes" where
  "wallet_sign E w message = ed25519_sign E (wal_privKey w) message"

definition wallet_verify :: "env \<Rightarrow> bytes \<Rightarrow> string \<Rightarrow> bytes \<Rightarrow> bool" where
  "wallet_verify E pub message sig = ed25519_verify E pub message sig"

definition publicKeyHex :: "wallet \<Rightarrow> string" where
  "publicKeyHex w = wallet_toHex (wal_pubKey w) (length (wal_pubKey w))"

subsection \<open>The wallet file\<close>

text \<open>The files of the working directory: their text by path.\<close>

type_synonym files = "string \<rightharpoonup> string"

text \<open>\<open>can_write\<close>: whether the file can be opened for writing.\<close>

definition wallet_save :: "bool \<Rightarrow> string \<Rightarrow> wallet \<Rightarrow> files \<Rightarrow> bool \<times> files" where
  "wallet_save can_write path w fs =
     (if \<not> can_write then (False, fs)
      else (True, fs(path \<mapsto> wallet_toHex (wal_privKey w) (length (wal_privKey w)) @ [CHR 0x0A])))"

definition wallet_exists :: "string \<Rightarrow> files \<Rightarrow> bool" where
  "wallet_exists path fs \<longleftrightarrow> fs path \<noteq> None"

text \<open>\<^verbatim>\<open>std::getline\<close>: the text up to the first newline, nothing when the file is missing.\<close>

definition getline_first :: "string option \<Rightarrow> string" where
  "getline_first f = (case f of None \<Rightarrow> [] | Some s \<Rightarrow> takeWhile (\<lambda>c. c \<noteq> CHR 0x0A) s)"

definition wallet_load :: "env \<Rightarrow> string \<Rightarrow> files \<Rightarrow> wallet res" where
  "wallet_load E path fs = fromPrivateKeyHex E (getline_first (fs path))"

text \<open>The create-or-load step of \<^verbatim>\<open>main\<close>, run at every start.\<close>

definition wallet_startup :: "env \<Rightarrow> bytes \<Rightarrow> bool \<Rightarrow> files \<Rightarrow> (wallet \<times> files) res" where
  "wallet_startup E key can_write fs =
     bind_res (if wallet_exists ''wallet.dat'' fs then wallet_load E ''wallet.dat'' fs
               else Inr (wallet_generate E key)) (\<lambda>w.
       if \<not> wallet_exists ''wallet.dat'' fs
       then Inr (w, snd (wallet_save can_write ''wallet.dat'' w fs))
       else Inr (w, fs))"

definition wallet_ok :: "env \<Rightarrow> wallet \<Rightarrow> bool" where
  "wallet_ok E w \<longleftrightarrow> length (wal_privKey w) = 32 \<and> wal_pubKey w = ed25519_public E (wal_privKey w)
     \<and> wal_address w = computeAddress E (wal_pubKey w)"

subsection \<open>Hexadecimal round trip\<close>

lemma wallet_toHex_eq: "len \<le> length data \<Longrightarrow> wallet_toHex data len = toHex (take len data)"
proof (induction len)
  case 0
  then show ?case by (simp add: wallet_toHex_def)
next
  case (Suc n)
  then show ?case by (simp add: wallet_toHex_def take_Suc_conv_app_nth toHex_append)
qed

lemma wallet_toHex_full [simp]: "wallet_toHex data (length data) = toHex data"
  by (simp add: wallet_toHex_eq)

lemma hex_char_plain:
  assumes "c \<in> set hexChars"
  shows "\<not> is_space c" "c \<noteq> CHR ''-''" "c \<noteq> CHR ''+''" "is_digit 16 c"
proof -
  obtain i where i: "i < 16" "c = hexChars ! i"
    using assms by (auto simp: in_set_conv_nth length_hexChars)
  then show d: "is_digit 16 c" by (simp add: hexChars_is_hex)
  from assms show "\<not> is_space c" "c \<noteq> CHR ''-''" "c \<noteq> CHR ''+''"
    by (auto simp: hexChars_def is_space_def)
qed

lemma stoul_hex_byte: "stoul dm 16 (hex_byte b) = Inr (unat b)"
proof -
  let ?h = "hexChars ! unat (drop_bit 4 b)" and ?l = "hexChars ! unat (b AND 0x0F)"
  have h: "?h \<in> set hexChars" and l: "?l \<in> set hexChars"
    using nibble_bounds[of b] by (simp_all add: hexChars_nth_in)
  have "digits_value 16 [?h, ?l] = unat b"
    using nibble_bounds[of b]
    by (simp add: digits_value_def digit_val_hexChars nibble_high nibble_low)
  moreover have "takeWhile (is_digit 16) [?h, ?l] = [?h, ?l]"
    using hex_char_plain(4)[OF h] hex_char_plain(4)[OF l] by simp
  ultimately have "scan_int 16 (hex_byte b) = Some (False, unat b)"
    using hex_char_plain(1-3)[OF h]
    by (simp add: scan_int_def scan_sign_def skip_0x_def hex_byte_def Let_def)
  moreover have "unat b < 2 ^ long_bits dm"
  proof -
    have "unat b < 2 ^ 8" using unsigned_less[where 'a=nat, of b] by simp
    also have "(2::nat) ^ 8 \<le> 2 ^ long_bits dm"
      using long_bits_ge_32[of dm] by (intro power_increasing) linarith+
    finally show ?thesis .
  qed
  ultimately show ?thesis by (simp add: stoul_def strtou_def)
qed

lemma fromHex_byte: "fromHex dm (hex_byte b @ s) = bind_res (fromHex dm s) (\<lambda>bs. Inr (b # bs))"
  using stoul_hex_byte[of dm b] by (simp add: hex_byte_def)

lemma fromHex_toHex [simp, wire_simps]: "fromHex dm (toHex bs) = Inr bs"
  by (induction bs) (simp_all add: fromHex_byte)

lemma fromHex_length: "fromHex dm s = Inr bs \<Longrightarrow> length bs = length s div 2"
  by (induction dm s arbitrary: bs rule: fromHex.induct) (auto simp: bind_res_Inr_iff)

text \<open>
  What \<^verbatim>\<open>std::stoul\<close> makes of two characters in base 16, narrowed to a byte: it skips one white
  space, takes a sign and ignores what follows the digits.
\<close>

definition pair_byte :: "char \<Rightarrow> char \<Rightarrow> 8 word option" where
  "pair_byte a b =
     (case (digit_val 16 a, digit_val 16 b) of
        (Some x, Some y) \<Rightarrow> Some (word_of_nat (16 * x + y))
      | (Some x, None) \<Rightarrow> Some (word_of_nat x)
      | (None, Some y) \<Rightarrow>
          (if a = CHR ''-'' then Some (- word_of_nat y)
           else if a = CHR ''+'' \<or> is_space a then Some (word_of_nat y) else None)
      | (None, None) \<Rightarrow> None)"

lemma digit_val_plain:
  "digit_val 16 c = Some v \<Longrightarrow> \<not> is_space c \<and> c \<noteq> CHR ''-'' \<and> c \<noteq> CHR ''+'' \<and> v < 16"
  by (auto simp: digit_val_def is_space_def Let_def split: if_splits)

lemma long_bits_byte: "(2::nat) ^ 8 dvd 2 ^ long_bits dm" "(v::nat) < 256 \<Longrightarrow> v < 2 ^ long_bits dm"
proof -
  have 8: "8 \<le> long_bits dm" using long_bits_ge_32[of dm] by linarith
  from 8 show "(2::nat) ^ 8 dvd 2 ^ long_bits dm" by (rule le_imp_power_dvd)
  show "v < 2 ^ long_bits dm" if "v < 256" using that power_increasing[OF 8, of "2::nat"] by simp
qed

lemma byte_minus:
  assumes "v < 16"
  shows "word_of_nat ((2 ^ long_bits dm - v) mod 2 ^ long_bits dm) = (- word_of_nat v :: 8 word)"
proof -
  have "v \<le> 2 ^ long_bits dm" using assms long_bits_byte(2)[of v dm] by simp
  moreover have "(word_of_nat (n mod 2 ^ long_bits dm) :: 8 word) = word_of_nat n" for n
    using long_bits_byte(1)[of dm] by (simp add: word_of_nat_eq_iff take_bit_eq_mod mod_mod_cancel)
  moreover have "(word_of_nat (2 ^ long_bits dm) :: 8 word) = 0"
    using long_bits_byte(1)[of dm] by (simp only: word_of_nat_eq_0_iff) simp
  ultimately show ?thesis by (simp add: of_nat_diff)
qed

lemma scan_after:
  assumes "is_space a \<or> a = CHR ''-'' \<or> a = CHR ''+''"
  shows "scan_int 16 [a, b] = map_option (\<lambda>y. (a = CHR ''-'', y)) (digit_val 16 b)"
proof -
  have sign: "\<not> is_space (CHR ''-'')" "\<not> is_space (CHR ''+'')" by (simp_all add: is_space_def)
  show ?thesis
  proof (cases "digit_val 16 b")
    case None
    then show ?thesis
      using assms sign by (cases "is_space a") (auto simp: scan_int_def scan_sign_def skip_0x_def is_digit_def)
  next
    case (Some y)
    note p = digit_val_plain[OF Some]
    show ?thesis
      using assms sign p Some
      by (cases "is_space a") (auto simp: scan_int_def scan_sign_def skip_0x_def is_digit_def digits_value_def)
  qed
qed

lemma stoul_pair:
  "bind_res (stoul dm 16 [a, b]) (\<lambda>v. Inr (word_of_nat v :: 8 word)) =
     (case pair_byte a b of None \<Rightarrow> Inl InvalidArgument | Some v \<Rightarrow> Inr v)"
proof -
  note small = long_bits_byte(2)
  have digit: "is_digit 16 c \<longleftrightarrow> (\<exists>v. digit_val 16 c = Some v)" for c by (auto simp: is_digit_def)
  show ?thesis
  proof (cases "digit_val 16 a")
    case (Some x)
    note p = digit_val_plain[OF Some]
    have "scan_int 16 [a, b] = Some (False, case digit_val 16 b of None \<Rightarrow> x | Some y \<Rightarrow> 16 * x + y)"
      using Some p by (auto simp: scan_int_def scan_sign_def skip_0x_def is_digit_def digits_value_def split: option.splits)
    moreover have "(case digit_val 16 b of None \<Rightarrow> x | Some y \<Rightarrow> 16 * x + y) < 256"
      using p digit_val_plain[of b] by (force split: option.splits)
    ultimately show ?thesis
      using Some small by (auto simp: stoul_def strtou_def pair_byte_def not_le split: option.splits)
  next
    case None
    show ?thesis
    proof (cases "is_space a \<or> a = CHR ''-'' \<or> a = CHR ''+''")
      case True
      then have scan: "scan_int 16 [a, b] = map_option (\<lambda>y. (a = CHR ''-'', y)) (digit_val 16 b)"
        by (rule scan_after)
      show ?thesis
      proof (cases "digit_val 16 b")
        case None
        with scan \<open>digit_val 16 a = None\<close> show ?thesis by (simp add: stoul_def strtou_def pair_byte_def)
      next
        case (Some y)
        then have y: "y < 16" using digit_val_plain by blast
        then have "y < 2 ^ long_bits dm" using small[of y dm] by simp
        then have "stoul dm 16 [a, b] = Inr (if a = CHR ''-'' then (2 ^ long_bits dm - y) mod 2 ^ long_bits dm else y)"
          using scan Some by (simp add: stoul_def strtou_def not_le)
        with Some None True byte_minus[OF y, of dm] show ?thesis
          by (auto simp: pair_byte_def simp del: of_nat_mod)
      qed
    next
      case False
      with None have "scan_int 16 [a, b] = None" by (simp add: scan_int_def scan_sign_def skip_0x_def is_digit_def)
      with False None show ?thesis by (simp add: stoul_def strtou_def pair_byte_def split: option.splits)
    qed
  qed
qed

text \<open>Decoding takes the pairs one by one.\<close>

definition pair_at :: "string \<Rightarrow> nat \<Rightarrow> 8 word option" where
  "pair_at s i = pair_byte (s ! (2 * i)) (s ! (2 * i + 1))"

lemma pair_at_Cons: "pair_at (a # b # r) 0 = pair_byte a b" "pair_at (a # b # r) (Suc i) = pair_at r i"
  by (simp_all add: pair_at_def)

lemma fromHex_pairs:
  "fromHex dm s =
     (if \<exists>i < length s div 2. pair_at s i = None then Inl InvalidArgument
      else Inr (map (\<lambda>i. the (pair_at s i)) [0..<length s div 2]))"
proof (induction dm s rule: fromHex.induct)
  case (1 dm a b r)
  have step: "fromHex dm (a # b # r) = bind_res (case pair_byte a b of None \<Rightarrow> Inl InvalidArgument | Some v \<Rightarrow> Inr v)
      (\<lambda>v. bind_res (fromHex dm r) (\<lambda>bs. Inr (v # bs)))"
    unfolding stoul_pair[of dm a b, symmetric] by (cases "stoul dm 16 [a, b]") simp_all
  have up: "map f [0..<Suc n] = f 0 # map (\<lambda>i. f (Suc i)) [0..<n]" for f :: "nat \<Rightarrow> 8 word" and n
    by (simp add: upt_conv_Cons map_Suc_upt[symmetric] del: upt_Suc)
  have ex: "(\<exists>i < Suc n. P i) \<longleftrightarrow> P 0 \<or> (\<exists>i < n. P (Suc i))" for P and n :: nat
    by (metis Suc_less_eq less_Suc_eq_0_disj zero_less_Suc)
  have len: "length (a # b # r) div 2 = Suc (length r div 2)" by simp
  from 1 show ?case
    unfolding step len up ex pair_at_Cons by (cases "pair_byte a b") simp_all
qed simp_all

text \<open>Two characters never overflow: text that is not hexadecimal is an invalid argument.\<close>

lemma fromHex_error: "fromHex dm s = Inl e \<Longrightarrow> e = InvalidArgument"
proof (induction dm s rule: fromHex.induct)
  case (1 dm a b r)
  have "(16::nat) ^ length [a, b] \<le> 2 ^ long_bits dm"
    using power_increasing[of 8 "long_bits dm" "2::nat"] long_bits_ge_32[of dm] by simp
  with 1 show ?case
    by (auto simp: bind_res_Inl_iff stoul_def dest!: strtou_short)
qed simp_all

subsection \<open>Addresses and wallets\<close>

lemma computeAddress_eq:
  "openssl_ok E \<Longrightarrow>
   computeAddress E pub = ''mbc1'' @ toHex (take 20 (sha512d E (chars_of_bytes pub)))"
  by (simp add: computeAddress_def wallet_toHex_eq sha512d_length)

lemma computeAddress_length: "openssl_ok E \<Longrightarrow> length (computeAddress E pub) = 44"
  by (simp add: computeAddress_eq sha512d_length)

lemma computeAddress_separators [simp]:
  assumes "openssl_ok E"
  shows "CHR ''|'' \<notin> set (computeAddress E pub)" "CHR '','' \<notin> set (computeAddress E pub)"
    "CHR '';'' \<notin> set (computeAddress E pub)" "CHR 0x0A \<notin> set (computeAddress E pub)" "computeAddress E pub \<noteq> []"
  using assms by (simp_all add: computeAddress_eq)

lemma wallet_generate_ok: "length key = 32 \<Longrightarrow> wallet_ok E (wallet_generate E key)"
  by (simp add: wallet_ok_def wallet_generate_def Let_def)

lemma fromPrivateKeyHex_ok:
  assumes "fromPrivateKeyHex E h = Inr w"
  shows "wallet_ok E w"
  using assms
  by (auto simp: fromPrivateKeyHex_def copy_into_def wallet_ok_def kEd25519KeyLen_def Let_def
      bind_res_Inr_iff split: if_splits)

lemma fromPrivateKeyHex_toHex:
  assumes "wallet_ok E w"
  shows "fromPrivateKeyHex E (toHex (wal_privKey w)) = Inr w"
  using assms
  by (cases w) (simp add: fromPrivateKeyHex_def copy_into_def wallet_ok_def kEd25519KeyLen_def Let_def)

lemma getline_toHex: "getline_first (Some (toHex bs @ [CHR 0x0A])) = toHex bs"
proof -
  have "\<forall>c \<in> set (toHex bs). c \<noteq> CHR 0x0A"
    using toHex_separators(4)[of bs] by metis
  then show ?thesis by (simp add: getline_first_def takeWhile_append2)
qed

lemma wallet_load_save:
  assumes "wallet_ok E w"
  shows "wallet_load E path (snd (wallet_save True path w fs)) = Inr w"
  using assms by (simp add: wallet_load_def wallet_save_def getline_toHex fromPrivateKeyHex_toHex)

text \<open>
  Text of more than 32 bytes overruns the key array; the load step has no check for it.
\<close>

lemma fromPrivateKeyHex_overflow:
  "length bs > 32 \<Longrightarrow> fromPrivateKeyHex E (toHex bs) = Inl BufferOverflow"
  by (simp add: fromPrivateKeyHex_def copy_into_def kEd25519KeyLen_def)

subsection \<open>Properties\<close>

definition sample_key :: bytes where
  "sample_key = replicate 31 7 @ [9]"

definition sample_wallet :: wallet where
  "sample_wallet = wallet_generate sample_env sample_key"

lemma sample_wallet_ok: "wallet_ok sample_env sample_wallet"
  unfolding sample_wallet_def by (rule wallet_generate_ok) (simp add: sample_key_def)

text \<open>
  Hexadecimal text round trip. The two decoders and encoders agree: the text of any bytes has
  two characters a byte and is read back as those bytes on both data models.
\<close>

lemma hex_roundtrip:
  "fromHex dm (wallet_toHex bs (length bs)) = Inr bs
   \<and> length (wallet_toHex bs (length bs)) = 2 * length bs"
  by simp

text \<open>
  Restarting keeps the wallet. When the first start of a node finds no wallet file and can
  write one, every later start loads the wallet that the first one generated, whatever key
  the generator would draw and whether or not the directory is writable, and changes no file.
\<close>

lemma startup_idempotent:
  assumes "length key = 32" "fs ''wallet.dat'' = None"
    and "wallet_startup E key True fs = Inr (w, fs')"
  shows "wallet_startup E key' can_write fs' = Inr (w, fs') \<and> wallet_ok E w"
proof -
  from assms(2,3) have w: "w = wallet_generate E key"
    and fs': "fs' = snd (wallet_save True ''wallet.dat'' w fs)"
    by (auto simp: wallet_startup_def wallet_exists_def)
  from w assms(1) have ok: "wallet_ok E w" by (simp add: wallet_generate_ok)
  have "wallet_exists ''wallet.dat'' fs'" by (simp add: fs' wallet_exists_def wallet_save_def)
  with wallet_load_save[OF ok, of "''wallet.dat''" fs] ok show ?thesis
    by (simp add: wallet_startup_def fs')
qed

lemma startup_idempotent_example:
  "\<exists>fs'. wallet_startup sample_env sample_key True Map.empty = Inr (sample_wallet, fs')
     \<and> wallet_startup sample_env [1] False fs' = Inr (sample_wallet, fs')"
proof -
  obtain fs' where 1: "wallet_startup sample_env sample_key True Map.empty = Inr (sample_wallet, fs')"
    by (auto simp: wallet_startup_def wallet_exists_def sample_wallet_def)
  from startup_idempotent[OF _ _ 1] have "wallet_startup sample_env [1] False fs' = Inr (sample_wallet, fs')"
    by (simp add: sample_key_def)
  with 1 show ?thesis by blast
qed

text \<open>
  C40: Loading a wallet file, on every file. The first line is read in pairs of characters, an odd last
  one ignored. If \<^verbatim>\<open>stoul\<close> finds no number in some pair, loading throws \<^verbatim>\<open>invalid_argument\<close>; otherwise
  a line of more than 65 characters makes it write past the end of the key array; otherwise the
  private key is the bytes of the pairs, padded with zeros to 32 (all zeros for a missing or empty
  file), and the public key and the address are those of that private key.
\<close>

theorem wallet_load_outcomes:
  "wallet_load E path fs =
     (let line = getline_first (fs path);
          key = map (\<lambda>i. if i < length line div 2 then the (pair_at line i) else 0) [0..<32];
          pub = ed25519_public E key
      in if \<exists>i < length line div 2. pair_at line i = None then Inl InvalidArgument
         else if 65 < length line then Inl BufferOverflow
         else Inr \<lparr>wal_privKey = key, wal_pubKey = pub, wal_address = computeAddress E pub\<rparr>)"
proof -
  let ?line = "getline_first (fs path)"
  let ?n = "length ?line div 2"
  show ?thesis
  proof (cases "\<exists>i < ?n. pair_at ?line i = None")
    case True
    then show ?thesis by (simp add: wallet_load_def fromPrivateKeyHex_def fromHex_pairs Let_def)
  next
    case False
    have pad: "map (\<lambda>i. the (pair_at ?line i)) [0..<?n] @ drop ?n (replicate 32 0)
        = map (\<lambda>i. if i < ?n then the (pair_at ?line i) else 0) [0..<32]" if "?n \<le> 32"
      using that by (intro nth_equalityI) (auto simp: nth_append)
    have long: "32 < ?n \<longleftrightarrow> 65 < length ?line" by presburger
    have hex: "fromHex (platform E) ?line = Inr (map (\<lambda>i. the (pair_at ?line i)) [0..<?n])"
      unfolding fromHex_pairs using False by (rule if_not_P)
    show ?thesis
      using pad long
      unfolding wallet_load_def fromPrivateKeyHex_def hex copy_into_def kEd25519KeyLen_def Let_def if_not_P[OF False]
      by (cases "32 < ?n") (simp_all del: drop_replicate)
  qed
qed

theorem wallet_load_outcomes_witness:
  "(\<exists>w. wallet_load sample_env ''w'' [''w'' \<mapsto> ''07fF'' @ [CHR 0x0A]] = Inr w \<and> wal_privKey w = [7, 255] @ replicate 30 0)
    \<and> wallet_load sample_env ''w'' [''w'' \<mapsto> ''07 x''] = Inl InvalidArgument
    \<and> wallet_load sample_env ''w'' [''w'' \<mapsto> replicate 66 (CHR ''0'')] = Inl BufferOverflow"
proof (intro conjI)
  have line: "getline_first (Some (''07fF'' @ [CHR 0x0A])) = ''07fF''" by (simp add: getline_first_def)
  have pairs: "pair_at ''07fF'' 0 = Some 7" "pair_at ''07fF'' 1 = Some 255"
    by (simp_all add: pair_at_def pair_byte_def digit_val_def Let_def)
  then have none: "\<not> (\<exists>i < 2. pair_at ''07fF'' i = None)" by (auto simp: less_2_cases_iff)
  have n: "length ''07fF'' div 2 = 2" "\<not> 65 < length ''07fF''" by simp_all
  have "wal_privKey w = map (\<lambda>i. if i < 2 then the (pair_at ''07fF'' i) else 0) [0..<32]"
    if "wallet_load sample_env ''w'' [''w'' \<mapsto> ''07fF'' @ [CHR 0x0A]] = Inr w" for w
    using that unfolding wallet_load_outcomes Let_def fun_upd_same line n if_not_P[OF none] if_not_P[OF n(2)] by auto
  moreover have "\<exists>w. wallet_load sample_env ''w'' [''w'' \<mapsto> ''07fF'' @ [CHR 0x0A]] = Inr w"
    unfolding wallet_load_outcomes Let_def fun_upd_same line n if_not_P[OF none] if_not_P[OF n(2)] by blast
  moreover have "map (\<lambda>i. if i < 2 then the (pair_at ''07fF'' i) else 0) [0..<32] = [7, 255] @ replicate 30 0"
    using pairs by (intro nth_equalityI) (auto simp: nth_append nth_Cons' less_2_cases_iff le_Suc_eq)
  ultimately show "\<exists>w. wallet_load sample_env ''w'' [''w'' \<mapsto> ''07fF'' @ [CHR 0x0A]] = Inr w \<and> wal_privKey w = [7, 255] @ replicate 30 0"
    by metis
next
  have "getline_first (Some ''07 x'') = ''07 x''" by (simp add: getline_first_def)
  moreover have "pair_at ''07 x'' 1 = None" by (simp add: pair_at_def pair_byte_def digit_val_def Let_def)
  then have bad: "\<exists>i < length ''07 x'' div 2. pair_at ''07 x'' i = None" by (intro exI[of _ 1]) simp
  ultimately show "wallet_load sample_env ''w'' [''w'' \<mapsto> ''07 x''] = Inl InvalidArgument"
    by (simp only: wallet_load_outcomes Let_def fun_upd_same if_P[OF bad] if_True)
next
  let ?long = "replicate 66 (CHR ''0'')"
  have "getline_first (Some ?long) = ?long" by (simp add: getline_first_def)
  moreover have "pair_at ?long i = Some 0" if "i < 33" for i
    using that by (simp add: pair_at_def pair_byte_def digit_val_def Let_def)
  then have ok: "\<not> (\<exists>i < length ?long div 2. pair_at ?long i = None)" by auto
  moreover have "65 < length ?long" by simp
  ultimately show "wallet_load sample_env ''w'' [''w'' \<mapsto> ?long] = Inl BufferOverflow"
    by (simp only: wallet_load_outcomes Let_def fun_upd_same if_not_P[OF ok] if_True if_False)
qed

end
