(* ===== verification/Transaction.thy ===== *)
theory Transaction
  imports Keystore
begin

text \<open>
  \<^verbatim>\<open>src/wallet/transaction.hpp\<close>: the signed transaction, the text that is signed, and the wire
  line, interpreted as a line codec on the transactions whose texts hold no bar.
\<close>

record transaction =
  tx_type :: string
  tx_sender :: string
  tx_receiver :: string
  tx_amount :: u64
  tx_nonce :: u64
  tx_timestamp :: i64
  tx_senderPubKeyHex :: string
  tx_signatureHex :: string

definition tx_default :: transaction where
  "tx_default = \<lparr>tx_type = ''TRANSFER'', tx_sender = [], tx_receiver = [], tx_amount = 0,
     tx_nonce = 0, tx_timestamp = 0, tx_senderPubKeyHex = [], tx_signatureHex = []\<rparr>"

definition signingPayload :: "transaction \<Rightarrow> string" where
  "signingPayload tx =
     tx_type tx @ CHR ''|'' # tx_sender tx @ CHR ''|'' # tx_receiver tx @ CHR ''|'' #
     show_u64 (tx_amount tx) @ CHR ''|'' # show_u64 (tx_nonce tx) @ CHR ''|'' #
     show_i64 (tx_timestamp tx)"

definition createSigned :: "env \<Rightarrow> wallet \<Rightarrow> string \<Rightarrow> u64 \<Rightarrow> u64 \<Rightarrow> i64 \<Rightarrow> transaction" where
  "createSigned E from_w toAddress amount nonce now =
     (let tx = tx_default\<lparr>tx_type := ''TRANSFER'', tx_sender := wal_address from_w,
                tx_receiver := toAddress, tx_amount := amount, tx_nonce := nonce,
                tx_timestamp := now, tx_senderPubKeyHex := publicKeyHex from_w\<rparr>;
          sig = wallet_sign E from_w (signingPayload tx)
      in tx\<lparr>tx_signatureHex := wallet_toHex sig (length sig)\<rparr>)"

definition createUsernameRegistration ::
  "env \<Rightarrow> wallet \<Rightarrow> string \<Rightarrow> u64 \<Rightarrow> i64 \<Rightarrow> transaction" where
  "createUsernameRegistration E from_w username nonce now =
     (let tx = tx_default\<lparr>tx_type := ''REGISTER_USERNAME'', tx_sender := wal_address from_w,
                tx_receiver := username, tx_amount := 0, tx_nonce := nonce,
                tx_timestamp := now, tx_senderPubKeyHex := publicKeyHex from_w\<rparr>;
          sig = wallet_sign E from_w (signingPayload tx)
      in tx\<lparr>tx_signatureHex := wallet_toHex sig (length sig)\<rparr>)"

definition tx_verify :: "env \<Rightarrow> transaction \<Rightarrow> bool res" where
  "tx_verify E tx =
     bind_res (fromHex (platform E) (tx_senderPubKeyHex tx)) (\<lambda>pubBytes.
     bind_res (fromHex (platform E) (tx_signatureHex tx)) (\<lambda>sigBytes.
       if length pubBytes \<noteq> kEd25519KeyLen \<or> length sigBytes \<noteq> kEd25519SigLen then Inr False
       else Inr (wallet_verify E pubBytes (signingPayload tx) sigBytes)))"

definition tx_toLine :: "transaction \<Rightarrow> string" where
  "tx_toLine tx =
     tx_type tx @ CHR ''|'' # tx_sender tx @ CHR ''|'' # tx_receiver tx @ CHR ''|'' #
     show_u64 (tx_amount tx) @ CHR ''|'' # show_u64 (tx_nonce tx) @ CHR ''|'' #
     show_i64 (tx_timestamp tx) @ CHR ''|'' # tx_senderPubKeyHex tx @ CHR ''|'' #
     tx_signatureHex tx"

definition tx_fromLine :: "string \<Rightarrow> transaction res" where
  "tx_fromLine line =
     (let f = split_on (CHR ''|'') [] line
      in if length f < 8 then Inr tx_default
         else
           bind_res (stoull (f ! 3)) (\<lambda>amount.
           bind_res (stoull (f ! 4)) (\<lambda>nonce.
           bind_res (stoll (f ! 5)) (\<lambda>timestamp.
             Inr \<lparr>tx_type = f ! 0, tx_sender = f ! 1, tx_receiver = f ! 2, tx_amount = amount,
                  tx_nonce = nonce, tx_timestamp = timestamp, tx_senderPubKeyHex = f ! 6,
                  tx_signatureHex = f ! 7\<rparr>))))"

subsection \<open>The wire line\<close>

definition bar_free :: "transaction \<Rightarrow> bool" where
  "bar_free tx \<longleftrightarrow> CHR ''|'' \<notin> set (tx_type tx) \<and> CHR ''|'' \<notin> set (tx_sender tx)
     \<and> CHR ''|'' \<notin> set (tx_receiver tx) \<and> CHR ''|'' \<notin> set (tx_senderPubKeyHex tx)
     \<and> CHR ''|'' \<notin> set (tx_signatureHex tx)"

definition newline_free :: "transaction \<Rightarrow> bool" where
  "newline_free tx \<longleftrightarrow> CHR 0x0A \<notin> set (tx_type tx) \<and> CHR 0x0A \<notin> set (tx_sender tx)
     \<and> CHR 0x0A \<notin> set (tx_receiver tx) \<and> CHR 0x0A \<notin> set (tx_senderPubKeyHex tx)
     \<and> CHR 0x0A \<notin> set (tx_signatureHex tx)"

definition tx_wire_ok :: "transaction \<Rightarrow> bool" where
  "tx_wire_ok tx \<longleftrightarrow> bar_free tx \<and> newline_free tx"

lemma tx_fromLine_toLine: "bar_free tx \<Longrightarrow> tx_fromLine (tx_toLine tx) = Inr tx"
  by (simp add: tx_fromLine_def tx_toLine_def bar_free_def eval_nat_numeral)

interpretation txc: codec tx_toLine tx_fromLine bar_free
  by unfold_locales (rule tx_fromLine_toLine)

interpretation txl: line_codec tx_toLine tx_fromLine tx_wire_ok
proof unfold_locales
  fix tx assume ok: "tx_wire_ok tx"
  then show "tx_fromLine (tx_toLine tx) = Inr tx"
    by (simp add: tx_wire_ok_def tx_fromLine_toLine)
  from ok show "CHR 0x0A \<notin> set (tx_toLine tx)"
    by (auto simp: tx_wire_ok_def newline_free_def tx_toLine_def)
  have "CHR ''|'' \<in> set (tx_toLine tx)" by (simp add: tx_toLine_def)
  moreover have "CHR ''|'' \<notin> set ''END''" by simp
  ultimately show "tx_toLine tx \<noteq> ''END''" by metis
  show "tx_toLine tx \<noteq> []" by (simp add: tx_toLine_def)
qed

text \<open>A transaction read from a line has no bar in its texts: its line reads back as itself.\<close>

lemma tx_fromLine_bar_free: "tx_fromLine line = Inr tx \<Longrightarrow> bar_free tx"
proof -
  assume *: "tx_fromLine line = Inr tx"
  let ?f = "split_on (CHR ''|'') [] line"
  have part: "CHR ''|'' \<notin> set (?f ! i)" if "i < length ?f" for i
    using split_on_parts[of "CHR ''|''" "[]" "?f ! i" line] that by simp
  show "bar_free tx"
  proof (cases "length ?f < 8")
    case True
    with * have "tx = tx_default" by (simp add: tx_fromLine_def)
    then show ?thesis by (simp add: bar_free_def tx_default_def)
  next
    case False
    with * show ?thesis
      by (auto simp: tx_fromLine_def bar_free_def part bind_res_Inr_iff Let_def)
  qed
qed

lemma tx_fromLine_error:
  "tx_fromLine line = Inl e \<Longrightarrow> e = InvalidArgument \<or> e = OutOfRange"
  by (auto simp: tx_fromLine_def bind_res_Inl_iff stoull_def stoll_def strtou_def strtos_def Let_def
      split: if_splits option.splits)

lemma tx_fromLine_short:
  "length (split_on (CHR ''|'') [] line) < 8 \<Longrightarrow> tx_fromLine line = Inr tx_default"
  by (simp add: tx_fromLine_def Let_def)

subsection \<open>Signatures\<close>

lemma tx_verify_hex:
  assumes "tx_senderPubKeyHex tx = toHex pub" "tx_signatureHex tx = toHex sig"
    "length pub = 32" "length sig = 64"
  shows "tx_verify E tx = Inr (ed25519_verify E pub (signingPayload tx) sig)"
  using assms
  by (simp add: tx_verify_def kEd25519KeyLen_def kEd25519SigLen_def wallet_verify_def)

lemma signingPayload_sig [simp]:
  "signingPayload (tx\<lparr>tx_signatureHex := s\<rparr>) = signingPayload tx"
  "signingPayload (tx\<lparr>tx_senderPubKeyHex := s\<rparr>) = signingPayload tx"
  by (simp_all add: signingPayload_def)

text \<open>
  Signing any transaction text with a wallet and attaching that wallet's public key makes
  it verify: the sender's address plays no part.
\<close>

definition sign_with :: "env \<Rightarrow> wallet \<Rightarrow> transaction \<Rightarrow> transaction" where
  "sign_with E w tx = tx\<lparr>tx_senderPubKeyHex := toHex (wal_pubKey w),
     tx_signatureHex := toHex (wallet_sign E w (signingPayload tx))\<rparr>"

lemma sign_with_fields [simp]:
  "tx_type (sign_with E w tx) = tx_type tx" "tx_sender (sign_with E w tx) = tx_sender tx"
  "tx_receiver (sign_with E w tx) = tx_receiver tx" "tx_amount (sign_with E w tx) = tx_amount tx"
  "tx_nonce (sign_with E w tx) = tx_nonce tx"
  by (simp_all add: sign_with_def)

lemma sign_with_verifies:
  assumes "openssl_ok E" "wallet_ok E w"
  shows "tx_verify E (sign_with E w tx) = Inr True"
proof -
  have "tx_verify E (sign_with E w tx) =
    Inr (ed25519_verify E (wal_pubKey w) (signingPayload (sign_with E w tx))
          (wallet_sign E w (signingPayload tx)))"
    using assms by (intro tx_verify_hex) (simp_all add: sign_with_def wallet_ok_def wallet_sign_def openssl_okD)
  with assms show ?thesis
    by (simp add: sign_with_def wallet_sign_def wallet_ok_def openssl_okD)
qed

lemma createSigned_eq:
  "createSigned E w to amount nonce now =
     sign_with E w (tx_default\<lparr>tx_type := ''TRANSFER'', tx_sender := wal_address w,
       tx_receiver := to, tx_amount := amount, tx_nonce := nonce, tx_timestamp := now\<rparr>)"
  by (simp add: createSigned_def sign_with_def publicKeyHex_def Let_def signingPayload_def tx_default_def)

lemma createUsernameRegistration_eq:
  "createUsernameRegistration E w username nonce now =
     sign_with E w (tx_default\<lparr>tx_type := ''REGISTER_USERNAME'', tx_sender := wal_address w,
       tx_receiver := username, tx_nonce := nonce, tx_timestamp := now\<rparr>)"
  by (simp add: createUsernameRegistration_def sign_with_def publicKeyHex_def Let_def
      signingPayload_def tx_default_def)

lemma createSigned_verifies:
  "openssl_ok E \<Longrightarrow> wallet_ok E w \<Longrightarrow> tx_verify E (createSigned E w to amount nonce now) = Inr True"
  by (simp add: createSigned_eq sign_with_verifies)

lemma createUsernameRegistration_verifies:
  "openssl_ok E \<Longrightarrow> wallet_ok E w \<Longrightarrow>
   tx_verify E (createUsernameRegistration E w username nonce now) = Inr True"
  by (simp add: createUsernameRegistration_eq sign_with_verifies)

lemma sign_with_bar_free:
  "bar_free (sign_with E w tx) \<longleftrightarrow>
     CHR ''|'' \<notin> set (tx_type tx) \<and> CHR ''|'' \<notin> set (tx_sender tx) \<and> CHR ''|'' \<notin> set (tx_receiver tx)"
  by (simp add: bar_free_def sign_with_def)

text \<open>The signed text determines every signed field, when no field holds a bar.\<close>

lemma signingPayload_inj:
  assumes "signingPayload a = signingPayload b" "bar_free a" "bar_free b"
  shows "tx_type a = tx_type b" "tx_sender a = tx_sender b" "tx_receiver a = tx_receiver b"
    "tx_amount a = tx_amount b" "tx_nonce a = tx_nonce b" "tx_timestamp a = tx_timestamp b"
proof -
  have "split_on (CHR ''|'') [] (signingPayload a) = split_on (CHR ''|'') [] (signingPayload b)"
    using assms(1) by simp
  then show "tx_type a = tx_type b" "tx_sender a = tx_sender b" "tx_receiver a = tx_receiver b"
    "tx_amount a = tx_amount b" "tx_nonce a = tx_nonce b" "tx_timestamp a = tx_timestamp b"
    using assms(2,3)
    by (auto simp: signingPayload_def bar_free_def dest: show_u64_inj show_i64_inj)
qed

text \<open>A line with fewer than eight fields becomes a transaction that never verifies.\<close>

lemma tx_default_verify: "tx_verify E tx_default = Inr False"
  by (simp add: tx_verify_def tx_default_def kEd25519KeyLen_def)

subsection \<open>Properties\<close>

definition sample_tx :: transaction where
  "sample_tx = createSigned sample_env sample_wallet ''bob'' 30 0 1700000000"

lemma sample_tx_ok: "bar_free sample_tx" "newline_free sample_tx"
  using sample_wallet_ok
  by (simp_all add: sample_tx_def createSigned_eq bar_free_def tx_default_def
      newline_free_def sign_with_def wallet_ok_def sample_env_ok)

text \<open>
  Round trip of the transaction line. A transaction whose texts hold neither bar nor newline is
  read back from its line as itself, and the line is a single non-empty line; a transaction
  read from any line holds no bar, so that writing and reading it again changes nothing.
\<close>

lemma tx_line_roundtrip:
  assumes "tx_wire_ok tx"
  shows "tx_fromLine (tx_toLine tx) = Inr tx \<and> CHR 0x0A \<notin> set (tx_toLine tx)"
  using txl.dec_enc[OF assms] txl.enc_no_newline[OF assms] by simp

lemma tx_line_roundtrip_example: "tx_fromLine (tx_toLine sample_tx) = Inr sample_tx"
  using tx_line_roundtrip[of sample_tx] sample_tx_ok by (simp add: tx_wire_ok_def)

lemma tx_line_reread:
  assumes "tx_fromLine line = Inr tx"
  shows "tx_fromLine (tx_toLine tx) = Inr tx"
  using assms by (intro txc.dec_enc tx_fromLine_bar_free)

text \<open>
  C33: Wallets sign what peers verify. A transfer and a user name registration that a well-formed wallet
  creates carry the wallet's address as the sender and verify, whatever the receiver, the amount,
  the nonce and the time. A peer reads the very same transaction from its line, and so verifies
  it too, if and only if the receiver holds no bar.
\<close>

theorem created_tx_verifies:
  assumes "openssl_ok E" "wallet_ok E w"
    and "tx \<in> {createSigned E w receiver amount nonce now, createUsernameRegistration E w receiver nonce now}"
  shows "tx_sender tx = wal_address w \<and> tx_verify E tx = Inr True
    \<and> (tx_fromLine (tx_toLine tx) = Inr tx \<longleftrightarrow> CHR ''|'' \<notin> set receiver)"
proof -
  have c: "tx_verify E tx = Inr True" "tx_sender tx = wal_address w" "tx_receiver tx = receiver"
    using assms createSigned_verifies createUsernameRegistration_verifies
    by (auto simp: createSigned_eq createUsernameRegistration_eq sign_with_def)
  have "bar_free tx" if "CHR ''|'' \<notin> set receiver"
    using assms that by (auto simp: createSigned_eq createUsernameRegistration_eq sign_with_bar_free wallet_ok_def)
  then have "tx_fromLine (tx_toLine tx) = Inr tx" if "CHR ''|'' \<notin> set receiver" using that by (simp add: txc.dec_enc)
  moreover have "CHR ''|'' \<notin> set receiver" if "tx_fromLine (tx_toLine tx) = Inr tx"
    using tx_fromLine_bar_free[OF that] c(3) by (simp add: bar_free_def)
  ultimately show ?thesis using c by blast
qed

theorem created_tx_verifies_witness:
  "tx_verify sample_env sample_tx = Inr True \<and> tx_fromLine (tx_toLine sample_tx) = Inr sample_tx
    \<and> tx_fromLine (tx_toLine (createSigned sample_env sample_wallet ''a|b'' 30 0 5)) \<noteq>
        Inr (createSigned sample_env sample_wallet ''a|b'' 30 0 5)"
  using created_tx_verifies[OF sample_env_ok sample_wallet_ok, of sample_tx "''bob''" 30 0 1700000000]
    created_tx_verifies[OF sample_env_ok sample_wallet_ok, of "createSigned sample_env sample_wallet ''a|b'' 30 0 5" "''a|b''" 30 0 5]
  by (simp add: sample_tx_def)

text \<open>
  The signature covers every field. Two transactions without bars that sign the same text agree
  in type, sender, receiver, amount, nonce and timestamp.
\<close>

lemma payload_commits:
  assumes "bar_free a" "bar_free b" "signingPayload a = signingPayload b"
  shows "a\<lparr>tx_senderPubKeyHex := [], tx_signatureHex := []\<rparr> =
    b\<lparr>tx_senderPubKeyHex := [], tx_signatureHex := []\<rparr>"
  using signingPayload_inj[OF assms(3,1,2)] by simp

lemma payload_commits_example:
  "signingPayload sample_tx \<noteq> signingPayload (sample_tx\<lparr>tx_amount := 31\<rparr>)"
proof
  assume "signingPayload sample_tx = signingPayload (sample_tx\<lparr>tx_amount := 31\<rparr>)"
  from payload_commits[OF _ _ this] sample_tx_ok(1) have
    "sample_tx\<lparr>tx_senderPubKeyHex := [], tx_signatureHex := []\<rparr> =
     sample_tx\<lparr>tx_amount := 31, tx_senderPubKeyHex := [], tx_signatureHex := []\<rparr>"
    by (simp add: bar_free_def)
  then show False by (simp add: sample_tx_def createSigned_eq sign_with_def tx_default_def)
qed

end
