(* ===== verification/State_Store.thy ===== *)
theory State_Store
  imports Block Transaction
begin

text \<open>
  \<^verbatim>\<open>src/state/account.hpp\<close>: accounts with balances, nonces and user names, and the replay of
  blocks on them. The two hash maps are maps from keys to values; a reference into a map is
  its key. An exception leaves \<^verbatim>\<open>applyBlock\<close> as an error value: no caller catches it, so the
  process ends and no state after it matters.
\<close>

record account =
  acc_address :: string
  acc_balance :: u64
  acc_nonce :: u64
  acc_username :: string

record state_store =
  st_accounts :: "string \<rightharpoonup> account"
  st_usernames :: "string \<rightharpoonup> string"

definition state_empty :: state_store where
  "state_empty = \<lparr>st_accounts = Map.empty, st_usernames = Map.empty\<rparr>"

subsection \<open>The operations\<close>

definition getBalance :: "state_store \<Rightarrow> string \<Rightarrow> u64" where
  "getBalance st addr = (case st_accounts st addr of None \<Rightarrow> 0 | Some a \<Rightarrow> acc_balance a)"

definition getNonce :: "state_store \<Rightarrow> string \<Rightarrow> u64" where
  "getNonce st addr = (case st_accounts st addr of None \<Rightarrow> 0 | Some a \<Rightarrow> acc_nonce a)"

definition resolveUsername :: "state_store \<Rightarrow> string \<Rightarrow> string option" where
  "resolveUsername st name = st_usernames st name"

definition usernameOf :: "state_store \<Rightarrow> string \<Rightarrow> string" where
  "usernameOf st addr = (case st_accounts st addr of None \<Rightarrow> [] | Some a \<Rightarrow> acc_username a)"

definition account_new :: "string \<Rightarrow> account" where
  "account_new addr = \<lparr>acc_address = addr, acc_balance = 0, acc_nonce = 0, acc_username = []\<rparr>"

text \<open>The account found or created, and the state that holds it.\<close>

definition getOrCreateLocked :: "string \<Rightarrow> state_store \<Rightarrow> account \<times> state_store" where
  "getOrCreateLocked addr st =
     (case st_accounts st addr of
        Some a \<Rightarrow> (a, st)
      | None \<Rightarrow>
          (let a = account_new addr
           in (a, st\<lparr>st_accounts := (st_accounts st)(addr \<mapsto> a)\<rparr>)))"

text \<open>A write through the reference to the account at \<open>addr\<close>.\<close>

definition put_account :: "string \<Rightarrow> account \<Rightarrow> state_store \<Rightarrow> state_store" where
  "put_account addr a st = st\<lparr>st_accounts := (st_accounts st)(addr \<mapsto> a)\<rparr>"

definition credit :: "string \<Rightarrow> u64 \<Rightarrow> state_store \<Rightarrow> state_store" where
  "credit addr amount st =
     (case getOrCreateLocked addr st of (a, st') \<Rightarrow>
        put_account addr (a\<lparr>acc_balance := acc_balance a + amount\<rparr>) st')"

definition applyCoinbaseLocked :: "string \<Rightarrow> state_store \<Rightarrow> state_store res" where
  "applyCoinbaseLocked line st =
     (case find_char line (CHR ''|'') 0 of
        None \<Rightarrow> Inr st
      | Some p1 \<Rightarrow>
          (case find_char line (CHR ''|'') (p1 + 1) of
             None \<Rightarrow> Inr st
           | Some p2 \<Rightarrow>
               (let addr = substr line (p1 + 1) (p2 - p1 - 1)
                in bind_res (stoull (substr_from line (p2 + 1))) (\<lambda>amount.
                     Inr (credit addr amount st)))))"

definition applyTxLocked :: "env \<Rightarrow> transaction \<Rightarrow> state_store \<Rightarrow> state_store res" where
  "applyTxLocked E tx st =
     (if tx_sender tx = [] then Inr st
      else bind_res (tx_verify E tx) (\<lambda>ok.
        if \<not> ok then Inr st
        else
          (case getOrCreateLocked (tx_sender tx) st of (sender, st1) \<Rightarrow>
             if tx_nonce tx \<noteq> acc_nonce sender then Inr st1
             else if tx_type tx = ''REGISTER_USERNAME'' then
               (let username = tx_receiver tx
                in if username = [] \<or> st_usernames st1 username \<noteq> None then Inr st1
                   else
                     (let sender' = sender\<lparr>acc_username := username\<rparr>;
                          st2 = put_account (tx_sender tx) sender' st1;
                          st3 = st2\<lparr>st_usernames := (st_usernames st2)(username \<mapsto> acc_address sender')\<rparr>
                      in Inr (put_account (tx_sender tx) (sender'\<lparr>acc_nonce := acc_nonce sender' + 1\<rparr>) st3)))
             else if acc_balance sender < tx_amount tx then Inr st1
             else
               (let st2 = put_account (tx_sender tx)
                      (sender\<lparr>acc_balance := acc_balance sender - tx_amount tx,
                              acc_nonce := acc_nonce sender + 1\<rparr>) st1
                in Inr (credit (tx_receiver tx) (tx_amount tx) st2)))))"

definition applyLine :: "env \<Rightarrow> string \<Rightarrow> state_store \<Rightarrow> state_store res" where
  "applyLine E line st =
     (if starts_with line ''COINBASE|'' then applyCoinbaseLocked line st
      else if find_char line (CHR ''|'') 0 \<noteq> None
      then bind_res (tx_fromLine line) (\<lambda>tx. applyTxLocked E tx st)
      else Inr st)"

definition applyBlock :: "env \<Rightarrow> block \<Rightarrow> state_store \<Rightarrow> state_store res" where
  "applyBlock E b st = fold_res (applyLine E) (blk_transactions b) st"

definition rebuildFromBlocks :: "env \<Rightarrow> block list \<Rightarrow> state_store \<Rightarrow> state_store res" where
  "rebuildFromBlocks E blocks st =
     fold_res (applyBlock E) blocks (st\<lparr>st_accounts := Map.empty, st_usernames := Map.empty\<rparr>)"

subsection \<open>Accounts after a write\<close>

lemma getOrCreate_lookup [simp]:
  "st_accounts (snd (getOrCreateLocked addr st)) =
     (st_accounts st)(addr \<mapsto> fst (getOrCreateLocked addr st))"
  by (auto simp: getOrCreateLocked_def Let_def split: option.splits)

lemma getOrCreate_usernames [simp]:
  "st_usernames (snd (getOrCreateLocked addr st)) = st_usernames st"
  by (simp add: getOrCreateLocked_def Let_def split: option.splits)

lemma getOrCreate_fst [simp]:
  "acc_balance (fst (getOrCreateLocked addr st)) = getBalance st addr"
  "acc_nonce (fst (getOrCreateLocked addr st)) = getNonce st addr"
  "acc_username (fst (getOrCreateLocked addr st)) = usernameOf st addr"
  by (simp_all add: getOrCreateLocked_def getBalance_def getNonce_def usernameOf_def
      account_new_def Let_def split: option.splits)

lemma getOrCreate_view [simp]:
  "getBalance (snd (getOrCreateLocked addr st)) = getBalance st"
  "getNonce (snd (getOrCreateLocked addr st)) = getNonce st"
  "usernameOf (snd (getOrCreateLocked addr st)) = usernameOf st"
  by (auto simp: getOrCreateLocked_def getBalance_def getNonce_def usernameOf_def
      account_new_def Let_def fun_eq_iff split: option.splits)

lemma put_account_view [simp]:
  "getBalance (put_account addr a st) = (getBalance st)(addr := acc_balance a)"
  "getNonce (put_account addr a st) = (getNonce st)(addr := acc_nonce a)"
  "usernameOf (put_account addr a st) = (usernameOf st)(addr := acc_username a)"
  "st_usernames (put_account addr a st) = st_usernames st"
  by (auto simp: put_account_def getBalance_def getNonce_def usernameOf_def fun_eq_iff)

lemma usernames_update_view [simp]:
  "getBalance (st\<lparr>st_usernames := u\<rparr>) = getBalance st"
  "getNonce (st\<lparr>st_usernames := u\<rparr>) = getNonce st"
  "usernameOf (st\<lparr>st_usernames := u\<rparr>) = usernameOf st"
  by (auto simp: getBalance_def getNonce_def usernameOf_def fun_eq_iff)

lemma credit_view [simp]:
  "getBalance (credit addr amount st) = (getBalance st)(addr := getBalance st addr + amount)"
  "getNonce (credit addr amount st) = getNonce st"
  "usernameOf (credit addr amount st) = usernameOf st"
  "st_usernames (credit addr amount st) = st_usernames st"
  by (auto simp: credit_def fun_eq_iff split: prod.split)
     (metis fst_conv snd_conv getOrCreate_fst getOrCreate_view getOrCreate_usernames)+

lemmas view_simps = getOrCreate_view put_account_view usernames_update_view credit_view
  getOrCreate_usernames

text \<open>What the queries can see of a state.\<close>

definition same_view :: "state_store \<Rightarrow> state_store \<Rightarrow> bool" where
  "same_view st st' \<longleftrightarrow> getBalance st' = getBalance st \<and> getNonce st' = getNonce st
     \<and> usernameOf st' = usernameOf st \<and> st_usernames st' = st_usernames st"

lemma same_view_refl [simp]: "same_view st st"
  by (simp add: same_view_def)

lemma same_view_getOrCreate [simp]: "same_view st (snd (getOrCreateLocked addr st))"
  by (simp add: same_view_def)

subsection \<open>What a transaction does\<close>

definition is_registration :: "transaction \<Rightarrow> bool" where
  "is_registration tx \<longleftrightarrow> tx_type tx = ''REGISTER_USERNAME''"

text \<open>The reference condition under which a transaction has an effect.\<close>

definition tx_executes :: "env \<Rightarrow> transaction \<Rightarrow> state_store \<Rightarrow> bool" where
  "tx_executes E tx st \<longleftrightarrow>
     tx_sender tx \<noteq> [] \<and> tx_verify E tx = Inr True \<and> tx_nonce tx = getNonce st (tx_sender tx)
     \<and> (if is_registration tx
        then tx_receiver tx \<noteq> [] \<and> st_usernames st (tx_receiver tx) = None
        else tx_amount tx \<le> getBalance st (tx_sender tx))"

lemma applyTx_error:
  "tx_sender tx \<noteq> [] \<Longrightarrow> tx_verify E tx = Inl e \<Longrightarrow> applyTxLocked E tx st = Inl e"
  by (simp add: applyTxLocked_def)

lemma applyTx_Inl_iff:
  "applyTxLocked E tx st = Inl e \<longleftrightarrow> tx_sender tx \<noteq> [] \<and> tx_verify E tx = Inl e"
  by (auto simp: applyTxLocked_def bind_res_Inl_iff Let_def split: prod.splits if_splits)

lemma applyTx_cases:
  assumes "applyTxLocked E tx st = Inr st'"
  obtains
    (skip) "\<not> tx_executes E tx st" "st' = st \<or> st' = snd (getOrCreateLocked (tx_sender tx) st)"
  | (register) "tx_executes E tx st" "is_registration tx"
      "st' = (let (a, st1) = getOrCreateLocked (tx_sender tx) st;
                  a' = a\<lparr>acc_username := tx_receiver tx\<rparr>;
                  st2 = put_account (tx_sender tx) a' st1
              in put_account (tx_sender tx) (a'\<lparr>acc_nonce := acc_nonce a' + 1\<rparr>)
                   (st2\<lparr>st_usernames := (st_usernames st2)(tx_receiver tx \<mapsto> acc_address a')\<rparr>))"
  | (transfer) "tx_executes E tx st" "\<not> is_registration tx"
      "st' = (let (a, st1) = getOrCreateLocked (tx_sender tx) st
              in credit (tx_receiver tx) (tx_amount tx)
                   (put_account (tx_sender tx)
                      (a\<lparr>acc_balance := acc_balance a - tx_amount tx,
                         acc_nonce := acc_nonce a + 1\<rparr>) st1))"
proof -
  obtain a st1 where g: "getOrCreateLocked (tx_sender tx) st = (a, st1)"
    by (cases "getOrCreateLocked (tx_sender tx) st")
  have a: "acc_balance a = getBalance st (tx_sender tx)" "acc_nonce a = getNonce st (tx_sender tx)"
    "st_usernames st1 = st_usernames st"
    using getOrCreate_fst(1,2)[of "tx_sender tx" st] getOrCreate_usernames[of "tx_sender tx" st]
    by (simp_all add: g)
  consider "tx_sender tx = []" | ok where "tx_sender tx \<noteq> []" "tx_verify E tx = Inr ok"
    using assms by (auto simp: applyTxLocked_def bind_res_Inr_iff split: if_splits)
  then show thesis
  proof cases
    case 1
    with assms show thesis by (intro skip) (auto simp: applyTxLocked_def tx_executes_def)
  next
    case (2 ok)
    show thesis
    proof (cases "tx_executes E tx st")
      case False
      with 2 assms a g show thesis
        by (intro skip)
          (auto simp: applyTxLocked_def tx_executes_def is_registration_def Let_def split: if_splits)
    next
      case True
      show thesis
      proof (cases "is_registration tx")
        case reg: True
        with True 2 assms a g show thesis
          by (intro register) (auto simp: applyTxLocked_def tx_executes_def is_registration_def Let_def)
      next
        case tr: False
        with True 2 assms a g show thesis
          by (intro transfer)
            (auto simp: applyTxLocked_def tx_executes_def is_registration_def Let_def dest!: leD)
      qed
    qed
  qed
qed

lemma applyTx_returns:
  "tx_verify E tx = Inr ok \<Longrightarrow> \<exists>st'. applyTxLocked E tx st = Inr st'"
  using applyTx_Inl_iff[of E tx st] by (cases "applyTxLocked E tx st") auto

text \<open>A transaction that does not execute changes nothing a query can see.\<close>

lemma applyTx_skip:
  assumes "applyTxLocked E tx st = Inr st'" "\<not> tx_executes E tx st"
  shows "same_view st st'"
  using assms(1) by (cases rule: applyTx_cases) (use assms(2) in auto)

lemma applyTx_transfer:
  assumes "applyTxLocked E tx st = Inr st'" "tx_executes E tx st" "\<not> is_registration tx"
  shows "getBalance st' =
      (let debited = (getBalance st)(tx_sender tx := getBalance st (tx_sender tx) - tx_amount tx)
       in debited(tx_receiver tx := debited (tx_receiver tx) + tx_amount tx))"
    and "getNonce st' = (getNonce st)(tx_sender tx := getNonce st (tx_sender tx) + 1)"
    and "usernameOf st' = usernameOf st" "st_usernames st' = st_usernames st"
proof -
  let ?g = "getOrCreateLocked (tx_sender tx) st"
  have "st' = credit (tx_receiver tx) (tx_amount tx)
      (put_account (tx_sender tx) ((fst ?g)\<lparr>acc_balance := acc_balance (fst ?g) - tx_amount tx,
         acc_nonce := acc_nonce (fst ?g) + 1\<rparr>) (snd ?g))"
    using assms(1) by (cases rule: applyTx_cases) (use assms in \<open>simp_all add: Let_def case_prod_beta\<close>)
  then show "getBalance st' =
      (let debited = (getBalance st)(tx_sender tx := getBalance st (tx_sender tx) - tx_amount tx)
       in debited(tx_receiver tx := debited (tx_receiver tx) + tx_amount tx))"
    "getNonce st' = (getNonce st)(tx_sender tx := getNonce st (tx_sender tx) + 1)"
    "usernameOf st' = usernameOf st" "st_usernames st' = st_usernames st"
    by (simp_all add: Let_def)
qed

lemma applyTx_register:
  assumes "applyTxLocked E tx st = Inr st'" "tx_executes E tx st" "is_registration tx"
  shows "getBalance st' = getBalance st"
    and "getNonce st' = (getNonce st)(tx_sender tx := getNonce st (tx_sender tx) + 1)"
    and "usernameOf st' = (usernameOf st)(tx_sender tx := tx_receiver tx)"
    and "st_usernames st' =
      (st_usernames st)(tx_receiver tx \<mapsto> acc_address (fst (getOrCreateLocked (tx_sender tx) st)))"
proof -
  let ?g = "getOrCreateLocked (tx_sender tx) st"
  let ?a = "(fst ?g)\<lparr>acc_username := tx_receiver tx\<rparr>"
  let ?st2 = "put_account (tx_sender tx) ?a (snd ?g)"
  have "st' = put_account (tx_sender tx) (?a\<lparr>acc_nonce := acc_nonce ?a + 1\<rparr>)
      (?st2\<lparr>st_usernames := (st_usernames ?st2)(tx_receiver tx \<mapsto> acc_address ?a)\<rparr>)"
    using assms(1) by (cases rule: applyTx_cases) (use assms in \<open>simp_all add: Let_def case_prod_beta\<close>)
  then show "getBalance st' = getBalance st"
    "getNonce st' = (getNonce st)(tx_sender tx := getNonce st (tx_sender tx) + 1)"
    "usernameOf st' = (usernameOf st)(tx_sender tx := tx_receiver tx)"
    "st_usernames st' =
      (st_usernames st)(tx_receiver tx \<mapsto> acc_address (fst (getOrCreateLocked (tx_sender tx) st)))"
    by (auto simp: fun_eq_iff)
qed

text \<open>The nonce advances exactly when the transaction executes, so it executes once.\<close>

lemma applyTx_nonce:
  assumes "applyTxLocked E tx st = Inr st'"
  shows "getNonce st' =
    (if tx_executes E tx st then (getNonce st)(tx_sender tx := getNonce st (tx_sender tx) + 1)
     else getNonce st)"
  using applyTx_skip[OF assms] applyTx_transfer(2)[OF assms] applyTx_register(2)[OF assms]
  by (auto simp: same_view_def)

lemma applyTx_no_replay:
  assumes "applyTxLocked E tx st = Inr st'" "tx_executes E tx st"
  shows "\<not> tx_executes E tx st'"
  using applyTx_nonce[OF assms(1)] assms(2) by (auto simp: tx_executes_def)

end
