(* ===== verification/State_Laws.thy ===== *)
theory State_Laws
  imports State_Store
begin

text \<open>
  The laws of the state store of \<^verbatim>\<open>src/state/account.hpp\<close>: the invariant between the two maps,
  the total of all balances, the permanence of user names, the effect of coinbase lines, and
  the replay of blocks.
\<close>

subsection \<open>The invariant between accounts and user names\<close>

definition state_inv :: "state_store \<Rightarrow> bool" where
  "state_inv st \<longleftrightarrow>
     finite (dom (st_accounts st))
     \<and> (\<forall>addr a. st_accounts st addr = Some a \<longrightarrow> acc_address a = addr)
     \<and> (\<forall>name addr. st_usernames st name = Some addr \<longrightarrow>
          name \<noteq> [] \<and> addr \<in> dom (st_accounts st))
     \<and> (\<forall>addr. usernameOf st addr \<noteq> [] \<longrightarrow>
          st_usernames st (usernameOf st addr) = Some addr)"

lemma state_inv_empty [simp]: "state_inv state_empty"
  by (simp add: state_inv_def state_empty_def usernameOf_def)

lemma getOrCreate_address:
  "state_inv st \<Longrightarrow> acc_address (fst (getOrCreateLocked addr st)) = addr"
  by (auto simp: state_inv_def getOrCreateLocked_def account_new_def Let_def split: option.splits)

lemma dom_getOrCreate [simp]:
  "dom (st_accounts (snd (getOrCreateLocked addr st))) = insert addr (dom (st_accounts st))"
  by simp

lemma dom_put_account [simp]:
  "dom (st_accounts (put_account addr a st)) = insert addr (dom (st_accounts st))"
  by (simp add: put_account_def)

lemma credit_eq:
  "credit addr amount st =
     put_account addr
       ((fst (getOrCreateLocked addr st))\<lparr>acc_balance := getBalance st addr + amount\<rparr>)
       (snd (getOrCreateLocked addr st))"
  by (simp add: credit_def case_prod_beta)

lemma dom_credit [simp]:
  "dom (st_accounts (credit addr amount st)) = insert addr (dom (st_accounts st))"
  by (simp add: credit_eq put_account_def)

lemma state_inv_put:
  assumes "state_inv st" "acc_address a = addr" "acc_username a = usernameOf st addr"
  shows "state_inv (put_account addr a st)"
  using assms by (auto simp: state_inv_def put_account_def usernameOf_def)

lemma state_inv_getOrCreate:
  assumes "state_inv st"
  shows "state_inv (snd (getOrCreateLocked addr st))"
  using assms getOrCreate_address[OF assms, of addr]
  unfolding state_inv_def getOrCreate_view getOrCreate_usernames dom_getOrCreate
  by auto

lemma state_inv_credit: "state_inv st \<Longrightarrow> state_inv (credit addr amount st)"
  unfolding credit_eq
  by (rule state_inv_put) (simp_all add: state_inv_getOrCreate getOrCreate_address)

lemma state_inv_register:
  assumes "state_inv st" "name \<noteq> []" "st_usernames st name = None"
    "acc_address a = addr" "acc_username a = name"
  shows "state_inv ((put_account addr a st)\<lparr>st_usernames := (st_usernames st)(name \<mapsto> addr)\<rparr>)"
proof -
  have "usernameOf st x \<noteq> name" if "usernameOf st x \<noteq> []" for x
    using assms(1,3) that by (auto simp: state_inv_def)
  then have "\<forall>x. ((usernameOf st)(addr := name)) x \<noteq> [] \<longrightarrow>
      ((st_usernames st)(name \<mapsto> addr)) (((usernameOf st)(addr := name)) x) = Some x"
    using assms(1) by (auto simp: state_inv_def)
  moreover have "\<forall>x y. st_accounts (put_account addr a st) x = Some y \<longrightarrow> acc_address y = x"
    using assms(1,4) by (auto simp: state_inv_def put_account_def)
  ultimately show ?thesis
    using assms by (auto simp: state_inv_def)
qed

lemma applyTx_inv:
  assumes "applyTxLocked E tx st = Inr st'" "state_inv st"
  shows "state_inv st'"
  using assms(1)
proof (cases rule: applyTx_cases)
  case skip
  with assms(2) show ?thesis by (auto intro: state_inv_getOrCreate)
next
  case register
  let ?s = "tx_sender tx" and ?g = "getOrCreateLocked (tx_sender tx) st"
  let ?a = "(fst ?g)\<lparr>acc_username := tx_receiver tx\<rparr>"
  let ?st3 = "(put_account ?s ?a (snd ?g))\<lparr>st_usernames := (st_usernames st)(tx_receiver tx \<mapsto> ?s)\<rparr>"
  have adr: "acc_address (fst ?g) = ?s" by (rule getOrCreate_address) (rule assms(2))
  have "state_inv ?st3"
    using state_inv_register[OF state_inv_getOrCreate[OF assms(2), of ?s], of "tx_receiver tx" ?a ?s]
      register(1,2) adr by (simp add: tx_executes_def)
  then have "state_inv (put_account ?s (?a\<lparr>acc_nonce := acc_nonce ?a + 1\<rparr>) ?st3)"
    by (rule state_inv_put) (simp_all add: adr)
  with register(3) adr show ?thesis by (simp add: Let_def case_prod_beta)
next
  case transfer
  let ?g = "getOrCreateLocked (tx_sender tx) st"
  have "state_inv (put_account (tx_sender tx)
      ((fst ?g)\<lparr>acc_balance := acc_balance (fst ?g) - tx_amount tx,
        acc_nonce := acc_nonce (fst ?g) + 1\<rparr>) (snd ?g))"
    using assms(2)
    by (intro state_inv_put state_inv_getOrCreate) (simp_all add: getOrCreate_address)
  with transfer(3) show ?thesis by (simp add: Let_def case_prod_beta state_inv_credit)
qed

subsection \<open>Coinbase lines\<close>

definition coinbase_line :: "string \<Rightarrow> u64 \<Rightarrow> string" where
  "coinbase_line addr amount = ''COINBASE|'' @ addr @ CHR ''|'' # show_u64 amount"

lemma find_char_coinbase_line:
  "CHR ''|'' \<notin> set addr \<Longrightarrow>
   find_char (coinbase_line addr amount) (CHR ''|'') 9 = Some (9 + length addr)"
  by (simp add: find_char_def coinbase_line_def find_char_at_append)

lemma drop_coinbase_line [simp]: "drop (10 + length addr) (coinbase_line addr amount) = show_u64 amount"
proof -
  let ?p = "''COINBASE|'' @ addr @ [CHR ''|'']"
  have "coinbase_line addr amount = ?p @ show_u64 amount" by (simp add: coinbase_line_def)
  moreover have "length ?p = 10 + length addr" by simp
  ultimately show ?thesis by (metis append_eq_conv_conj)
qed

lemma starts_with_coinbase_line [simp]: "starts_with (coinbase_line addr amount) ''COINBASE|''"
  unfolding coinbase_line_def by (rule starts_with_append)

text \<open>The amount is the number at the start of whatever follows the second bar.\<close>

lemma applyCoinbase_text:
  assumes "CHR ''|'' \<notin> set addr"
  shows "applyCoinbaseLocked (''COINBASE|'' @ addr @ CHR ''|'' # t) st
    = bind_res (stoull t) (\<lambda>amount. Inr (credit addr amount st))"
proof -
  let ?l = "''COINBASE|'' @ addr @ CHR ''|'' # t"
  have p1: "find_char ?l (CHR ''|'') 0 = Some 8"
    using find_char_0_append[of "CHR ''|''" "''COINBASE''"] by simp
  have p2: "find_char ?l (CHR ''|'') 9 = Some (9 + length addr)"
    using assms by (simp add: find_char_def find_char_at_append)
  have "?l = (''COINBASE|'' @ addr @ [CHR ''|'']) @ t" "length (''COINBASE|'' @ addr @ [CHR ''|'']) = 10 + length addr"
    by simp_all
  then have "drop (10 + length addr) ?l = t" by (metis append_eq_conv_conj)
  moreover have "take (length addr) (drop 9 ?l) = addr" by simp
  ultimately show ?thesis
    using p1 p2 by (simp add: applyCoinbaseLocked_def substr_def substr_from_def)
qed

lemma applyCoinbase_line:
  "CHR ''|'' \<notin> set addr \<Longrightarrow> applyCoinbaseLocked (coinbase_line addr amount) st = Inr (credit addr amount st)"
  using applyCoinbase_text[of addr "show_u64 amount" st] by (simp add: coinbase_line_def)

text \<open>The amount a transaction line mints: zero unless it is a coinbase line with a number.\<close>

definition minted :: "string \<Rightarrow> u64" where
  "minted line =
     (if starts_with line ''COINBASE|'' then
        (case find_char line (CHR ''|'') 9 of
           None \<Rightarrow> 0
         | Some p2 \<Rightarrow> (case stoull (substr_from line (p2 + 1)) of Inl e \<Rightarrow> 0 | Inr n \<Rightarrow> n))
      else 0)"

lemma find_char_coinbase:
  assumes "starts_with line ''COINBASE|''"
  shows "find_char line (CHR ''|'') 0 = Some 8"
proof -
  from assms obtain r where "line = ''COINBASE|'' @ r" by (auto simp: starts_with_iff)
  then have "line = ''COINBASE'' @ CHR ''|'' # r" by simp
  then show ?thesis using find_char_0_append[of "CHR ''|''" "''COINBASE''" r] by simp
qed

lemma applyCoinbase_cases:
  assumes "applyCoinbaseLocked line st = Inr st'" "starts_with line ''COINBASE|''"
  obtains "st' = st" "minted line = 0" | addr where "st' = credit addr (minted line) st"
  using assms(1)
  by (auto simp: applyCoinbaseLocked_def find_char_coinbase[OF assms(2)] minted_def assms(2)
      bind_res_Inr_iff Let_def split: option.splits)

lemma minted_coinbase_line [simp]:
  assumes "CHR ''|'' \<notin> set addr"
  shows "minted (coinbase_line addr amount) = amount"
proof -
  have "find_char (coinbase_line addr amount) (CHR ''|'') 9 = Some (9 + length addr)"
    using assms by (rule find_char_coinbase_line)
  then show ?thesis
    by (simp add: minted_def substr_from_def)
qed

lemma applyCoinbase_inv:
  assumes "applyCoinbaseLocked line st = Inr st'" "state_inv st"
  shows "state_inv st'"
  using assms
  by (auto simp: applyCoinbaseLocked_def bind_res_Inr_iff Let_def state_inv_credit split: option.splits)

lemma applyLine_inv: "applyLine E line st = Inr st' \<Longrightarrow> state_inv st \<Longrightarrow> state_inv st'"
  by (auto simp: applyLine_def bind_res_Inr_iff applyTx_inv applyCoinbase_inv split: if_splits)

lemma applyBlock_inv:
  assumes "applyBlock E b st = Inr st'" "state_inv st"
  shows "state_inv st'"
  using assms fold_res_invariant[where P = state_inv] unfolding applyBlock_def
  by (metis applyLine_inv)

lemma rebuild_inv:
  assumes "rebuildFromBlocks E bs st = Inr st'"
  shows "state_inv st'"
proof -
  have "state_inv (st\<lparr>st_accounts := Map.empty, st_usernames := Map.empty\<rparr>)"
    by (simp add: state_inv_def usernameOf_def)
  with assms show ?thesis
    unfolding rebuildFromBlocks_def
    using fold_res_invariant[where P = state_inv] by (metis applyBlock_inv)
qed

subsection \<open>The total of all balances\<close>

definition total_supply :: "state_store \<Rightarrow> nat" where
  "total_supply st = (\<Sum>addr \<in> dom (st_accounts st). unat (getBalance st addr))"

lemma getBalance_outside: "addr \<notin> dom (st_accounts st) \<Longrightarrow> getBalance st addr = 0"
  by (auto simp: getBalance_def split: option.splits)

lemma total_superset:
  assumes "finite A" "dom (st_accounts st) \<subseteq> A"
  shows "total_supply st = (\<Sum>addr \<in> A. unat (getBalance st addr))"
  unfolding total_supply_def
  using assms by (intro sum.mono_neutral_left) (auto simp: getBalance_outside)

lemma balance_le_total:
  assumes "state_inv st"
  shows "unat (getBalance st addr) \<le> total_supply st"
proof (cases "addr \<in> dom (st_accounts st)")
  case True
  with assms show ?thesis
    unfolding total_supply_def by (intro member_le_sum) (auto simp: state_inv_def)
qed (simp add: getBalance_outside)

lemma total_same_balance:
  assumes "state_inv st" "state_inv st'" "getBalance st' = getBalance st"
  shows "total_supply st' = total_supply st"
proof -
  let ?A = "dom (st_accounts st) \<union> dom (st_accounts st')"
  have "finite ?A" using assms(1,2) by (simp add: state_inv_def)
  then show ?thesis using assms(3) by (simp add: total_superset[of ?A])
qed

text \<open>Setting one balance moves the total by the difference.\<close>

lemma total_update:
  assumes "state_inv st" "state_inv st'" "getBalance st' = (getBalance st)(addr := v)"
  shows "total_supply st' + unat (getBalance st addr) = total_supply st + unat v"
proof -
  let ?A = "insert addr (dom (st_accounts st) \<union> dom (st_accounts st'))"
  have fin: "finite ?A" using assms(1,2) by (simp add: state_inv_def)
  have "total_supply st' = unat v + (\<Sum>x \<in> ?A - {addr}. unat (getBalance st x))"
    using fin assms(3) by (subst total_superset[of ?A]) (auto simp: sum.remove[of _ addr])
  moreover have "total_supply st = unat (getBalance st addr) + (\<Sum>x \<in> ?A - {addr}. unat (getBalance st x))"
    using fin by (subst total_superset[of ?A]) (auto simp: sum.remove[of _ addr])
  ultimately show ?thesis by simp
qed

lemma total_credit:
  assumes "state_inv st" "total_supply st + unat amount < 2 ^ 64"
  shows "total_supply (credit addr amount st) = total_supply st + unat amount"
proof -
  have "unat (getBalance st addr) + unat amount < 2 ^ 64"
    using balance_le_total[OF assms(1), of addr] assms(2) by linarith
  then have "unat (getBalance st addr + amount) = unat (getBalance st addr) + unat amount"
    by (simp add: unat_word_ariths)
  with total_update[OF assms(1) state_inv_credit[OF assms(1)], of addr amount addr
      "getBalance st addr + amount"]
  show ?thesis by simp
qed

lemma applyTx_total:
  assumes "applyTxLocked E tx st = Inr st'" "state_inv st" "total_supply st < 2 ^ 64"
  shows "total_supply st' = total_supply st"
  using assms(1)
proof (cases rule: applyTx_cases)
  case skip
  with assms show ?thesis
    by (intro total_same_balance applyTx_inv[OF assms(1,2)]) auto
next
  case register
  with applyTx_register(1)[OF assms(1)] assms(2) show ?thesis
    by (intro total_same_balance applyTx_inv[OF assms(1,2)])
next
  case transfer
  let ?s = "tx_sender tx" and ?g = "getOrCreateLocked (tx_sender tx) st"
  let ?a = "(fst ?g)\<lparr>acc_balance := acc_balance (fst ?g) - tx_amount tx,
        acc_nonce := acc_nonce (fst ?g) + 1\<rparr>"
  let ?st2 = "put_account ?s ?a (snd ?g)"
  have le: "tx_amount tx \<le> getBalance st ?s"
    using transfer(1,2) by (simp add: tx_executes_def)
  have inv2: "state_inv ?st2"
    using assms(2) by (intro state_inv_put state_inv_getOrCreate) (simp_all add: getOrCreate_address)
  have "getBalance ?st2 = (getBalance st)(?s := getBalance st ?s - tx_amount tx)" by simp
  then have "total_supply ?st2 + unat (getBalance st ?s) = total_supply st + unat (getBalance st ?s - tx_amount tx)"
    by (rule total_update[OF assms(2) inv2])
  moreover have "unat (getBalance st ?s - tx_amount tx) = unat (getBalance st ?s) - unat (tx_amount tx)"
    using le by (rule unat_sub)
  moreover have "unat (tx_amount tx) \<le> unat (getBalance st ?s)"
    using le by (simp add: word_le_nat_alt)
  ultimately have two: "total_supply ?st2 + unat (tx_amount tx) = total_supply st" by linarith
  have "st' = credit (tx_receiver tx) (tx_amount tx) ?st2"
    using transfer(3) by (simp add: Let_def case_prod_beta)
  with total_credit[OF inv2, of "tx_amount tx"] two assms(3) show ?thesis by simp
qed

lemma applyLine_total:
  assumes "applyLine E line st = Inr st'" "state_inv st" "total_supply st + unat (minted line) < 2 ^ 64"
  shows "total_supply st' = total_supply st + unat (minted line)"
proof (cases "starts_with line ''COINBASE|''")
  case True
  with assms(1) have "applyCoinbaseLocked line st = Inr st'" by (simp add: applyLine_def)
  then show ?thesis
    using True by (rule applyCoinbase_cases) (use assms(2,3) in \<open>auto simp: total_credit\<close>)
next
  case False
  then have "minted line = 0" by (simp add: minted_def)
  with False assms show ?thesis
    by (auto simp: applyLine_def bind_res_Inr_iff applyTx_total split: if_splits)
qed

definition minted_lines :: "string list \<Rightarrow> nat" where
  "minted_lines ls = sum_list (map (\<lambda>l. unat (minted l)) ls)"

lemma applyLines_total:
  assumes "fold_res (applyLine E) ls st = Inr st'" "state_inv st"
    "total_supply st + minted_lines ls < 2 ^ 64"
  shows "total_supply st' = total_supply st + minted_lines ls"
  using assms
proof (induction ls arbitrary: st)
  case Nil
  then show ?case by (simp add: minted_lines_def)
next
  case (Cons l ls)
  then obtain st1 where st1: "applyLine E l st = Inr st1" "fold_res (applyLine E) ls st1 = Inr st'"
    by (auto simp: bind_res_Inr_iff)
  from Cons.prems(3) have "total_supply st + unat (minted l) < 2 ^ 64" by (simp add: minted_lines_def)
  with st1(1) Cons.prems(2) have t: "total_supply st1 = total_supply st + unat (minted l)"
    by (rule applyLine_total)
  moreover have "total_supply st' = total_supply st1 + minted_lines ls"
    using st1 Cons.prems(2,3) t
    by (intro Cons.IH) (auto simp: minted_lines_def dest: applyLine_inv)
  ultimately show ?case by (simp add: minted_lines_def)
qed

lemma applyBlock_total:
  "applyBlock E b st = Inr st' \<Longrightarrow> state_inv st \<Longrightarrow>
   total_supply st + minted_lines (blk_transactions b) < 2 ^ 64 \<Longrightarrow>
   total_supply st' = total_supply st + minted_lines (blk_transactions b)"
  unfolding applyBlock_def by (rule applyLines_total)

lemma total_empty [simp]: "total_supply state_empty = 0"
  by (simp add: total_supply_def state_empty_def)

subsection \<open>Replaying blocks\<close>

lemma rebuild_start [simp]:
  "st\<lparr>st_accounts := Map.empty, st_usernames := Map.empty\<rparr> = state_empty"
  by (cases st) (simp add: state_empty_def)

lemma rebuild_eq: "rebuildFromBlocks E bs st = fold_res (applyBlock E) bs state_empty"
  by (simp add: rebuildFromBlocks_def)

lemma fold_blocks_eq:
  "fold_res (applyBlock E) bs st = fold_res (applyLine E) (concat (map blk_transactions bs)) st"
  by (induction bs arbitrary: st)
    (auto simp: fold_res_append applyBlock_def bind_res_def split: sum.splits)

lemma rebuild_snoc:
  "rebuildFromBlocks E (bs @ [b]) st = bind_res (rebuildFromBlocks E bs st) (applyBlock E b)"
  by (simp add: rebuild_eq fold_res_append bind_res_def split: sum.splits)

lemma rebuild_total:
  assumes "rebuildFromBlocks E bs st = Inr st'"
    and "minted_lines (concat (map blk_transactions bs)) < 2 ^ 64"
  shows "total_supply st' = minted_lines (concat (map blk_transactions bs))"
  using assms applyLines_total[of E "concat (map blk_transactions bs)" state_empty st']
  by (simp add: rebuild_eq fold_blocks_eq)

subsection \<open>User names\<close>

lemma applyTx_usernames:
  assumes "applyTxLocked E tx st = Inr st'" "state_inv st"
  shows "st_usernames st' =
    (if tx_executes E tx st \<and> is_registration tx
     then (st_usernames st)(tx_receiver tx \<mapsto> tx_sender tx) else st_usernames st)"
  using applyTx_skip[OF assms(1)] applyTx_transfer(4)[OF assms(1)] applyTx_register(4)[OF assms(1)]
    getOrCreate_address[OF assms(2)]
  by (auto simp: same_view_def)

lemma applyCoinbase_usernames:
  "applyCoinbaseLocked line st = Inr st' \<Longrightarrow> st_usernames st' = st_usernames st"
  by (auto simp: applyCoinbaseLocked_def bind_res_Inr_iff Let_def split: option.splits)

text \<open>A registered name keeps its owner, whatever is applied later.\<close>

lemma applyLine_username_kept:
  assumes "applyLine E line st = Inr st'" "state_inv st" "st_usernames st name = Some addr"
  shows "st_usernames st' name = Some addr"
  using assms
  by (auto simp: applyLine_def bind_res_Inr_iff applyCoinbase_usernames applyTx_usernames
      tx_executes_def split: if_splits)

lemma applyBlock_username_kept:
  assumes "applyBlock E b st = Inr st'" "state_inv st" "st_usernames st name = Some addr"
  shows "st_usernames st' name = Some addr"
  using fold_res_invariant[where P = "\<lambda>s. state_inv s \<and> st_usernames s name = Some addr",
      OF assms(1)[unfolded applyBlock_def]] assms(2,3) applyLine_inv applyLine_username_kept
  by metis

subsection \<open>Properties\<close>

definition sample_state :: state_store where
  "sample_state = credit (wal_address sample_wallet) 50 state_empty"

lemma sample_state_inv: "state_inv sample_state"
  unfolding sample_state_def by (rule state_inv_credit) (rule state_inv_empty)

lemma state_empty_view [simp]:
  "getBalance state_empty a = 0" "getNonce state_empty a = 0" "usernameOf state_empty a = []"
  "st_usernames state_empty = Map.empty"
  by (simp_all add: state_empty_def getBalance_def getNonce_def usernameOf_def)

lemma sample_address: "wal_address sample_wallet \<noteq> []" "wal_address sample_wallet \<noteq> ''bob''"
proof -
  have a: "wal_address sample_wallet = computeAddress sample_env (wal_pubKey sample_wallet)"
    using sample_wallet_ok by (simp add: wallet_ok_def)
  show "wal_address sample_wallet \<noteq> []" by (simp add: a sample_env_ok)
  have "length (wal_address sample_wallet) \<noteq> length ''bob''"
    unfolding a computeAddress_length[OF sample_env_ok] by simp
  then show "wal_address sample_wallet \<noteq> ''bob''" by metis
qed

lemma sample_tx_executes: "tx_executes sample_env sample_tx sample_state"
  using sample_address createSigned_verifies[OF sample_env_ok sample_wallet_ok]
  by (simp add: tx_executes_def sample_tx_def is_registration_def sample_state_def)
     (simp add: createSigned_eq tx_default_def)

text \<open>
  C16: What applying a transaction does. It executes when it has a sender, verifies, carries the
  sender's current nonce, and either registers a free non-empty name or moves an amount the
  sender has. Then a transfer moves the amount and a registration binds the name, and the
  sender's nonce advances by one; otherwise no query can tell the difference.
\<close>

theorem applyTx_spec:
  assumes "applyTxLocked E tx st = Inr st'" "state_inv st"
  shows "if \<not> tx_executes E tx st then same_view st st'
    else getNonce st' = (getNonce st)(tx_sender tx := getNonce st (tx_sender tx) + 1)
      \<and> (if is_registration tx
         then getBalance st' = getBalance st
           \<and> usernameOf st' = (usernameOf st)(tx_sender tx := tx_receiver tx)
           \<and> st_usernames st' = (st_usernames st)(tx_receiver tx \<mapsto> tx_sender tx)
         else usernameOf st' = usernameOf st \<and> st_usernames st' = st_usernames st
           \<and> getBalance st' =
             (let debited = (getBalance st)(tx_sender tx := getBalance st (tx_sender tx) - tx_amount tx)
              in debited(tx_receiver tx := debited (tx_receiver tx) + tx_amount tx)))"
  using applyTx_skip[OF assms(1)] applyTx_transfer[OF assms(1)] applyTx_register[OF assms(1)]
    getOrCreate_address[OF assms(2)]
  by auto

lemma sample_tx_applies: obtains st' where "applyTxLocked sample_env sample_tx sample_state = Inr st'"
  using sample_tx_executes applyTx_returns by (force simp: tx_executes_def)

theorem applyTx_spec_witness:
  "\<exists>st'. applyTxLocked sample_env sample_tx sample_state = Inr st'
     \<and> getBalance st' ''bob'' = 30 \<and> getBalance st' (wal_address sample_wallet) = 20"
proof -
  obtain st' where st': "applyTxLocked sample_env sample_tx sample_state = Inr st'"
    by (rule sample_tx_applies)
  have f: "tx_sender sample_tx = wal_address sample_wallet" "tx_receiver sample_tx = ''bob''"
    "tx_amount sample_tx = 30" "\<not> is_registration sample_tx"
    by (simp_all add: sample_tx_def createSigned_eq is_registration_def tx_default_def)
  from applyTx_spec[OF st' sample_state_inv] sample_tx_executes sample_address(2) st' show ?thesis
    by (simp add: f sample_state_def Let_def)
qed

text \<open>
  No replay. A transaction that has executed does not execute again, so applying the same line a
  second time leaves balances, nonces and names as they are.
\<close>

lemma applyTx_once:
  assumes "applyTxLocked E tx st = Inr st1" "tx_executes E tx st"
    and "applyTxLocked E tx st1 = Inr st2"
  shows "same_view st1 st2"
  using applyTx_skip[OF assms(3) applyTx_no_replay[OF assms(1,2)]] .

lemma applyTx_once_example:
  "\<exists>st1 st2. applyTxLocked sample_env sample_tx sample_state = Inr st1
     \<and> applyTxLocked sample_env sample_tx st1 = Inr st2 \<and> same_view st1 st2"
proof -
  obtain st1 where 1: "applyTxLocked sample_env sample_tx sample_state = Inr st1"
    by (rule sample_tx_applies)
  obtain st2 where 2: "applyTxLocked sample_env sample_tx st1 = Inr st2"
    using sample_tx_executes applyTx_returns by (force simp: tx_executes_def)
  from applyTx_once[OF 1 sample_tx_executes 2] 1 2 show ?thesis by blast
qed

text \<open>
  C17: Conservation of money. After any block, the total of all balances has grown by exactly what
  the block's coinbase lines mint: transfers and registrations neither create nor destroy
  anything, provided the total fits the 64-bit balance type.
\<close>

theorem block_conserves:
  assumes "applyBlock E b st = Inr st'" "state_inv st"
    and "total_supply st + minted_lines (blk_transactions b) < 2 ^ 64"
  shows "total_supply st' = total_supply st + minted_lines (blk_transactions b)"
  using assms by (rule applyBlock_total)

definition sample_pay_block :: block where
  "sample_pay_block = sample_block\<lparr>blk_transactions :=
     [coinbase_line ''m'' 50, tx_toLine sample_tx, ''no transaction'']\<rparr>"

lemma sample_tx_line: "\<not> starts_with (tx_toLine sample_tx) ''COINBASE|''"
  "find_char (tx_toLine sample_tx) (CHR ''|'') 0 \<noteq> None"
  by (simp_all add: starts_with_def tx_toLine_def sample_tx_def createSigned_eq tx_default_def
      find_char_0_None)

lemma sample_tx_minted: "minted (tx_toLine sample_tx) = 0"
  using sample_tx_line(1) by (simp add: minted_def)

lemma sample_pay_applies:
  obtains st' where "applyBlock sample_env sample_pay_block st = Inr st'"
proof -
  have c: "applyLine sample_env (coinbase_line ''m'' 50) st = Inr (credit ''m'' 50 st)"
    by (simp add: applyLine_def applyCoinbase_line)
  have "tx_verify sample_env sample_tx = Inr True"
    using sample_tx_executes by (simp add: tx_executes_def)
  then obtain st1 where
    "applyLine sample_env (tx_toLine sample_tx) (credit ''m'' 50 st) = Inr st1"
    using applyTx_returns sample_tx_line sample_tx_ok(1)
    by (metis (no_types, lifting) applyLine_def bind_res_simps(2) tx_fromLine_toLine)
  moreover have "applyLine sample_env ''no transaction'' s = Inr s" for s
    by (simp add: applyLine_def starts_with_def find_char_0_None)
  ultimately have "applyBlock sample_env sample_pay_block st = Inr st1"
    using c by (simp add: applyBlock_def sample_pay_block_def)
  then show thesis by (rule that)
qed

theorem block_conserves_witness:
  "\<exists>st'. applyBlock sample_env sample_pay_block sample_state = Inr st' \<and> total_supply st' = 100"
proof -
  obtain st' where st': "applyBlock sample_env sample_pay_block sample_state = Inr st'"
    by (rule sample_pay_applies)
  have m: "minted_lines (blk_transactions sample_pay_block) = 50"
    by (simp add: sample_pay_block_def minted_lines_def sample_tx_minted)
       (simp add: minted_def starts_with_def)
  have t: "total_supply sample_state = 50"
    unfolding sample_state_def by (subst total_credit) simp_all
  from block_conserves[OF st' sample_state_inv] m t st' show ?thesis by simp
qed

text \<open>
  The invariant between the two maps. Rebuilding the state from any list of blocks, whatever
  their lines hold, ends in a state where every account knows its address, every registered
  name belongs to an existing account, and an account's name resolves back to that account.
\<close>

lemma rebuild_consistent:
  assumes "rebuildFromBlocks E blocks st = Inr st'"
  shows "finite (dom (st_accounts st'))
    \<and> (usernameOf st' addr \<noteq> [] \<longrightarrow> resolveUsername st' (usernameOf st' addr) = Some addr)
    \<and> (resolveUsername st' name = Some addr \<longrightarrow> st_accounts st' addr \<noteq> None)"
  using rebuild_inv[OF assms] by (auto simp: state_inv_def resolveUsername_def)

lemma rebuild_consistent_example:
  "\<exists>st'. rebuildFromBlocks sample_env [sample_pay_block] sample_state = Inr st'
     \<and> finite (dom (st_accounts st'))"
proof -
  obtain st' where "applyBlock sample_env sample_pay_block state_empty = Inr st'"
    by (rule sample_pay_applies)
  then have st': "rebuildFromBlocks sample_env [sample_pay_block] sample_state = Inr st'"
    by (simp add: rebuild_eq)
  from rebuild_consistent[OF st'] st' show ?thesis by blast
qed

text \<open>
  C18: A user name keeps its first owner. Once a name resolves to an address, no block, whatever it
  holds, makes it resolve to anything else.
\<close>

theorem username_permanent:
  assumes "applyBlock E b st = Inr st'" "state_inv st" "resolveUsername st name = Some addr"
  shows "resolveUsername st' name = Some addr"
  using applyBlock_username_kept[OF assms(1,2)] assms(3) by (simp add: resolveUsername_def)

definition sample_named_state :: state_store where
  "sample_named_state = (put_account ''al'' ((account_new ''al'')\<lparr>acc_username := ''neo''\<rparr>) state_empty)
     \<lparr>st_usernames := (st_usernames state_empty)(''neo'' \<mapsto> ''al'')\<rparr>"

theorem username_permanent_witness:
  "\<exists>st'. applyBlock sample_env sample_pay_block sample_named_state = Inr st'
     \<and> resolveUsername st' ''neo'' = Some ''al''"
proof -
  obtain st' where st': "applyBlock sample_env sample_pay_block sample_named_state = Inr st'"
    by (rule sample_pay_applies)
  have "state_inv sample_named_state"
    unfolding sample_named_state_def
    by (rule state_inv_register) (simp_all add: account_new_def)
  from username_permanent[OF st' this] st' show ?thesis
    by (simp add: sample_named_state_def resolveUsername_def)
qed

text \<open>
  C19: The signing key is not tied to the sender. Anyone with a wallet of their own can spend from an
  account of someone else: a transfer that names the victim as sender and is signed with the
  attacker's key executes, and the amount arrives at the attacker's address.
\<close>

theorem foreign_key_spends:
  assumes "openssl_ok E" "wallet_ok E attacker" "victim \<noteq> []" "victim \<noteq> wal_address attacker"
    and "amount \<le> getBalance st victim"
  shows "\<exists>tx st'. tx_sender tx = victim \<and> tx_senderPubKeyHex tx = publicKeyHex attacker
    \<and> applyTxLocked E tx st = Inr st'
    \<and> getBalance st' victim = getBalance st victim - amount
    \<and> getBalance st' (wal_address attacker) = getBalance st (wal_address attacker) + amount"
proof -
  let ?tx = "sign_with E attacker (tx_default\<lparr>tx_sender := victim,
      tx_receiver := wal_address attacker, tx_amount := amount, tx_nonce := getNonce st victim\<rparr>)"
  have v: "tx_verify E ?tx = Inr True" using assms(1,2) by (rule sign_with_verifies)
  have ex: "tx_executes E ?tx st" and nr: "\<not> is_registration ?tx"
    using v assms(3,5) by (simp_all add: tx_executes_def is_registration_def tx_default_def)
  obtain st' where st': "applyTxLocked E ?tx st = Inr st'" using applyTx_returns[OF v] by blast
  from applyTx_transfer(1)[OF st' ex nr] assms(4) st' show ?thesis
    by (intro exI[of _ ?tx] exI[of _ st']) (simp add: Let_def sign_with_def publicKeyHex_def)
qed

theorem foreign_key_spends_witness:
  "\<exists>tx st'. tx_sender tx = ''bob'' \<and> tx_senderPubKeyHex tx = publicKeyHex sample_wallet
    \<and> applyTxLocked sample_env tx (credit ''bob'' 50 state_empty) = Inr st'
    \<and> getBalance st' (wal_address sample_wallet) = 50"
  using foreign_key_spends[OF sample_env_ok sample_wallet_ok, of "''bob''" 50 "credit ''bob'' 50 state_empty"]
    sample_address by auto

end
