(* ===== verification/Mempool.thy ===== *)
theory Mempool
  imports State_Laws
begin

text \<open>
  \<^verbatim>\<open>src/mempool/mempool.hpp\<close>: the queue of pending transaction lines and the set of senders
  that have one, with its admission checks against the state store. The abstract view is a
  queue of transactions of distinct senders; the interface to the state store is a locale.
\<close>

record mempool =
  mp_pending :: "string list"
  mp_pendingSenders :: "string set"

definition mempool_empty :: mempool where
  "mempool_empty = \<lparr>mp_pending = [], mp_pendingSenders = {}\<rparr>"

subsection \<open>The operations\<close>

text \<open>The empty text is success, any other text the reason for the rejection.\<close>

definition mempool_add ::
  "env \<Rightarrow> state_store \<Rightarrow> transaction \<Rightarrow> mempool \<Rightarrow> (string \<times> mempool) res" where
  "mempool_add E st tx m =
     bind_res (tx_verify E tx) (\<lambda>ok.
       if \<not> ok then Inr (''invalid signature'', m)
       else
         (let expectedNonce = getNonce st (tx_sender tx)
          in if tx_nonce tx \<noteq> expectedNonce
             then Inr (''bad nonce (expected '' @ show_u64 expectedNonce @ '')'', m)
             else if tx_type tx = ''TRANSFER'' \<and> getBalance st (tx_sender tx) < tx_amount tx
             then Inr (''insufficient balance'', m)
             else if tx_sender tx \<in> mp_pendingSenders m
             then Inr (''sender already has a pending tx'', m)
             else Inr ([], m\<lparr>mp_pendingSenders := insert (tx_sender tx) (mp_pendingSenders m),
                             mp_pending := mp_pending m @ [tx_toLine tx]\<rparr>)))"

text \<open>The loop of \<^verbatim>\<open>take\<close>: the lines taken so far, the queue, the senders.\<close>

fun take_loop ::
  "nat \<Rightarrow> string list \<Rightarrow> string list \<Rightarrow> string set \<Rightarrow> (string list \<times> string list \<times> string set) res" where
  "take_loop maxCount out [] senders = Inr (out, [], senders)"
| "take_loop maxCount out (l # ls) senders =
     (if length out < maxCount
      then bind_res (tx_fromLine l) (\<lambda>tx.
             take_loop maxCount (out @ [l]) ls (senders - {tx_sender tx}))
      else Inr (out, l # ls, senders))"

definition mempool_take :: "nat \<Rightarrow> mempool \<Rightarrow> (string list \<times> mempool) res" where
  "mempool_take maxCount m =
     bind_res (take_loop maxCount [] (mp_pending m) (mp_pendingSenders m)) (\<lambda>(out, ls, senders).
       Inr (out, \<lparr>mp_pending = ls, mp_pendingSenders = senders\<rparr>))"

definition mempool_size :: "mempool \<Rightarrow> nat" where
  "mempool_size m = length (mp_pending m)"

subsection \<open>Admission\<close>

text \<open>The reference condition for admission.\<close>

definition admissible :: "env \<Rightarrow> state_store \<Rightarrow> transaction \<Rightarrow> mempool \<Rightarrow> bool" where
  "admissible E st tx m \<longleftrightarrow>
     tx_verify E tx = Inr True \<and> tx_nonce tx = getNonce st (tx_sender tx)
     \<and> (tx_type tx = ''TRANSFER'' \<longrightarrow> tx_amount tx \<le> getBalance st (tx_sender tx))
     \<and> tx_sender tx \<notin> mp_pendingSenders m"

lemma mempool_add_accept:
  "admissible E st tx m \<Longrightarrow> mempool_add E st tx m =
    Inr ([], m\<lparr>mp_pendingSenders := insert (tx_sender tx) (mp_pendingSenders m),
               mp_pending := mp_pending m @ [tx_toLine tx]\<rparr>)"
  by (simp add: mempool_add_def admissible_def Let_def leD)

lemma mempool_add_reject:
  assumes "tx_verify E tx = Inr ok" "\<not> admissible E st tx m"
  shows "\<exists>msg. msg \<noteq> [] \<and> mempool_add E st tx m = Inr (msg, m)"
proof (cases "\<not> ok \<or> tx_nonce tx \<noteq> getNonce st (tx_sender tx)")
  case True
  with assms(1) show ?thesis by (auto simp: mempool_add_def Let_def)
next
  case False
  with assms show ?thesis
    by (cases "tx_type tx = ''TRANSFER'' \<and> getBalance st (tx_sender tx) < tx_amount tx")
      (auto simp: mempool_add_def admissible_def Let_def not_less)
qed

lemma mempool_add_cases:
  assumes "mempool_add E st tx m = Inr (msg, m')"
  obtains (accepted) "admissible E st tx m" "msg = []"
      "m' = m\<lparr>mp_pendingSenders := insert (tx_sender tx) (mp_pendingSenders m),
              mp_pending := mp_pending m @ [tx_toLine tx]\<rparr>"
    | (rejected) "\<not> admissible E st tx m" "msg \<noteq> []" "m' = m"
proof -
  obtain ok where ok: "tx_verify E tx = Inr ok"
    using assms by (auto simp: mempool_add_def bind_res_Inr_iff)
  show thesis
  proof (cases "admissible E st tx m")
    case True
    with mempool_add_accept[OF True] assms show thesis by (intro accepted) simp_all
  next
    case False
    with mempool_add_reject[OF ok False] assms show thesis by (intro rejected) auto
  qed
qed

lemma mempool_add_accepts_iff:
  assumes "mempool_add E st tx m = Inr (msg, m')"
  shows "msg = [] \<longleftrightarrow> admissible E st tx m"
  using assms by (cases rule: mempool_add_cases) auto

lemma mempool_add_Inl_iff: "mempool_add E st tx m = Inl e \<longleftrightarrow> tx_verify E tx = Inl e"
  by (auto simp: mempool_add_def bind_res_Inl_iff Let_def split: if_splits)

subsection \<open>The abstract queue\<close>

text \<open>
  \<open>represents m txs\<close>: the mempool holds the lines of the transactions \<open>txs\<close>, in order, of
  distinct senders, all of which can be read back.
\<close>

definition represents :: "mempool \<Rightarrow> transaction list \<Rightarrow> bool" where
  "represents m txs \<longleftrightarrow>
     mp_pending m = map tx_toLine txs \<and> mp_pendingSenders m = set (map tx_sender txs)
     \<and> distinct (map tx_sender txs) \<and> (\<forall>tx \<in> set txs. bar_free tx)"

lemma represents_empty [simp]: "represents mempool_empty []"
  by (simp add: represents_def mempool_empty_def)

lemma represents_unique: "represents m txs \<Longrightarrow> represents m txs' \<Longrightarrow> txs = txs'"
proof -
  assume r: "represents m txs" "represents m txs'"
  then have "map_res tx_fromLine (map tx_toLine txs) = Inr txs"
    "map_res tx_fromLine (map tx_toLine txs') = Inr txs'"
    unfolding represents_def by (blast intro: txc.dec_enc_list)+
  moreover from r have "map tx_toLine txs = map tx_toLine txs'"
    unfolding represents_def by metis
  ultimately show "txs = txs'" by (metis sum.inject(2))
qed

lemma mempool_add_represents:
  assumes "mempool_add E st tx m = Inr (msg, m')" "represents m txs" "bar_free tx"
  shows "represents m' (if msg = [] then txs @ [tx] else txs)"
  using assms(1) by (cases rule: mempool_add_cases)
    (use assms(2,3) in \<open>auto simp: represents_def admissible_def\<close>)

lemma take_loop_lines:
  assumes "\<forall>tx \<in> set txs. bar_free tx"
  shows "take_loop n out (map tx_toLine txs) senders =
    (let k = n - length out
     in Inr (out @ map tx_toLine (take k txs), map tx_toLine (drop k txs),
             senders - set (map tx_sender (take k txs))))"
  using assms
proof (induction txs arbitrary: out senders)
  case Nil
  then show ?case by simp
next
  case (Cons tx txs)
  show ?case
  proof (cases "length out < n")
    case True
    then have "n - length out = Suc (n - Suc (length out))" by simp
    with True Cons show ?thesis by (simp add: txc.dec_enc Let_def) blast
  next
    case False
    then show ?thesis by simp
  qed
qed

text \<open>\<^verbatim>\<open>take\<close> removes a prefix of the queue and returns its lines, oldest first.\<close>

lemma mempool_take_represents:
  assumes "represents m txs"
  shows "\<exists>m'. mempool_take n m = Inr (map tx_toLine (take n txs), m') \<and> represents m' (drop n txs)"
proof -
  have split: "map tx_sender txs = map tx_sender (take n txs) @ map tx_sender (drop n txs)"
    by (metis append_take_drop_id map_append)
  have d: "distinct (map tx_sender (take n txs) @ map tx_sender (drop n txs))"
    using assms split by (simp add: represents_def)
  then have "set (map tx_sender txs) - set (map tx_sender (take n txs)) = set (map tx_sender (drop n txs))"
    unfolding split set_append by auto
  then have "mempool_take n m = Inr (map tx_toLine (take n txs),
      \<lparr>mp_pending = map tx_toLine (drop n txs), mp_pendingSenders = set (map tx_sender (drop n txs))\<rparr>)"
    using assms by (simp add: mempool_take_def represents_def take_loop_lines Let_def)
  moreover have "represents \<lparr>mp_pending = map tx_toLine (drop n txs),
      mp_pendingSenders = set (map tx_sender (drop n txs))\<rparr> (drop n txs)"
    using assms d by (auto simp: represents_def dest: in_set_dropD)
  ultimately show ?thesis by blast
qed

definition mempool_inv :: "mempool \<Rightarrow> bool" where
  "mempool_inv m \<longleftrightarrow> (\<exists>txs. represents m txs)"

lemma mempool_size_represents: "represents m txs \<Longrightarrow> mempool_size m = length txs"
  by (simp add: represents_def mempool_size_def)

lemma mempool_size_senders: "mempool_inv m \<Longrightarrow> mempool_size m = card (mp_pendingSenders m)"
  using distinct_card by (fastforce simp: mempool_inv_def represents_def mempool_size_def)

subsection \<open>Interface: the ledger behind the mempool\<close>

text \<open>
  What the mempool's admission checks rely on: the queries it calls, and what applying a
  transaction does to their answers.
\<close>

locale ledger =
  fixes nonce_of :: "'s \<Rightarrow> string \<Rightarrow> u64" and balance_of :: "'s \<Rightarrow> string \<Rightarrow> u64"
    and verify :: "transaction \<Rightarrow> bool res" and app :: "transaction \<Rightarrow> 's \<Rightarrow> 's res"
  assumes app_returns: "verify tx = Inr ok \<Longrightarrow> \<exists>s'. app tx s = Inr s'"
    and app_transfer: "tx_sender tx \<noteq> [] \<Longrightarrow> verify tx = Inr True \<Longrightarrow> \<not> is_registration tx \<Longrightarrow>
      tx_nonce tx = nonce_of s (tx_sender tx) \<Longrightarrow> tx_amount tx \<le> balance_of s (tx_sender tx) \<Longrightarrow>
      app tx s = Inr s' \<Longrightarrow>
      nonce_of s' = (nonce_of s)(tx_sender tx := nonce_of s (tx_sender tx) + 1)
      \<and> balance_of s' =
        (let debited = (balance_of s)(tx_sender tx := balance_of s (tx_sender tx) - tx_amount tx)
         in debited(tx_receiver tx := debited (tx_receiver tx) + tx_amount tx))"
    and app_stale: "tx_nonce tx \<noteq> nonce_of s (tx_sender tx) \<Longrightarrow> app tx s = Inr s' \<Longrightarrow>
      nonce_of s' = nonce_of s \<and> balance_of s' = balance_of s"
begin

text \<open>The transfer the mempool admits is one the ledger carries out.\<close>

lemma admitted_applies:
  assumes "tx_sender tx \<noteq> []" "verify tx = Inr True" "\<not> is_registration tx"
    "tx_nonce tx = nonce_of s (tx_sender tx)" "tx_amount tx \<le> balance_of s (tx_sender tx)"
    "tx_receiver tx \<noteq> tx_sender tx"
  shows "\<exists>s'. app tx s = Inr s'
    \<and> balance_of s' (tx_sender tx) = balance_of s (tx_sender tx) - tx_amount tx
    \<and> balance_of s' (tx_receiver tx) = balance_of s (tx_receiver tx) + tx_amount tx
    \<and> (\<forall>a. a \<noteq> tx_sender tx \<longrightarrow> a \<noteq> tx_receiver tx \<longrightarrow> balance_of s' a = balance_of s a)"
proof -
  obtain s' where s': "app tx s = Inr s'" using app_returns[OF assms(2)] by blast
  with app_transfer[OF assms(1-5) s'] assms(6) show ?thesis by (simp add: Let_def)
qed

text \<open>Applied again, the same transaction changes no balance: one payment is made once.\<close>

lemma applied_once:
  assumes "tx_sender tx \<noteq> []" "verify tx = Inr True" "\<not> is_registration tx"
    "tx_nonce tx = nonce_of s (tx_sender tx)" "tx_amount tx \<le> balance_of s (tx_sender tx)"
    "app tx s = Inr s1" "app tx s1 = Inr s2"
  shows "balance_of s2 = balance_of s1 \<and> nonce_of s2 = nonce_of s1"
proof -
  from app_transfer[OF assms(1-6)] have "nonce_of s1 (tx_sender tx) = tx_nonce tx + 1"
    using assms(4) by simp
  then have "tx_nonce tx \<noteq> nonce_of s1 (tx_sender tx)" by simp
  from app_stale[OF this assms(7)] show ?thesis by simp
qed

end

interpretation store: ledger getNonce getBalance "tx_verify E" "applyTxLocked E" for E
proof (unfold_locales, goal_cases)
  case (1 tx ok s)
  then show ?case by (rule applyTx_returns)
next
  case (2 tx s s')
  then have "tx_executes E tx s" by (simp add: tx_executes_def)
  with 2 applyTx_transfer(1,2)[OF 2(6)] show ?case by simp
next
  case (3 tx s s')
  then have "\<not> tx_executes E tx s" by (simp add: tx_executes_def)
  with applyTx_skip[OF 3(2)] show ?case by (simp add: same_view_def)
qed

subsection \<open>A line that cannot be read back\<close>

text \<open>
  A receiver text with a bar passes admission, but its line does not read back: the text
  after the bar is taken for the amount.
\<close>

lemma tx_fromLine_shifted:
  assumes "CHR ''|'' \<notin> set (tx_type tx)" "CHR ''|'' \<notin> set (tx_sender tx)"
    "tx_receiver tx = x @ CHR ''|'' # y" "CHR ''|'' \<notin> set x" "CHR ''|'' \<notin> set y" "scan_int 10 y = None"
  shows "tx_fromLine (tx_toLine tx) = Inl InvalidArgument"
proof -
  have "stoull y = Inl InvalidArgument" using assms(6) by (simp add: stoull_def strtou_def)
  moreover have "split_on (CHR ''|'') [] (tx_toLine tx) =
    tx_type tx # tx_sender tx # x # y # show_u64 (tx_amount tx) # show_u64 (tx_nonce tx) #
    show_i64 (tx_timestamp tx) #
    split_on (CHR ''|'') [] (tx_senderPubKeyHex tx @ CHR ''|'' # tx_signatureHex tx)"
    using assms(1-5) by (simp add: tx_toLine_def)
  moreover have "2 \<le> length (split_on (CHR ''|'') [] (p @ CHR ''|'' # q))" for p q
  proof -
    have "length (split_on (CHR ''|'') cur (p @ CHR ''|'' # q)) \<ge> 2" for cur
      by (induction p arbitrary: cur) (auto simp: Suc_le_eq)
    then show ?thesis .
  qed
  ultimately show ?thesis
    by (simp add: tx_fromLine_def Let_def not_less eval_nat_numeral)
qed

end
