(* ===== verification/Mempool_Laws.thy ===== *)
theory Mempool_Laws
  imports Mempool
begin

text \<open>
  What the mempool guarantees to the block that takes its lines: a queue of admitted transfers
  of distinct senders is carried out in full, whatever the order of the queue, because no
  transfer can lower another sender's balance or move another sender's nonce.
\<close>

subsection \<open>One transfer, exactly\<close>

lemma two_balances_le_total:
  assumes "state_inv st" "a \<noteq> b"
  shows "unat (getBalance st a) + unat (getBalance st b) \<le> total_supply st"
proof -
  let ?A = "insert a (insert b (dom (st_accounts st)))"
  have fin: "finite ?A" using assms(1) by (simp add: state_inv_def)
  have "total_supply st = (\<Sum>x \<in> ?A. unat (getBalance st x))"
    using fin by (rule total_superset) auto
  moreover have "(\<Sum>x \<in> {a, b}. unat (getBalance st x)) \<le> (\<Sum>x \<in> ?A. unat (getBalance st x))"
    using fin by (intro sum_mono2) auto
  ultimately show ?thesis using assms(2) by simp
qed

lemma transfer_exact:
  assumes app: "applyTxLocked E tx st = Inr st'" and ex: "tx_executes E tx st"
    and tr: "\<not> is_registration tx" and inv: "state_inv st" and tot: "total_supply st < 2 ^ 64"
  shows "unat (getBalance st' a) + (if a = tx_sender tx then unat (tx_amount tx) else 0)
    = unat (getBalance st a) + (if a = tx_receiver tx then unat (tx_amount tx) else 0)"
proof -
  let ?s = "tx_sender tx" and ?r = "tx_receiver tx" and ?m = "tx_amount tx"
  have le: "?m \<le> getBalance st ?s" using ex tr by (simp add: tx_executes_def)
  then have le': "unat ?m \<le> unat (getBalance st ?s)" by (simp add: word_le_nat_alt)
  have bal: "getBalance st' = (let d = (getBalance st)(?s := getBalance st ?s - ?m) in d(?r := d ?r + ?m))"
    using applyTx_transfer(1)[OF app ex tr] .
  have sub: "unat (getBalance st ?s - ?m) = unat (getBalance st ?s) - unat ?m"
    using le by (rule unat_sub)
  show ?thesis
  proof (cases "?r = ?s")
    case True
    with bal show ?thesis by (simp add: Let_def)
  next
    case False
    have "unat (getBalance st ?r) + unat ?m < 2 ^ 64"
      using two_balances_le_total[OF inv False] le' tot by linarith
    then have "unat (getBalance st ?r + ?m) = unat (getBalance st ?r) + unat ?m"
      by (simp add: unat_word_ariths)
    with bal False sub le' show ?thesis by (simp add: Let_def)
  qed
qed

lemma transfer_keeps_executable:
  assumes "applyTxLocked E tx st = Inr st'" "tx_executes E tx st" "\<not> is_registration tx"
    and "state_inv st" "total_supply st < 2 ^ 64"
    and other: "tx_executes E t st" "\<not> is_registration t" "tx_sender t \<noteq> tx_sender tx"
  shows "tx_executes E t st'"
proof -
  have "unat (getBalance st (tx_sender t)) \<le> unat (getBalance st' (tx_sender t))"
    using transfer_exact[OF assms(1-5), of "tx_sender t"] other(3) by simp
  moreover have "getNonce st' (tx_sender t) = getNonce st (tx_sender t)"
    using applyTx_transfer(2)[OF assms(1-3)] other(3) by simp
  ultimately show ?thesis
    using other(1,2) by (auto simp: tx_executes_def word_le_nat_alt)
qed

subsection \<open>A queue of transfers\<close>

definition sent_by :: "string \<Rightarrow> transaction list \<Rightarrow> nat" where
  "sent_by a txs = sum_list (map (\<lambda>tx. if tx_sender tx = a then unat (tx_amount tx) else 0) txs)"

definition received_by :: "string \<Rightarrow> transaction list \<Rightarrow> nat" where
  "received_by a txs = sum_list (map (\<lambda>tx. if tx_receiver tx = a then unat (tx_amount tx) else 0) txs)"

lemma sent_received_simps [simp]:
  "sent_by a [] = 0" "received_by a [] = 0"
  "sent_by a (tx # txs) = (if tx_sender tx = a then unat (tx_amount tx) else 0) + sent_by a txs"
  "received_by a (tx # txs) = (if tx_receiver tx = a then unat (tx_amount tx) else 0) + received_by a txs"
  by (simp_all add: sent_by_def received_by_def)

lemma applyLine_transfer:
  assumes "tx_type tx = ''TRANSFER''" "bar_free tx"
  shows "applyLine E (tx_toLine tx) st = applyTxLocked E tx st"
proof -
  have "\<not> starts_with (tx_toLine tx) ''COINBASE|''"
    using assms(1) by (simp add: starts_with_def tx_toLine_def)
  moreover have "find_char (tx_toLine tx) (CHR ''|'') 0 \<noteq> None"
    by (simp add: find_char_0_None tx_toLine_def)
  ultimately show ?thesis using assms(2) by (simp add: applyLine_def txc.dec_enc)
qed

text \<open>A transfer the ledger will carry out, as a block holds it.\<close>

definition payable :: "env \<Rightarrow> state_store \<Rightarrow> transaction \<Rightarrow> bool" where
  "payable E st tx \<longleftrightarrow> tx_type tx = ''TRANSFER'' \<and> bar_free tx \<and> tx_executes E tx st"

lemma payable_transfer: "payable E st tx \<Longrightarrow> \<not> is_registration tx"
  by (simp add: payable_def is_registration_def)

lemma payable_step:
  assumes "payable E st tx" "state_inv st" "total_supply st < 2 ^ 64"
  obtains st' where "applyLine E (tx_toLine tx) st = Inr st'" "applyTxLocked E tx st = Inr st'"
    "state_inv st'" "total_supply st' < 2 ^ 64"
    "\<And>t. payable E st t \<Longrightarrow> tx_sender t \<noteq> tx_sender tx \<Longrightarrow> payable E st' t"
proof -
  have ex: "tx_executes E tx st" and tr: "\<not> is_registration tx"
    using assms(1) payable_transfer by (simp_all add: payable_def)
  then obtain st' where a: "applyTxLocked E tx st = Inr st'"
    using applyTx_returns by (fastforce simp: tx_executes_def)
  show thesis
  proof (rule that[OF _ a])
    show "applyLine E (tx_toLine tx) st = Inr st'"
      using assms(1) a by (simp add: payable_def applyLine_transfer)
    show "state_inv st'" using a assms(2) by (rule applyTx_inv)
    show "total_supply st' < 2 ^ 64" using applyTx_total[OF a assms(2,3)] assms(3) by simp
    show "payable E st' t" if "payable E st t" "tx_sender t \<noteq> tx_sender tx" for t
      using transfer_keeps_executable[OF a ex tr assms(2,3)] that payable_transfer[OF that(1)]
      by (simp add: payable_def)
  qed
qed

lemma payable_all_settle:
  assumes "state_inv st" "total_supply st < 2 ^ 64" "distinct (map tx_sender txs)"
    "\<forall>tx \<in> set txs. payable E st tx"
  shows "\<exists>st'. fold_res (applyLine E) (map tx_toLine txs) st = Inr st'
    \<and> (\<forall>a. unat (getBalance st' a) + sent_by a txs = unat (getBalance st a) + received_by a txs
        \<and> getNonce st' a = getNonce st a + (if a \<in> set (map tx_sender txs) then 1 else 0))"
  using assms
proof (induction txs arbitrary: st)
  case Nil
  then show ?case by simp
next
  case (Cons tx txs)
  have p: "payable E st tx" using Cons.prems(4) by simp
  obtain st1 where st1: "applyLine E (tx_toLine tx) st = Inr st1" "applyTxLocked E tx st = Inr st1"
    "state_inv st1" "total_supply st1 < 2 ^ 64"
    "\<And>t. payable E st t \<Longrightarrow> tx_sender t \<noteq> tx_sender tx \<Longrightarrow> payable E st1 t"
    using payable_step[OF p Cons.prems(1,2)] by metis
  have "\<forall>t \<in> set txs. payable E st1 t"
    using st1(5) Cons.prems(3,4) by (auto simp: image_iff)
  then obtain st' where st': "fold_res (applyLine E) (map tx_toLine txs) st1 = Inr st'"
    and eff: "\<And>a. unat (getBalance st' a) + sent_by a txs = unat (getBalance st1 a) + received_by a txs
        \<and> getNonce st' a = getNonce st1 a + (if a \<in> set (map tx_sender txs) then 1 else 0)"
    using Cons.IH[OF st1(3,4)] Cons.prems(3) by auto
  have ex: "tx_executes E tx st" and tr: "\<not> is_registration tx"
    using p payable_transfer by (simp_all add: payable_def)
  note one = transfer_exact[OF st1(2) ex tr Cons.prems(1,2)]
  have n: "getNonce st1 = (getNonce st)(tx_sender tx := getNonce st (tx_sender tx) + 1)"
    using applyTx_transfer(2)[OF st1(2) ex tr] .
  have "unat (getBalance st' a) + sent_by a (tx # txs) = unat (getBalance st a) + received_by a (tx # txs)" for a
    using one[of a] eff[of a] by (auto split: if_splits)
  moreover have "getNonce st' a = getNonce st a + (if a \<in> set (map tx_sender (tx # txs)) then 1 else 0)" for a
    using eff[of a] n Cons.prems(3) by auto
  ultimately show ?case using st' st1(1) by auto
qed

text \<open>An admitted transfer with a sender is payable.\<close>

lemma admissible_payable:
  assumes "admissible E st tx m" "tx_type tx = ''TRANSFER''" "bar_free tx" "tx_sender tx \<noteq> []"
  shows "payable E st tx"
  using assms by (simp add: payable_def tx_executes_def admissible_def is_registration_def)

subsection \<open>A line that cannot be taken\<close>

lemma take_loop_poison:
  assumes "\<forall>tx \<in> set txs. bar_free tx" "tx_fromLine l = Inl e" "length out + length txs < n"
  shows "take_loop n out (map tx_toLine txs @ [l]) senders = Inl e"
  using assms
proof (induction txs arbitrary: out senders)
  case Nil
  then show ?case by simp
next
  case (Cons tx txs)
  then show ?case by (simp add: txc.dec_enc)
qed

lemma createSigned_admissible:
  assumes "openssl_ok E" "wallet_ok E w" "amount \<le> getBalance st (wal_address w)"
    "wal_address w \<notin> mp_pendingSenders m"
  shows "admissible E st (createSigned E w to amount (getNonce st (wal_address w)) now) m"
  using assms createSigned_verifies[OF assms(1,2)]
  by (simp add: admissible_def) (simp add: createSigned_eq)

subsection \<open>Properties\<close>

text \<open>
  C21: Refinement of the mempool, insertion. On a mempool that holds a queue of transactions,
  \<^verbatim>\<open>add\<close> accepts exactly the admissible ones (valid signature, current nonce, covered amount, no
  other pending transaction of the sender); an accepted one is queued at the back, a rejected
  one leaves the mempool as it was. This is for a transaction whose texts hold no bar; what one with
  a bar does to the queue is \<open>poisoned_queue\<close>.
\<close>

theorem mempool_add_refines:
  assumes "mempool_add E st tx m = Inr (msg, m')" "represents m txs" "bar_free tx"
  shows "(msg = [] \<longleftrightarrow> admissible E st tx m)
    \<and> represents m' (if msg = [] then txs @ [tx] else txs) \<and> (msg = [] \<or> m' = m)"
  using mempool_add_accepts_iff[OF assms(1)] mempool_add_represents[OF assms]
    mempool_add_cases[OF assms(1)] by blast

lemma sample_admissible: "admissible sample_env sample_state sample_tx mempool_empty"
proof -
  have "getNonce sample_state (wal_address sample_wallet) = 0" by (simp add: sample_state_def)
  moreover have "(30 :: u64) \<le> getBalance sample_state (wal_address sample_wallet)"
    by (simp add: sample_state_def)
  ultimately show ?thesis
    using createSigned_admissible[OF sample_env_ok sample_wallet_ok, of 30 sample_state mempool_empty
        "''bob''" 1700000000]
    by (simp add: sample_tx_def mempool_empty_def)
qed

lemma sample_tx_fields: "tx_type sample_tx = ''TRANSFER''" "tx_sender sample_tx = wal_address sample_wallet"
  "tx_receiver sample_tx = ''bob''" "tx_amount sample_tx = 30" "tx_nonce sample_tx = 0"
  by (simp_all add: sample_tx_def createSigned_eq tx_default_def)

theorem mempool_add_refines_witness:
  "\<exists>m'. mempool_add sample_env sample_state sample_tx mempool_empty = Inr ([], m')
     \<and> represents m' [sample_tx]"
proof -
  obtain m' where m': "mempool_add sample_env sample_state sample_tx mempool_empty = Inr ([], m')"
    using mempool_add_accept[OF sample_admissible] by blast
  with mempool_add_refines[OF m' represents_empty sample_tx_ok(1)] show ?thesis by simp
qed

text \<open>
  Refinement of the mempool, removal. \<^verbatim>\<open>take\<close> returns the lines of the oldest transactions, as
  many as asked for and available, in the order they were queued, and the mempool then holds
  exactly the others: nothing is lost, duplicated or reordered.
\<close>

lemma mempool_take_refines:
  assumes "represents m txs"
  shows "\<exists>m'. mempool_take n m = Inr (map tx_toLine (take n txs), m') \<and> represents m' (drop n txs)
    \<and> mempool_size m' = mempool_size m - n"
proof -
  obtain m' where m': "mempool_take n m = Inr (map tx_toLine (take n txs), m')" "represents m' (drop n txs)"
    using mempool_take_represents[OF assms] by blast
  with assms show ?thesis by (simp add: mempool_size_represents)
qed

lemma mempool_take_refines_example:
  "\<exists>m m'. mempool_add sample_env sample_state sample_tx mempool_empty = Inr ([], m)
     \<and> mempool_take 50 m = Inr ([tx_toLine sample_tx], m') \<and> mempool_size m' = 0"
proof -
  obtain m where m: "mempool_add sample_env sample_state sample_tx mempool_empty = Inr ([], m)"
    using mempool_add_accept[OF sample_admissible] by blast
  have r: "represents m [sample_tx]"
    using mempool_add_represents[OF m represents_empty sample_tx_ok(1)] by simp
  from mempool_take_refines[OF r, of 50] m show ?thesis
    by (auto simp: mempool_size_represents[OF r])
qed

text \<open>
  The transactions the mempool hands to a block are carried out. Transfers of distinct senders
  that the ledger can each carry out now are all carried out when their lines are applied one
  after the other: every address ends with its balance plus all it received minus all it sent,
  and each sender's nonce advances by one.
\<close>

lemma queue_settles:
  assumes "represents m txs" "\<forall>tx \<in> set txs. payable E st tx"
    and "state_inv st" "total_supply st < 2 ^ 64"
  shows "\<exists>lines m' st'. mempool_take n m = Inr (lines, m') \<and> fold_res (applyLine E) lines st = Inr st'
    \<and> (\<forall>a. unat (getBalance st' a) + sent_by a (take n txs)
          = unat (getBalance st a) + received_by a (take n txs)
        \<and> getNonce st' a = getNonce st a + (if a \<in> set (map tx_sender (take n txs)) then 1 else 0))"
proof -
  have "distinct (map tx_sender (take n txs))"
    using assms(1) by (simp add: represents_def take_map[symmetric])
  moreover have "\<forall>tx \<in> set (take n txs). payable E st tx"
    using assms(2) by (auto dest: in_set_takeD)
  ultimately show ?thesis
    using payable_all_settle[OF assms(3,4)] mempool_take_represents[OF assms(1), of n] by blast
qed

lemma queue_settles_example:
  "\<exists>m m' lines st'. mempool_add sample_env sample_state sample_tx mempool_empty = Inr ([], m)
     \<and> mempool_take 50 m = Inr (lines, m') \<and> fold_res (applyLine sample_env) lines sample_state = Inr st'
     \<and> unat (getBalance st' ''bob'') = 30"
proof -
  obtain m where m: "mempool_add sample_env sample_state sample_tx mempool_empty = Inr ([], m)"
    using mempool_add_accept[OF sample_admissible] by blast
  have r: "represents m [sample_tx]"
    using mempool_add_represents[OF m represents_empty sample_tx_ok(1)] by simp
  have "payable sample_env sample_state sample_tx"
    using admissible_payable[OF sample_admissible] sample_tx_ok(1) sample_address(1)
    by (simp add: sample_tx_fields)
  moreover have "total_supply sample_state < 2 ^ 64"
    unfolding sample_state_def by (subst total_credit) simp_all
  ultimately obtain lines m' st' where "mempool_take 50 m = Inr (lines, m')"
    "fold_res (applyLine sample_env) lines sample_state = Inr st'"
    "unat (getBalance st' ''bob'') + sent_by ''bob'' [sample_tx]
       = unat (getBalance sample_state ''bob'') + received_by ''bob'' [sample_tx]"
    using queue_settles[OF r _ sample_state_inv, of sample_env 50] by auto
  moreover have "getBalance sample_state ''bob'' = 0"
    using sample_address(2) by (simp add: sample_state_def)
  ultimately show ?thesis using m sample_address(2) by (simp add: sample_tx_fields)
qed

text \<open>
  An admitted payment is made, and made once. A transfer the mempool accepts changes, when it is
  applied to the state it was checked against, the sender's and the receiver's balance by its
  amount and no other; applied a second time it changes nothing.
\<close>

lemma admitted_payment_once:
  assumes "mempool_add E st tx m = Inr ([], m')" "tx_type tx = ''TRANSFER''"
    and "tx_sender tx \<noteq> []" "tx_receiver tx \<noteq> tx_sender tx"
  shows "\<exists>st1 st2. applyTxLocked E tx st = Inr st1 \<and> applyTxLocked E tx st1 = Inr st2
    \<and> getBalance st1 (tx_sender tx) = getBalance st (tx_sender tx) - tx_amount tx
    \<and> getBalance st1 (tx_receiver tx) = getBalance st (tx_receiver tx) + tx_amount tx
    \<and> (\<forall>a. a \<noteq> tx_sender tx \<longrightarrow> a \<noteq> tx_receiver tx \<longrightarrow> getBalance st1 a = getBalance st a)
    \<and> getBalance st2 = getBalance st1 \<and> getNonce st2 = getNonce st1"
proof -
  have adm: "admissible E st tx m" using mempool_add_accepts_iff[OF assms(1)] by simp
  then have v: "tx_verify E tx = Inr True" and n: "tx_nonce tx = getNonce st (tx_sender tx)"
    and b: "tx_amount tx \<le> getBalance st (tx_sender tx)" and nr: "\<not> is_registration tx"
    using assms(2) by (simp_all add: admissible_def is_registration_def)
  obtain st1 where st1: "applyTxLocked E tx st = Inr st1"
    "getBalance st1 (tx_sender tx) = getBalance st (tx_sender tx) - tx_amount tx"
    "getBalance st1 (tx_receiver tx) = getBalance st (tx_receiver tx) + tx_amount tx"
    "\<forall>a. a \<noteq> tx_sender tx \<longrightarrow> a \<noteq> tx_receiver tx \<longrightarrow> getBalance st1 a = getBalance st a"
    using store.admitted_applies[OF assms(3) v nr n b assms(4)] by blast
  obtain st2 where st2: "applyTxLocked E tx st1 = Inr st2" using applyTx_returns[OF v] by blast
  from store.applied_once[OF assms(3) v nr n b st1(1) st2] st1 st2 show ?thesis by blast
qed

lemma admitted_payment_once_example:
  "\<exists>st1. applyTxLocked sample_env sample_tx sample_state = Inr st1 \<and> getBalance st1 ''bob'' = 30
     \<and> getBalance st1 (wal_address sample_wallet) = 20"
proof -
  obtain m where m: "mempool_add sample_env sample_state sample_tx mempool_empty = Inr ([], m)"
    using mempool_add_accept[OF sample_admissible] by blast
  have "getBalance sample_state ''bob'' = 0" "getBalance sample_state (wal_address sample_wallet) = 50"
    using sample_address(2) by (simp_all add: sample_state_def)
  with admitted_payment_once[OF m] sample_address show ?thesis
    by (auto simp: sample_tx_fields)
qed

text \<open>
  C24: A pending transaction that stops the miner. A correctly signed transfer to a receiver text with
  a bar is admitted, but taking it from the queue throws, because its line reads back
  shifted by a field; the transactions queued before it are lost with it.
\<close>

theorem poisoned_queue:
  assumes "openssl_ok E" "wallet_ok E w" "represents m txs" "wal_address w \<notin> mp_pendingSenders m"
    and "amount \<le> getBalance st (wal_address w)"
    and "CHR ''|'' \<notin> set x" "CHR ''|'' \<notin> set y" "scan_int 10 y = None" "length txs < n"
  shows "\<exists>m'. mempool_add E st
      (createSigned E w (x @ CHR ''|'' # y) amount (getNonce st (wal_address w)) now) m = Inr ([], m')
    \<and> mempool_take n m' = Inl InvalidArgument"
proof -
  let ?tx = "createSigned E w (x @ CHR ''|'' # y) amount (getNonce st (wal_address w)) now"
  have sep: "CHR ''|'' \<notin> set (wal_address w)" using assms(1,2) by (simp add: wallet_ok_def)
  have bad: "tx_fromLine (tx_toLine ?tx) = Inl InvalidArgument"
    by (rule tx_fromLine_shifted[of _ x y]) (use assms(6-8) sep in \<open>simp_all add: createSigned_eq\<close>)
  let ?m' = "m\<lparr>mp_pendingSenders := insert (tx_sender ?tx) (mp_pendingSenders m),
               mp_pending := mp_pending m @ [tx_toLine ?tx]\<rparr>"
  have "mempool_add E st ?tx m = Inr ([], ?m')"
    by (rule mempool_add_accept[OF createSigned_admissible]) (use assms in simp_all)
  moreover have "mempool_take n ?m' = Inl InvalidArgument"
    using take_loop_poison[OF _ bad, of txs "[]" n] assms(3,9)
    by (simp add: mempool_take_def represents_def)
  ultimately show ?thesis by blast
qed

theorem poisoned_queue_witness:
  "\<exists>m'. mempool_add sample_env sample_state
      (createSigned sample_env sample_wallet (''a'' @ CHR ''|'' # ''b'') 1
        (getNonce sample_state (wal_address sample_wallet)) 0) mempool_empty = Inr ([], m')
    \<and> mempool_take 50 m' = Inl InvalidArgument"
proof (rule poisoned_queue[OF sample_env_ok sample_wallet_ok represents_empty])
  show "scan_int 10 ''b'' = None"
    by (simp add: scan_int_def scan_sign_def is_space_def skip_0x_def is_digit_def digit_val_def Let_def)
qed (simp_all add: mempool_empty_def sample_state_def)

end
