(* ===== verification/Proof_Of_Work.thy ===== *)
theory Proof_Of_Work
  imports Block "HOL-Library.While_Combinator"
begin

text \<open>
  \<^verbatim>\<open>src/consensus/proof_of_work.hpp\<close>: the difficulty test and the nonce search. The search
  need not end, so it is a \<open>while_option\<close>: \<open>None\<close> is a search that runs forever.
\<close>

text \<open>
  \<^verbatim>\<open>leadingZeroHexDigits(hexHash) >= static_cast<int>(difficulty)\<close>: the count is an \<^verbatim>\<open>int\<close> and the
  32-bit difficulty is converted to one, so that from \<open>2 ^ 31\<close> on it is negative.
\<close>

definition meetsDifficulty :: "string \<Rightarrow> u32 \<Rightarrow> bool" where
  "meetsDifficulty hexHash d \<longleftrightarrow> sint d \<le> int (leadingZeroHexDigits hexHash)"

definition solved :: "env \<Rightarrow> block \<Rightarrow> bool" where
  "solved E b \<longleftrightarrow> meetsDifficulty (computeHash E b) (blk_difficulty b)"

definition next_nonce :: "block \<Rightarrow> block" where
  "next_nonce b = b\<lparr>blk_nonce := blk_nonce b + 1\<rparr>"

definition mineBlock :: "env \<Rightarrow> block \<Rightarrow> block option" where
  "mineBlock E b = while_option (\<lambda>b. \<not> solved E b) next_nonce b"

text \<open>What a loop returns: the first state of its run at which the guard fails.\<close>

lemma while_option_Some_iff:
  "while_option b c s = Some t \<longleftrightarrow> (\<exists>k. t = (c ^^ k) s \<and> \<not> b t \<and> (\<forall>j<k. b ((c ^^ j) s)))"
proof
  assume w: "while_option b c s = Some t"
  then have ex: "\<exists>k. \<not> b ((c ^^ k) s)" and t: "t = (c ^^ (LEAST k. \<not> b ((c ^^ k) s))) s"
    by (auto simp: while_option_def split: if_splits)
  show "\<exists>k. t = (c ^^ k) s \<and> \<not> b t \<and> (\<forall>j<k. b ((c ^^ j) s))"
    using LeastI_ex[OF ex] not_less_Least t by blast
next
  assume "\<exists>k. t = (c ^^ k) s \<and> \<not> b t \<and> (\<forall>j<k. b ((c ^^ j) s))"
  then obtain k where k: "t = (c ^^ k) s" "\<not> b t" "\<forall>j<k. b ((c ^^ j) s)" by blast
  then have "(LEAST k. \<not> b ((c ^^ k) s)) = k"
    by (intro Least_equality) (auto simp: not_less[symmetric])
  with k show "while_option b c s = Some t" by (auto simp: while_option_def)
qed

subsection \<open>The difficulty test\<close>

lemma unat_le_uint: "numeral k \<le> unat d \<longleftrightarrow> numeral k \<le> uint d" for d :: u32
proof -
  have "numeral k \<le> unat d \<longleftrightarrow> int (numeral k) \<le> int (unat d)"
    by (simp only: of_nat_le_iff)
  then show ?thesis by simp
qed

lemma sint_u32:
  "sint d = (if 2 ^ 31 \<le> unat d then int (unat d) - 2 ^ 32 else int (unat d))" for d :: u32
proof -
  have b: "- (2 ^ 31) \<le> sint d" "sint d < 2 ^ 31"
    using sint_greater_eq[of d] sint_lt[of d] by simp_all
  have "uint d = sint d mod 2 ^ 32"
    by (simp add: uint_sint take_bit_eq_mod)
  also have "sint d mod 2 ^ 32 = (if sint d < 0 then sint d + 2 ^ 32 else sint d)"
  proof (cases "sint d < 0")
    case True
    have "sint d mod 2 ^ 32 = (sint d + 2 ^ 32) mod 2 ^ 32" by simp
    also have "\<dots> = sint d + 2 ^ 32"
      using b True by (intro mod_pos_pos_trivial) auto
    finally show ?thesis using True by simp
  next
    case False
    with b show ?thesis by (simp add: mod_pos_pos_trivial)
  qed
  finally have "uint d = (if sint d < 0 then sint d + 2 ^ 32 else sint d)" .
  with b show ?thesis by (auto simp: unat_le_uint split: if_splits)
qed

lemma meetsDifficulty_small:
  "unat d < 2 ^ 31 \<Longrightarrow> meetsDifficulty h d \<longleftrightarrow> unat d \<le> leadingZeroHexDigits h"
proof -
  assume "unat d < 2 ^ 31"
  then have "sint d = int (unat d)" by (simp add: sint_u32)
  then show ?thesis by (simp only: meetsDifficulty_def of_nat_le_iff)
qed

lemma meetsDifficulty_zero [simp]: "meetsDifficulty h 0"
  by (simp add: meetsDifficulty_def)

lemma meetsDifficulty_wraps: "2 ^ 31 \<le> unat d \<Longrightarrow> meetsDifficulty h d"
proof -
  assume *: "2 ^ 31 \<le> unat d"
  have "unat d < 2 ^ 32" using unsigned_less[where 'a=nat, of d] by simp
  then have "int (unat d) < 2 ^ 32" by (metis of_nat_less_iff of_nat_numeral of_nat_power)
  with * have "sint d \<le> 0" by (simp only: sint_u32) simp
  then show ?thesis by (simp add: meetsDifficulty_def)
qed

lemma meetsDifficulty_mono:
  "meetsDifficulty h d \<Longrightarrow> sint d' \<le> sint d \<Longrightarrow> meetsDifficulty h d'"
  by (simp add: meetsDifficulty_def)

lemma meetsDifficulty_length:
  "meetsDifficulty h d \<Longrightarrow> unat d < 2 ^ 31 \<Longrightarrow> unat d \<le> length h"
  using leadingZeroHexDigits_le[of h] by (simp add: meetsDifficulty_small)

subsection \<open>The nonce search\<close>

lemma next_nonce_pow:
  "(next_nonce ^^ k) b = b\<lparr>blk_nonce := blk_nonce b + word_of_nat k\<rparr>"
  by (induction k arbitrary: b) (simp_all add: next_nonce_def funpow_swap1 add.assoc)

lemma mineBlock_unfold:
  "mineBlock E b = (if solved E b then Some b else mineBlock E (next_nonce b))"
  by (auto simp: mineBlock_def while_option_unfold[of _ _ b])

text \<open>
  The search returns exactly the block of the first nonce, counting up from the start and
  wrapping at \<open>2 ^ 64\<close>, whose hash meets the block's difficulty.
\<close>

lemma mineBlock_Some_iff:
  "mineBlock E b = Some b' \<longleftrightarrow>
     (\<exists>k. b' = b\<lparr>blk_nonce := blk_nonce b + word_of_nat k\<rparr> \<and> solved E b'
        \<and> (\<forall>j<k. \<not> solved E (b\<lparr>blk_nonce := blk_nonce b + word_of_nat j\<rparr>)))"
  (is "?L \<longleftrightarrow> (\<exists>k. ?R k)")
  by (auto simp: mineBlock_def while_option_Some_iff next_nonce_pow)

lemma mineBlock_solved: "mineBlock E b = Some b' \<Longrightarrow> solved E b'"
  by (auto simp: mineBlock_Some_iff)

lemma mineBlock_frame:
  assumes "mineBlock E b = Some b'"
  shows "blk_height b' = blk_height b" "blk_timestamp b' = blk_timestamp b"
    "blk_difficulty b' = blk_difficulty b" "blk_previousHash b' = blk_previousHash b"
    "blk_transactions b' = blk_transactions b"
  using assms by (auto simp: mineBlock_Some_iff)

text \<open>The search ends if and only if some nonce solves the block.\<close>

lemma mineBlock_ends_iff:
  "(\<exists>b'. mineBlock E b = Some b') \<longleftrightarrow> (\<exists>n. solved E (b\<lparr>blk_nonce := n\<rparr>))"
proof
  assume "\<exists>b'. mineBlock E b = Some b'"
  then show "\<exists>n. solved E (b\<lparr>blk_nonce := n\<rparr>)" by (auto simp: mineBlock_Some_iff)
next
  assume "\<exists>n. solved E (b\<lparr>blk_nonce := n\<rparr>)"
  then obtain n where n: "solved E (b\<lparr>blk_nonce := n\<rparr>)" ..
  let ?k = "unat (n - blk_nonce b)"
  have "(next_nonce ^^ ?k) b = b\<lparr>blk_nonce := n\<rparr>"
    by (simp add: next_nonce_pow)
  with n have "\<exists>k. \<not> \<not> solved E ((next_nonce ^^ k) b)" by metis
  then show "\<exists>b'. mineBlock E b = Some b'"
    by (auto simp: mineBlock_def while_option_def)
qed

lemma mineBlock_immediate: "solved E b \<Longrightarrow> mineBlock E b = Some b"
  by (subst mineBlock_unfold) simp

lemma solved_zero [simp]: "blk_difficulty b = 0 \<Longrightarrow> solved E b"
  by (simp add: solved_def)

text \<open>A hash has 128 hex digits: no nonce meets a difficulty between 129 and \<open>2 ^ 31 - 1\<close>.\<close>

lemma mineBlock_never:
  assumes "openssl_ok E" "128 < unat (blk_difficulty b)" "unat (blk_difficulty b) < 2 ^ 31"
  shows "mineBlock E b = None"
proof -
  have "\<not> solved E (b\<lparr>blk_nonce := n\<rparr>)" for n
    using meetsDifficulty_length[OF _ assms(3), of "computeHash E (b\<lparr>blk_nonce := n\<rparr>)"]
      assms(1,2) by (auto simp: solved_def computeHash_length)
  then show ?thesis using mineBlock_ends_iff[of E b] by auto
qed

subsection \<open>Properties\<close>

lemma sample_solved: "unat (blk_difficulty b) \<le> 126 \<Longrightarrow> solved sample_env b"
  using sample_leading[of "serializeForHash b"]
  by (simp add: solved_def computeHash_def meetsDifficulty_small)

lemma sample_mine: "unat (blk_difficulty b) \<le> 126 \<Longrightarrow> mineBlock sample_env b = Some b"
  by (intro mineBlock_immediate sample_solved)

text \<open>
  C34: Specification of the nonce search. It ends if and only if some nonce solves the block, and
  then it returns the block of the first solving nonce met when counting up from the start
  modulo \<open>2 ^ 64\<close>, every other field unchanged.
\<close>

theorem mineBlock_spec:
  "(mineBlock E b = None \<longleftrightarrow> (\<forall>n. \<not> solved E (b\<lparr>blk_nonce := n\<rparr>)))
   \<and> (mineBlock E b = Some b' \<longleftrightarrow>
       (\<exists>k. b' = b\<lparr>blk_nonce := blk_nonce b + word_of_nat k\<rparr> \<and> solved E b'
          \<and> (\<forall>j<k. \<not> solved E (b\<lparr>blk_nonce := blk_nonce b + word_of_nat j\<rparr>))))"
  using mineBlock_ends_iff[of E b] mineBlock_Some_iff[of E b b'] by (metis not_None_eq)

theorem mineBlock_spec_witness: "mineBlock sample_env sample_block = Some sample_block"
proof -
  have "solved sample_env sample_block"
    by (rule sample_solved) (simp add: sample_block_def)
  then have "\<exists>k. sample_block = sample_block\<lparr>blk_nonce := blk_nonce sample_block + word_of_nat k\<rparr>
      \<and> solved sample_env sample_block
      \<and> (\<forall>j<k. \<not> solved sample_env (sample_block\<lparr>blk_nonce := blk_nonce sample_block + word_of_nat j\<rparr>))"
    by (intro exI[of _ 0]) simp
  with mineBlock_spec[of sample_env sample_block sample_block] show ?thesis by blast
qed

text \<open>
  C35: The difficulty test, for every 32-bit difficulty. Below \<open>2 ^ 31\<close> it asks for that many
  leading zero digits, which a hash of 128 digits cannot give above 128; from \<open>2 ^ 31\<close> on the
  conversion to \<^verbatim>\<open>int\<close> is negative and every hash passes.
\<close>

theorem meetsDifficulty_spec:
  "meetsDifficulty h d \<longleftrightarrow>
     (if unat d < 2 ^ 31 then unat d \<le> length h \<and> take (unat d) h = replicate (unat d) (CHR ''0'')
      else True)"
  using meetsDifficulty_wraps[of d h]
  by (simp add: meetsDifficulty_small leadingZeroHexDigits_ge_iff not_less)

text \<open>
  A difficulty between 129 and \<open>2 ^ 31 - 1\<close> stops mining for good: the search never ends.
\<close>

lemma mineBlock_diverges:
  assumes "openssl_ok E" "128 < unat (blk_difficulty b)" "unat (blk_difficulty b) < 2 ^ 31"
  shows "mineBlock E b = None"
  using assms by (rule mineBlock_never)

lemma mineBlock_diverges_example:
  "mineBlock sample_env (sample_block\<lparr>blk_difficulty := 129\<rparr>) = None"
  by (rule mineBlock_diverges[OF sample_env_ok]) simp_all

end
