(* ===== verification/Chain.thy ===== *)
theory Chain
  imports Proof_Of_Work "HOL-Library.Sublist"
begin

text \<open>
  \<^verbatim>\<open>src/blockchain/chain.hpp\<close>: the chain of one node. Every public operation runs under the
  chain's mutex, so each is one atomic function of the state; the synchronous mining loop,
  which takes the lock twice, is a loop over those operations with the other threads' work in
  between as a parameter. The vector of blocks is a list, its \<^verbatim>\<open>back()\<close> is \<open>last\<close>: no operation
  empties the list and the constructor fills it (\<open>chain_inv\<close>).
\<close>

record chain =
  chn_blocks :: "block list"
  chn_difficulty :: u32

subsection \<open>The operations\<close>

definition genesis_candidate :: "i64 \<Rightarrow> block" where
  "genesis_candidate now =
     \<lparr>blk_height = 0, blk_timestamp = now, blk_difficulty = 3, blk_nonce = 0,
      blk_previousHash = replicate 128 (CHR ''0''), blk_transactions = [''genesis'']\<rparr>"

text \<open>The constructor: \<open>None\<close> when mining the genesis block does not end.\<close>

definition new_chain :: "env \<Rightarrow> i64 \<Rightarrow> chain option" where
  "new_chain E now =
     map_option (\<lambda>g. \<lparr>chn_blocks = [g], chn_difficulty = 3\<rparr>) (mineBlock E (genesis_candidate now))"

definition buildCandidate :: "env \<Rightarrow> i64 \<Rightarrow> string list \<Rightarrow> chain \<Rightarrow> block" where
  "buildCandidate E now txLines c =
     \<lparr>blk_height = blk_height (last (chn_blocks c)) + 1, blk_timestamp = now,
      blk_difficulty = chn_difficulty c, blk_nonce = 0,
      blk_previousHash = computeHash E (last (chn_blocks c)), blk_transactions = txLines\<rparr>"

definition tryAppendMinedBlock :: "env \<Rightarrow> block \<Rightarrow> chain \<Rightarrow> bool \<times> chain" where
  "tryAppendMinedBlock E b c =
     (if blk_previousHash b \<noteq> computeHash E (last (chn_blocks c)) then (False, c)
      else if \<not> meetsDifficulty (computeHash E b) (blk_difficulty b) then (False, c)
      else (True, c\<lparr>chn_blocks := chn_blocks c @ [b]\<rparr>))"

text \<open>
  The retry loop of \<^verbatim>\<open>addTransactionAndMineSync\<close>. \<open>now i\<close> is the clock in iteration \<open>i\<close> and
  \<open>others i\<close> what the other threads do to the chain while iteration \<open>i\<close> mines without the lock.
  \<open>None\<close> is a loop that never returns.
\<close>

partial_function (option) addTransactionAndMineSync ::
  "env \<Rightarrow> (nat \<Rightarrow> i64) \<Rightarrow> (nat \<Rightarrow> chain \<Rightarrow> chain) \<Rightarrow> nat \<Rightarrow> string \<Rightarrow> chain \<Rightarrow> (block \<times> chain) option" where
  "addTransactionAndMineSync E now others i txData c =
     Option.bind (mineBlock E (buildCandidate E (now i) [txData] c)) (\<lambda>b.
       let (ok, c') = tryAppendMinedBlock E b (others i c)
       in if ok then Some (b, c')
          else addTransactionAndMineSync E now others (Suc i) txData c')"

fun isValidLocked :: "env \<Rightarrow> block list \<Rightarrow> bool" where
  "isValidLocked E (prev # cur # bs) =
     (if blk_previousHash cur \<noteq> computeHash E prev then False
      else if \<not> meetsDifficulty (computeHash E cur) (blk_difficulty cur) then False
      else isValidLocked E (cur # bs))"
| "isValidLocked E _ = True"

definition isValid :: "env \<Rightarrow> chain \<Rightarrow> bool" where
  "isValid E c = isValidLocked E (chn_blocks c)"

definition chain_height :: "chain \<Rightarrow> u64" where
  "chain_height c = blk_height (last (chn_blocks c))"

definition tipHash :: "env \<Rightarrow> chain \<Rightarrow> string" where
  "tipHash E c = computeHash E (last (chn_blocks c))"

definition setDifficulty :: "u32 \<Rightarrow> chain \<Rightarrow> chain" where
  "setDifficulty d c = c\<lparr>chn_difficulty := d\<rparr>"

definition dumpLines :: "chain \<Rightarrow> string list" where
  "dumpLines c = map block_toLine (chn_blocks c)"

definition chain_print :: "env \<Rightarrow> chain \<Rightarrow> string" where
  "chain_print E c =
     concat (map (\<lambda>b. ''Block #'' @ show_u64 (blk_height b) @
       '' | nonce='' @ show_u64 (blk_nonce b) @
       '' | hash='' @ substr (computeHash E b) 0 16 @ ''...'' @
       '' | prev='' @ substr (blk_previousHash b) 0 16 @ ''...'' @
       '' | data='' @ concat (map (\<lambda>tx. tx @ '' '') (blk_transactions b)) @ [CHR 0x0A]) (chn_blocks c))"

text \<open>The loop of \<^verbatim>\<open>replaceIfLongerAndValid\<close> over the candidate's blocks.\<close>

fun candidate_ok :: "env \<Rightarrow> block list \<Rightarrow> bool" where
  "candidate_ok E (prev # cur # bs) =
     (if blk_height cur \<noteq> blk_height prev + 1 then False
      else if blk_previousHash cur \<noteq> computeHash E prev then False
      else if \<not> meetsDifficulty (computeHash E cur) (blk_difficulty cur) then False
      else candidate_ok E (cur # bs))"
| "candidate_ok E _ = True"

definition replaceIfLongerAndValid :: "env \<Rightarrow> block list \<Rightarrow> chain \<Rightarrow> bool \<times> chain" where
  "replaceIfLongerAndValid E candidate c =
     (if candidate = [] then (False, c)
      else if length candidate \<le> length (chn_blocks c) then (False, c)
      else if blk_height (hd candidate) \<noteq> 0 then (False, c)
      else if \<not> candidate_ok E candidate then (False, c)
      else (True, c\<lparr>chn_blocks := candidate, chn_difficulty := blk_difficulty (last candidate)\<rparr>))"

subsection \<open>What a valid chain is\<close>

text \<open>
  The reference definition: by position, every block after the first names its predecessor's
  hash and meets its own difficulty; and the heights count up from zero.
\<close>

definition links_to :: "env \<Rightarrow> block \<Rightarrow> block \<Rightarrow> bool" where
  "links_to E prev cur \<longleftrightarrow> blk_previousHash cur = computeHash E prev \<and> solved E cur"

definition valid_chain :: "env \<Rightarrow> block list \<Rightarrow> bool" where
  "valid_chain E bs \<longleftrightarrow> (\<forall>i. Suc i < length bs \<longrightarrow> links_to E (bs ! i) (bs ! Suc i))"

definition heights_count :: "block list \<Rightarrow> bool" where
  "heights_count bs \<longleftrightarrow> (\<forall>i < length bs. blk_height (bs ! i) = word_of_nat i)"

definition chain_inv :: "env \<Rightarrow> chain \<Rightarrow> bool" where
  "chain_inv E c \<longleftrightarrow> chn_blocks c \<noteq> [] \<and> valid_chain E (chn_blocks c)"

lemma valid_chain_simps [simp]:
  "valid_chain E []" "valid_chain E [b]"
  "valid_chain E (a # b # bs) \<longleftrightarrow> links_to E a b \<and> valid_chain E (b # bs)"
  by (auto simp: valid_chain_def nth_Cons split: nat.split)

lemma isValidLocked_iff: "isValidLocked E bs \<longleftrightarrow> valid_chain E bs"
  by (induction E bs rule: isValidLocked.induct) (auto simp: links_to_def solved_def)

lemma isValid_iff: "isValid E c \<longleftrightarrow> valid_chain E (chn_blocks c)"
  by (simp add: isValid_def isValidLocked_iff)

lemma valid_chain_snoc:
  "bs \<noteq> [] \<Longrightarrow> valid_chain E (bs @ [b]) \<longleftrightarrow> valid_chain E bs \<and> links_to E (last bs) b"
  by (induction E bs rule: isValidLocked.induct) (auto simp: links_to_def solved_def)

lemma heights_count_snoc:
  "heights_count (bs @ [b]) \<longleftrightarrow> heights_count bs \<and> blk_height b = word_of_nat (length bs)"
  by (auto simp: heights_count_def nth_append less_Suc_eq)

lemma heights_count_last:
  "heights_count bs \<Longrightarrow> bs \<noteq> [] \<Longrightarrow> blk_height (last bs) = word_of_nat (length bs - 1)"
  by (simp add: heights_count_def last_conv_nth)

fun heights_step :: "block list \<Rightarrow> bool" where
  "heights_step (a # b # bs) \<longleftrightarrow> blk_height b = blk_height a + 1 \<and> heights_step (b # bs)"
| "heights_step _ \<longleftrightarrow> True"

lemma heights_step_snoc:
  "bs \<noteq> [] \<Longrightarrow>
   heights_step (bs @ [b]) \<longleftrightarrow> heights_step bs \<and> blk_height b = blk_height (last bs) + 1"
  by (induction bs rule: heights_step.induct) auto

lemma candidate_ok_iff: "candidate_ok E bs \<longleftrightarrow> valid_chain E bs \<and> heights_step bs"
  by (induction E bs rule: candidate_ok.induct) (auto simp: links_to_def solved_def)

lemma heights_step_count:
  "bs \<noteq> [] \<Longrightarrow> heights_count bs \<longleftrightarrow> blk_height (hd bs) = 0 \<and> heights_step bs"
proof (induction bs rule: rev_induct)
  case Nil
  then show ?case by simp
next
  case (snoc b bs)
  show ?case
  proof (cases "bs = []")
    case True
    then show ?thesis by (simp add: heights_count_def)
  next
    case False
    with snoc.IH have "blk_height (last bs) + 1 = word_of_nat (length bs)"
      if "heights_count bs"
      using heights_count_last[OF that False] False by (simp add: of_nat_diff Suc_leI)
    with False snoc.IH show ?thesis
      by (auto simp: heights_count_snoc heights_step_snoc)
  qed
qed

subsection \<open>What each operation does\<close>

lemma new_chain_Some:
  assumes "new_chain E now = Some c"
  obtains g where "c = \<lparr>chn_blocks = [g], chn_difficulty = 3\<rparr>" "solved E g"
    "blk_height g = 0" "blk_transactions g = [''genesis'']" "blk_difficulty g = 3"
  using assms mineBlock_solved mineBlock_frame
  by (fastforce simp: new_chain_def genesis_candidate_def)

lemma new_chain_inv:
  "new_chain E now = Some c \<Longrightarrow> chain_inv E c \<and> heights_count (chn_blocks c)"
  by (erule new_chain_Some) (simp add: chain_inv_def heights_count_def)

lemma tryAppend_iff:
  "fst (tryAppendMinedBlock E b c) \<longleftrightarrow> links_to E (last (chn_blocks c)) b"
  by (auto simp: tryAppendMinedBlock_def links_to_def solved_def)

lemma tryAppend_state:
  "snd (tryAppendMinedBlock E b c) =
     (if links_to E (last (chn_blocks c)) b then c\<lparr>chn_blocks := chn_blocks c @ [b]\<rparr> else c)"
  by (auto simp: tryAppendMinedBlock_def links_to_def solved_def)

lemma tryAppend_eq:
  "tryAppendMinedBlock E b c =
     (if links_to E (last (chn_blocks c)) b then (True, c\<lparr>chn_blocks := chn_blocks c @ [b]\<rparr>)
      else (False, c))"
  by (auto simp: tryAppendMinedBlock_def links_to_def solved_def)

lemma tryAppend_inv: "chain_inv E c \<Longrightarrow> chain_inv E (snd (tryAppendMinedBlock E b c))"
  by (simp add: chain_inv_def tryAppend_state valid_chain_snoc)

text \<open>A mined candidate links to the tip it was built on, and is the next block in height.\<close>

lemma mined_candidate:
  assumes "mineBlock E (buildCandidate E now txs c) = Some b"
  shows "links_to E (last (chn_blocks c)) b" "blk_transactions b = txs"
    "blk_height b = chain_height c + 1" "blk_difficulty b = chn_difficulty c"
    "blk_previousHash b = tipHash E c" "solved E b"
  using mineBlock_frame[OF assms] mineBlock_solved[OF assms]
  by (simp_all add: links_to_def buildCandidate_def chain_height_def tipHash_def)

lemma tryAppend_heights:
  assumes "heights_count (chn_blocks c)" "chn_blocks c \<noteq> []"
    "blk_height b = chain_height c + 1"
  shows "heights_count (chn_blocks (snd (tryAppendMinedBlock E b c)))"
proof -
  have "chain_height c + 1 = word_of_nat (length (chn_blocks c))"
    using assms(1,2) heights_count_last[of "chn_blocks c"]
    by (simp add: chain_height_def of_nat_diff Suc_leI)
  with assms(1,3) show ?thesis by (simp add: tryAppend_state heights_count_snoc)
qed

lemma replace_iff:
  "fst (replaceIfLongerAndValid E cand c) \<longleftrightarrow>
     length (chn_blocks c) < length cand \<and> valid_chain E cand \<and> heights_count cand"
  using heights_step_count[of cand]
  by (auto simp: replaceIfLongerAndValid_def candidate_ok_iff)

lemma replace_eq:
  "replaceIfLongerAndValid E cand c =
     (if length (chn_blocks c) < length cand \<and> valid_chain E cand \<and> heights_count cand
      then (True, \<lparr>chn_blocks = cand, chn_difficulty = blk_difficulty (last cand)\<rparr>)
      else (False, c))"
  using heights_step_count[of cand]
  by (cases c) (auto simp: replaceIfLongerAndValid_def candidate_ok_iff)

lemma replace_inv:
  assumes "chain_inv E c"
  shows "chain_inv E (snd (replaceIfLongerAndValid E cand c))"
  using assms by (auto simp: replace_eq chain_inv_def)

lemma replace_heights:
  "heights_count (chn_blocks c) \<Longrightarrow>
   heights_count (chn_blocks (snd (replaceIfLongerAndValid E cand c)))"
  by (simp add: replace_eq)

lemma setDifficulty_inv [simp]: "chain_inv E (setDifficulty d c) = chain_inv E c"
  by (simp add: setDifficulty_def chain_inv_def)

text \<open>No operation makes the chain shorter.\<close>

lemma chain_grows:
  "length (chn_blocks c) \<le> length (chn_blocks (snd (tryAppendMinedBlock E b c)))"
  "length (chn_blocks c) \<le> length (chn_blocks (snd (replaceIfLongerAndValid E cand c)))"
  "length (chn_blocks c) \<le> length (chn_blocks (setDifficulty d c))"
  by (simp_all add: tryAppend_state replace_eq setDifficulty_def)

subsection \<open>The synchronous mining loop\<close>

lemma addSync_unfold:
  "addTransactionAndMineSync E now others i tx c =
     (case mineBlock E (buildCandidate E (now i) [tx] c) of
        None \<Rightarrow> None
      | Some b \<Rightarrow>
          (if links_to E (last (chn_blocks (others i c))) b
           then Some (b, (others i c)\<lparr>chn_blocks := chn_blocks (others i c) @ [b]\<rparr>)
           else addTransactionAndMineSync E now others (Suc i) tx (others i c)))"
  by (subst addTransactionAndMineSync.simps)
    (auto simp: tryAppend_eq split: option.split)

text \<open>Without interference the first attempt succeeds.\<close>

lemma addSync_undisturbed:
  assumes "mineBlock E (buildCandidate E (now i) [tx] c) = Some b" "others i c = c"
  shows "addTransactionAndMineSync E now others i tx c =
    Some (b, c\<lparr>chn_blocks := chn_blocks c @ [b]\<rparr>)"
  using assms mined_candidate(1)[OF assms(1)] by (simp add: addSync_unfold)

text \<open>
  If every candidate can be mined and the other threads leave the chain alone from some
  iteration on, the loop returns; \<open>I\<close> is what the other threads keep of the chain.
\<close>

lemma addSync_returns:
  assumes mines: "\<And>j c. I c \<Longrightarrow> mineBlock E (buildCandidate E (now j) [tx] c) \<noteq> None"
    and keeps: "\<And>j c. I c \<Longrightarrow> I (others j c)"
    and quiet: "\<And>j c. n \<le> j \<Longrightarrow> others j c = c"
    and "I c"
  shows "\<exists>b c'. addTransactionAndMineSync E now others i tx c = Some (b, c')"
  using \<open>I c\<close>
proof (induction "n - i" arbitrary: i c)
  case 0
  from mines[OF \<open>I c\<close>] obtain b
    where "mineBlock E (buildCandidate E (now i) [tx] c) = Some b" by blast
  with quiet[of i c] 0 show ?case by (auto dest: addSync_undisturbed)
next
  case (Suc m)
  from mines[OF \<open>I c\<close>] obtain b
    where "mineBlock E (buildCandidate E (now i) [tx] c) = Some b" by blast
  moreover from Suc.hyps(2) keeps[OF \<open>I c\<close>]
  have "\<exists>b c'. addTransactionAndMineSync E now others (Suc i) tx (others i c) = Some (b, c')"
    by (intro Suc.hyps(1)) simp_all
  ultimately show ?case by (auto simp: addSync_unfold[of E now others i])
qed

text \<open>
  What the loop returns, however often the tip moved: a block that links to the tip of a state
  the other threads have brought about.
\<close>

lemma addSync_result:
  assumes "addTransactionAndMineSync E now others i tx c = Some r"
  shows "\<exists>b c0. r = (b, c0\<lparr>chn_blocks := chn_blocks c0 @ [b]\<rparr>)
    \<and> links_to E (last (chn_blocks c0)) b \<and> blk_transactions b = [tx]
    \<and> (\<lambda>d d'. \<exists>j. d' = others j d)\<^sup>*\<^sup>* c c0"
proof (rule addTransactionAndMineSync.raw_induct
    [where P = "\<lambda>E now others i tx c r. \<exists>b c0. r = (b, c0\<lparr>chn_blocks := chn_blocks c0 @ [b]\<rparr>)
    \<and> links_to E (last (chn_blocks c0)) b \<and> blk_transactions b = [tx]
    \<and> (\<lambda>d d'. \<exists>j. d' = others j d)\<^sup>*\<^sup>* c c0", OF _ assms], goal_cases)
  case (1 rec E now others i tx c r)
  from 1(2) obtain b where b: "mineBlock E (buildCandidate E (now i) [tx] c) = Some b"
    by (auto simp: bind_eq_Some_conv)
  show ?case
  proof (cases "links_to E (last (chn_blocks (others i c))) b")
    case True
    with 1(2) b have "r = (b, (others i c)\<lparr>chn_blocks := chn_blocks (others i c) @ [b]\<rparr>)"
      by (simp add: tryAppend_eq)
    moreover have "(\<lambda>d d'. \<exists>j. d' = others j d)\<^sup>*\<^sup>* c (others i c)" by blast
    ultimately show ?thesis using True mined_candidate(2)[OF b] by blast
  next
    case False
    with 1(2) b have "rec E now others (Suc i) tx (others i c) = Some r"
      by (simp add: tryAppend_eq)
    from 1(1)[OF this] obtain b' c0
      where r: "r = (b', c0\<lparr>chn_blocks := chn_blocks c0 @ [b']\<rparr>)"
        "links_to E (last (chn_blocks c0)) b'" "blk_transactions b' = [tx]"
        and s: "(\<lambda>d d'. \<exists>j. d' = others j d)\<^sup>*\<^sup>* (others i c) c0"
      by blast
    from s have "(\<lambda>d d'. \<exists>j. d' = others j d)\<^sup>*\<^sup>* c c0"
      by (rule converse_rtranclp_into_rtranclp[rotated]) blast
    with r show ?thesis by blast
  qed
qed

lemma addSync_inv:
  assumes "addTransactionAndMineSync E now others i tx c = Some (b, c')" "chain_inv E c"
    and "\<And>j d. chain_inv E d \<Longrightarrow> chain_inv E (others j d)"
  shows "chain_inv E c'" "last (chn_blocks c') = b" "blk_transactions b = [tx]" "solved E b"
proof -
  obtain c0 where c': "c' = c0\<lparr>chn_blocks := chn_blocks c0 @ [b]\<rparr>"
    and l: "links_to E (last (chn_blocks c0)) b" "blk_transactions b = [tx]"
    and s: "(\<lambda>d d'. \<exists>j. d' = others j d)\<^sup>*\<^sup>* c c0"
    using addSync_result[OF assms(1)] by auto
  from s assms(2) have "chain_inv E c0"
    by (induction rule: rtranclp_induct) (auto intro: assms(3))
  with c' l show "chain_inv E c'" "last (chn_blocks c') = b" "blk_transactions b = [tx]" "solved E b"
    by (auto simp: chain_inv_def valid_chain_snoc links_to_def)
qed

subsection \<open>Tamper evidence\<close>

text \<open>
  The interface between a block and a chain of blocks linked by hashes: the hash is a digest
  of a text, and the text determines the block.
\<close>

locale hash_linked =
  fixes ser :: "'b \<Rightarrow> string" and prev :: "'b \<Rightarrow> string" and digest :: "string \<Rightarrow> string"
    and good :: "'b \<Rightarrow> bool"
  assumes ser_inj: "good a \<Longrightarrow> good b \<Longrightarrow> ser a = ser b \<Longrightarrow> a = b"
begin

text \<open>
  Of two lists linked by hashes whose last elements have the same hash, the shorter is the end of
  the longer, if no two of their elements have the same hash.
\<close>

lemma tip_determines_suffix:
  assumes "\<And>i. Suc i < length xs \<Longrightarrow> prev (xs ! Suc i) = digest (ser (xs ! i))"
    and "\<And>i. Suc i < length ys \<Longrightarrow> prev (ys ! Suc i) = digest (ser (ys ! i))"
    and "xs \<noteq> [] \<Longrightarrow> ys \<noteq> [] \<Longrightarrow> digest (ser (last xs)) = digest (ser (last ys))"
    and "inj_on (\<lambda>a. digest (ser a)) (set xs \<union> set ys)"
  shows "suffix xs ys \<or> suffix ys xs"
  using assms
proof (induction xs arbitrary: ys rule: rev_induct)
  case Nil
  then show ?case by simp
next
  case (snoc a xs)
  show ?case
  proof (cases ys rule: rev_cases)
    case Nil
    then show ?thesis by simp
  next
    case (snoc ys' b)
    have "digest (ser a) = digest (ser b)" using snoc.prems(3) snoc by simp
    then have ab: "a = b" by (rule inj_onD[OF snoc.prems(4)]) (use snoc in auto)
    have "suffix xs ys' \<or> suffix ys' xs"
    proof (rule snoc.IH)
      show "prev (xs ! Suc i) = digest (ser (xs ! i))" if "Suc i < length xs" for i
        using snoc.prems(1)[of i] that by (simp add: nth_append)
      show "prev (ys' ! Suc i) = digest (ser (ys' ! i))" if "Suc i < length ys'" for i
        using snoc.prems(2)[of i] that snoc by (simp add: nth_append)
      show "digest (ser (last xs)) = digest (ser (last ys'))" if "xs \<noteq> []" "ys' \<noteq> []"
        using snoc.prems(1)[of "length xs - 1"] snoc.prems(2)[of "length ys' - 1"] that ab snoc
        by (simp add: nth_append last_conv_nth)
      show "inj_on (\<lambda>a. digest (ser a)) (set xs \<union> set ys')"
        using snoc.prems(4) by (rule inj_on_subset) (use snoc in auto)
    qed
    with ab snoc show ?thesis by auto
  qed
qed

text \<open>What a clash takes.\<close>

lemma clash_cause:
  "digest (ser a) = digest (ser b) \<Longrightarrow> a \<noteq> b \<Longrightarrow> ser a \<noteq> ser b \<or> \<not> good a \<or> \<not> good b"
  using ser_inj by blast

end

interpretation blk_hash: hash_linked serializeForHash blk_previousHash
  "\<lambda>s. toHex (sha512d E s)" block_hash_ok for E
  by unfold_locales (auto intro: serializeForHash_inj)

text \<open>
  Two different blocks among \<open>bs\<close> with the same hash: the digest collides on their texts, or the
  texts are the same, which takes a semicolon in a transaction or a bar in a previous hash.
\<close>

definition hash_clash :: "env \<Rightarrow> block set \<Rightarrow> bool" where
  "hash_clash E bs \<longleftrightarrow> (\<exists>a \<in> bs. \<exists>b \<in> bs. a \<noteq> b \<and> computeHash E a = computeHash E b
     \<and> (serializeForHash a \<noteq> serializeForHash b \<and> sha512d E (serializeForHash a) = sha512d E (serializeForHash b)
        \<or> \<not> block_hash_ok a \<or> \<not> block_hash_ok b))"

lemma no_clash_inj: "\<not> hash_clash E bs \<Longrightarrow> inj_on (computeHash E) bs"
  using blk_hash.clash_cause[of E] unfolding hash_clash_def inj_on_def computeHash_digest
  by (metis computeHash_def)

lemma hash_clash_different: "hash_clash E bs \<Longrightarrow> \<not> inj_on (computeHash E) bs"
  by (auto simp: hash_clash_def inj_on_def)

lemma valid_chain_tip_suffix:
  assumes "valid_chain E xs" "valid_chain E ys" "computeHash E (last xs) = computeHash E (last ys)"
    and "\<not> hash_clash E (set xs \<union> set ys)"
  shows "suffix xs ys \<or> suffix ys xs"
proof (rule blk_hash.tip_determines_suffix[of xs E ys])
  show "inj_on (\<lambda>a. toHex (sha512d E (serializeForHash a))) (set xs \<union> set ys)"
    using no_clash_inj[OF assms(4)] by (simp add: computeHash_def[abs_def])
qed (use assms in \<open>auto simp: valid_chain_def links_to_def computeHash_def\<close>)

lemma suffix_same_length: "suffix xs ys \<or> suffix ys xs \<Longrightarrow> length xs = length ys \<Longrightarrow> xs = ys"
  by (auto simp: suffix_def)

subsection \<open>Sending a chain as lines\<close>

text \<open>A chain dumped as lines and decoded again is the same list of blocks.\<close>

lemma dumpLines_roundtrip:
  "\<forall>b \<in> set (chn_blocks c). block_wire_ok b \<Longrightarrow>
   map_res (block_fromLine dm) (dumpLines c) = Inr (chn_blocks c)"
  unfolding dumpLines_def by (rule blk.dec_enc_list)

subsection \<open>Interface: the chain as a transition system\<close>

text \<open>The state changes of the class: appending, replacing, setting the difficulty.\<close>

inductive chain_step :: "env \<Rightarrow> chain \<Rightarrow> chain \<Rightarrow> bool" for E :: env where
  append: "chain_step E c (snd (tryAppendMinedBlock E b c))"
| replace: "chain_step E c (snd (replaceIfLongerAndValid E cand c))"
| set_difficulty: "chain_step E c (setDifficulty d c)"

definition chain_init :: "env \<Rightarrow> chain \<Rightarrow> bool" where
  "chain_init E c \<longleftrightarrow> (\<exists>now. new_chain E now = Some c)"

inductive_cases chain_stepE: "chain_step E c c'"

interpretation chn: invariant_system "chain_init E" "chain_step E" "chain_inv E" for E
proof unfold_locales
  show "chain_init E c \<Longrightarrow> chain_inv E c" for c
    by (auto simp: chain_init_def dest: new_chain_inv)
  show "chain_inv E c \<Longrightarrow> chain_step E c c' \<Longrightarrow> chain_inv E c'" for c c'
    by (auto elim!: chain_stepE intro: tryAppend_inv replace_inv)
qed

lemma chain_step_grows:
  "(chain_step E)\<^sup>*\<^sup>* c c' \<Longrightarrow> length (chn_blocks c) \<le> length (chn_blocks c')"
proof (induction rule: rtranclp_induct)
  case base
  then show ?case by simp
next
  case (step c' c'')
  from step(2) have "length (chn_blocks c') \<le> length (chn_blocks c'')"
    by (auto elim!: chain_stepE simp: chain_grows)
  with step(3) show ?case by simp
qed

subsection \<open>Properties\<close>

definition sample_genesis :: block where
  "sample_genesis = genesis_candidate 1700000000"

definition sample_chain :: chain where
  "sample_chain = \<lparr>chn_blocks = [sample_genesis], chn_difficulty = 3\<rparr>"

definition sample_next :: block where
  "sample_next = buildCandidate sample_env 1700000060 [''COINBASE|m|50''] sample_chain"

lemma sample_new_chain: "new_chain sample_env 1700000000 = Some sample_chain"
  by (simp add: new_chain_def sample_mine genesis_candidate_def sample_chain_def sample_genesis_def)

lemma sample_chain_inv: "chain_inv sample_env sample_chain" "heights_count (chn_blocks sample_chain)"
  using new_chain_inv[OF sample_new_chain] by simp_all

lemma sample_mined: "mineBlock sample_env sample_next = Some sample_next"
  by (rule sample_mine) (simp add: sample_next_def buildCandidate_def sample_chain_def)

lemma sample_links: "links_to sample_env sample_genesis sample_next"
  using mined_candidate(1)[OF sample_mined[unfolded sample_next_def]]
  by (simp add: sample_next_def sample_chain_def)

lemma sample_two_blocks:
  "valid_chain sample_env [sample_genesis, sample_next]" "heights_count [sample_genesis, sample_next]"
  using sample_links
  by (simp_all add: heights_count_def nth_Cons sample_genesis_def genesis_candidate_def sample_next_def
      buildCandidate_def sample_chain_def less_2_cases_iff split: nat.split)

text \<open>
  C14: Fork choice. A candidate replaces the local chain if and only if it is strictly longer, each
  of its blocks after the first names its predecessor's hash and meets its own difficulty, and
  its heights count up from zero; the node then holds exactly the candidate and takes over the
  difficulty of its last block. Otherwise nothing changes.
\<close>

theorem replace_spec:
  "replaceIfLongerAndValid E cand c =
     (if length (chn_blocks c) < length cand
         \<and> (\<forall>i. Suc i < length cand \<longrightarrow>
              blk_previousHash (cand ! Suc i) = computeHash E (cand ! i)
              \<and> meetsDifficulty (computeHash E (cand ! Suc i)) (blk_difficulty (cand ! Suc i)))
         \<and> (\<forall>i < length cand. blk_height (cand ! i) = word_of_nat i)
      then (True, \<lparr>chn_blocks = cand, chn_difficulty = blk_difficulty (last cand)\<rparr>)
      else (False, c))"
  by (simp add: replace_eq valid_chain_def links_to_def solved_def heights_count_def)

theorem replace_spec_witness:
  "fst (replaceIfLongerAndValid sample_env [sample_genesis, sample_next] sample_chain)"
proof -
  let ?cand = "[sample_genesis, sample_next]"
  have "length (chn_blocks sample_chain) < length ?cand" by (simp add: sample_chain_def)
  moreover have "\<forall>i. Suc i < length ?cand \<longrightarrow>
      blk_previousHash (?cand ! Suc i) = computeHash sample_env (?cand ! i)
      \<and> meetsDifficulty (computeHash sample_env (?cand ! Suc i)) (blk_difficulty (?cand ! Suc i))"
    using sample_two_blocks(1) unfolding valid_chain_def links_to_def solved_def .
  moreover have "\<forall>i < length ?cand. blk_height (?cand ! i) = word_of_nat i"
    using sample_two_blocks(2) unfolding heights_count_def .
  ultimately show ?thesis by (subst replace_spec) simp
qed

text \<open>
  C13: Safety of the chain. In every state that the constructor and any sequence of appends (of any
  block, from any thread), replacements (by any candidate, from any peer) and difficulty
  settings can reach, the chain is not empty and the \<^verbatim>\<open>validate\<close> check succeeds.
\<close>

theorem chain_always_valid:
  assumes "reach_from (chain_init E) (chain_step E) c"
  shows "chn_blocks c \<noteq> [] \<and> isValid E c"
  using chn.reach_inv[OF assms] by (simp add: chain_inv_def isValid_iff)

theorem chain_always_valid_witness:
  "isValid sample_env (setDifficulty 0 (snd (tryAppendMinedBlock sample_env sample_next sample_chain)))"
proof -
  let ?c = "snd (tryAppendMinedBlock sample_env sample_next sample_chain)"
  have "reach_from (chain_init sample_env) (chain_step sample_env) sample_chain"
    using sample_new_chain by (intro reach_init) (auto simp: chain_init_def)
  then have "reach_from (chain_init sample_env) (chain_step sample_env) ?c"
    by (rule reach_step) (rule chain_step.append)
  then have "reach_from (chain_init sample_env) (chain_step sample_env) (setDifficulty 0 ?c)"
    by (rule reach_step) (rule chain_step.set_difficulty)
  from chain_always_valid[OF this] show ?thesis by simp
qed

text \<open>
  C15: Tamper evidence. Of two non-empty valid chains whose tips have the same hash the shorter one is
  the end of the longer, block for block, so that chains of the same length are the same, unless
  two different blocks of theirs have the same hash. That takes a collision of the digest on
  different texts, or a block that is not \<open>block_hash_ok\<close>: one with a semicolon in a
  transaction, or a bar in its previous hash, which only a first block can hold. With a
  semicolon it does happen, whatever the digest (\<open>serialize_ambiguous\<close>).
\<close>

theorem tip_hash_commits:
  assumes "isValid E c" "isValid E c'" "chn_blocks c \<noteq> []" "chn_blocks c' \<noteq> []" "tipHash E c = tipHash E c'"
  shows "(suffix (chn_blocks c) (chn_blocks c') \<or> suffix (chn_blocks c') (chn_blocks c))
      \<and> (length (chn_blocks c) = length (chn_blocks c') \<longrightarrow> chn_blocks c = chn_blocks c')
    \<or> (\<exists>a \<in> set (chn_blocks c) \<union> set (chn_blocks c'). \<exists>b \<in> set (chn_blocks c) \<union> set (chn_blocks c').
         a \<noteq> b \<and> computeHash E a = computeHash E b
         \<and> (serializeForHash a \<noteq> serializeForHash b \<and> sha512d E (serializeForHash a) = sha512d E (serializeForHash b)
            \<or> \<not> block_hash_ok a \<or> \<not> block_hash_ok b))"
proof (cases "hash_clash E (set (chn_blocks c) \<union> set (chn_blocks c'))")
  case True
  then show ?thesis unfolding hash_clash_def by blast
next
  case False
  have "suffix (chn_blocks c) (chn_blocks c') \<or> suffix (chn_blocks c') (chn_blocks c)"
    using assms False by (intro valid_chain_tip_suffix[of E]) (simp_all add: isValid_iff tipHash_def)
  then show ?thesis using suffix_same_length by blast
qed

lemma sample_tampered:
  "sha512d sample_env (serializeForHash sample_genesis) \<noteq>
   sha512d sample_env (serializeForHash (sample_genesis\<lparr>blk_nonce := 1\<rparr>))"
  by (simp add: sample_sha512d serializeForHash_def header_text_def sample_checksum_def
      sample_genesis_def genesis_candidate_def show_u64_def show_u32_def show_i64_def show_int_def
      show_nat.simps digit_char_def sum_list_replicate)

theorem tip_hash_commits_witness:
  "tipHash sample_env sample_chain \<noteq>
   tipHash sample_env (sample_chain\<lparr>chn_blocks := [sample_genesis\<lparr>blk_nonce := 1\<rparr>]\<rparr>)"
proof
  let ?c' = "sample_chain\<lparr>chn_blocks := [sample_genesis\<lparr>blk_nonce := 1\<rparr>]\<rparr>"
  assume t: "tipHash sample_env sample_chain = tipHash sample_env ?c'"
  have v: "isValid sample_env sample_chain" "isValid sample_env ?c'" "chn_blocks sample_chain \<noteq> []" "chn_blocks ?c' \<noteq> []"
    by (simp_all add: isValid_def sample_chain_def)
  have "computeHash sample_env sample_genesis \<noteq> computeHash sample_env (sample_genesis\<lparr>blk_nonce := 1\<rparr>)"
    using sample_tampered by (simp add: computeHash_digest)
  then have "chn_blocks sample_chain = chn_blocks ?c'"
    using tip_hash_commits[OF v t] by (auto simp: sample_chain_def)
  then show False by (simp add: sample_chain_def sample_genesis_def genesis_candidate_def)
qed

text \<open>
  The synchronous mining command returns. If at the chain's difficulty every block has a
  solving nonce, and the other threads do not change the difficulty and leave the chain alone
  from some iteration on, the retry loop ends with a block.
\<close>

lemma addSync_terminates:
  assumes "\<forall>b. blk_difficulty b = chn_difficulty c \<longrightarrow> (\<exists>nonce. solved E (b\<lparr>blk_nonce := nonce\<rparr>))"
    and "\<forall>j d. chn_difficulty (others j d) = chn_difficulty d"
    and "\<forall>j d. n \<le> j \<longrightarrow> others j d = d"
  shows "\<exists>b c'. addTransactionAndMineSync E now others 0 tx c = Some (b, c')"
proof (rule addSync_returns[where n = n and I = "\<lambda>d. chn_difficulty d = chn_difficulty c"])
  fix j and d :: chain assume "chn_difficulty d = chn_difficulty c"
  then have "\<exists>nonce. solved E ((buildCandidate E (now j) [tx] d)\<lparr>blk_nonce := nonce\<rparr>)"
    by (intro assms(1)[rule_format]) (simp add: buildCandidate_def)
  then show "mineBlock E (buildCandidate E (now j) [tx] d) \<noteq> None"
    using mineBlock_ends_iff by (metis option.distinct(1))
qed (use assms(2,3) in auto)

text \<open>An interfering thread: during the first iteration it appends a block of its own.\<close>

definition sample_others :: "nat \<Rightarrow> chain \<Rightarrow> chain" where
  "sample_others j c = (if j < 1 then snd (tryAppendMinedBlock sample_env sample_next c) else c)"

lemma addSync_terminates_example:
  "\<exists>b c'. addTransactionAndMineSync sample_env (\<lambda>_. 5) sample_others 0 ''hi'' sample_chain = Some (b, c')"
proof (rule addSync_terminates[where n = 1])
  show "\<forall>b. blk_difficulty b = chn_difficulty sample_chain \<longrightarrow>
      (\<exists>nonce. solved sample_env (b\<lparr>blk_nonce := nonce\<rparr>))"
    by (auto simp: sample_chain_def intro!: sample_solved)
qed (simp_all add: sample_others_def tryAppend_state)

text \<open>
  What it returns, however the other threads interleave. The block holds exactly the given
  text, solves its difficulty and is the tip of the chain the call leaves behind, which is valid
  whenever the other threads keep the chain valid.
\<close>

lemma addSync_correct:
  assumes "addTransactionAndMineSync E now others 0 tx c = Some (b, c')"
    and "chain_inv E c" "\<forall>j d. chain_inv E d \<longrightarrow> chain_inv E (others j d)"
  shows "isValid E c' \<and> last (chn_blocks c') = b \<and> blk_transactions b = [tx] \<and> solved E b"
  using addSync_inv[OF assms(1,2)] assms(3) by (simp add: chain_inv_def isValid_iff)

lemma addSync_correct_example:
  "\<exists>b c'. addTransactionAndMineSync sample_env (\<lambda>_. 5) (\<lambda>_ d. d) 0 ''hi'' sample_chain = Some (b, c')
     \<and> blk_transactions b = [''hi''] \<and> isValid sample_env c'"
proof -
  let ?b = "buildCandidate sample_env 5 [''hi''] sample_chain"
  have "mineBlock sample_env ?b = Some ?b"
    by (rule sample_mine) (simp add: buildCandidate_def sample_chain_def)
  then have r: "addTransactionAndMineSync sample_env (\<lambda>_. 5) (\<lambda>_ d. d) 0 ''hi'' sample_chain =
      Some (?b, sample_chain\<lparr>chn_blocks := chn_blocks sample_chain @ [?b]\<rparr>)"
    by (intro addSync_undisturbed) simp_all
  from addSync_correct[OF r sample_chain_inv(1)] r show ?thesis by blast
qed

end
