(* ===== verification/Net.thy ===== *)
theory Net
  imports Number_Text
begin

text \<open>
  \<^verbatim>\<open>src/net/sockets_compat.hpp\<close>: sending a text with partial sends, reading a line byte by byte,
  and the buffered reader. The operating system's calls are not part of the repository. A
  connection is the list of what its calls will return: for \<^verbatim>\<open>recv\<close> the texts received, an
  empty text standing for a result that is not positive, and for \<^verbatim>\<open>send\<close> the numbers returned.
  Calls past the end of a list fail, as on a closed connection.
\<close>

type_synonym recvs = "string list"
type_synonym sends = "int list"

subsection \<open>Sending\<close>

text \<open>
  The loop of \<^verbatim>\<open>sendAll\<close> from offset \<open>sent\<close>. The second result is what the calls handed over: a
  call that returns \<open>n\<close> has taken the first \<open>n\<close> bytes it was offered.
\<close>

fun sendAll_from :: "string \<Rightarrow> nat \<Rightarrow> sends \<Rightarrow> bool \<times> string" where
  "sendAll_from data sent [] = (length data \<le> sent, [])"
| "sendAll_from data sent (n # ns) =
     (if sent < length data
      then if n \<le> 0 then (False, [])
           else (case sendAll_from data (sent + nat n) ns of (ok, wire) \<Rightarrow>
                   (ok, take (nat n) (drop sent data) @ wire))
      else (True, []))"

definition sendAll :: "sends \<Rightarrow> string \<Rightarrow> bool \<times> string" where
  "sendAll ns data = sendAll_from data 0 ns"

text \<open>No call returns more than it was offered.\<close>

fun sends_ok :: "nat \<Rightarrow> sends \<Rightarrow> bool" where
  "sends_ok offered [] = True"
| "sends_ok offered (n # ns) \<longleftrightarrow> n \<le> int offered \<and> sends_ok (offered - nat n) ns"

lemma sendAll_from_wire:
  assumes "sends_ok (length data - sent) ns"
  shows "(case sendAll_from data sent ns of (ok, wire) \<Rightarrow>
    (\<exists>rest. drop sent data = wire @ rest \<and> (ok \<longleftrightarrow> rest = [])))"
  using assms
proof (induction data sent ns rule: sendAll_from.induct)
  case (1 data sent)
  then show ?case by simp
next
  case (2 data sent n ns)
  show ?case
  proof (cases "sent < length data \<and> 0 < n")
    case True
    then have "length data - (sent + nat n) = length data - sent - nat n" by simp
    moreover have "sent < length data" "\<not> n \<le> 0" using True by simp_all
    moreover obtain ok wire where w: "sendAll_from data (sent + nat n) ns = (ok, wire)"
      by (cases "sendAll_from data (sent + nat n) ns")
    ultimately obtain rest where *: "drop (sent + nat n) data = wire @ rest" "ok \<longleftrightarrow> rest = []"
      using "2.IH" "2.prems" by auto
    have "drop sent data = take (nat n) (drop sent data) @ drop (sent + nat n) data"
      by (metis append_take_drop_id drop_drop add.commute)
    with * w True show ?thesis by (auto intro!: exI[of _ rest])
  next
    case False
    then show ?thesis by (auto simp: not_less)
  qed
qed

text \<open>What is put on the connection: as many bytes as the calls before the first failure took.\<close>

lemma sendAll_from_bytes:
  "snd (sendAll_from data sent ns) = take (nat (sum_list (takeWhile (\<lambda>n. 0 < n) ns))) (drop sent data)"
proof (induction data sent ns rule: sendAll_from.induct)
  case (2 data sent n ns)
  show ?case
  proof (cases "sent < length data \<and> 0 < n")
    case True
    then have IH: "snd (sendAll_from data (sent + nat n) ns)
        = take (nat (sum_list (takeWhile (\<lambda>n. 0 < n) ns))) (drop (sent + nat n) data)"
      using "2.IH" by simp
    have "0 \<le> sum_list (takeWhile (\<lambda>n. 0 < n) ns)"
      by (intro sum_list_nonneg) (auto dest: set_takeWhileD)
    then have "nat (n + sum_list (takeWhile (\<lambda>n. 0 < n) ns)) = nat n + nat (sum_list (takeWhile (\<lambda>n. 0 < n) ns))"
      using True by (simp add: nat_add_distrib)
    with True IH show ?thesis by (simp add: case_prod_beta take_add drop_drop add.commute)
  next
    case False
    then show ?thesis by (auto simp: not_less)
  qed
qed simp

lemma sendAll_bytes: "snd (sendAll ns data) = take (nat (sum_list (takeWhile (\<lambda>n. 0 < n) ns))) data"
  by (simp add: sendAll_def sendAll_from_bytes)

subsection \<open>Reading a line byte by byte\<close>

text \<open>The loop of \<^verbatim>\<open>recvLine\<close>; each call asks for one byte. The results left over are the second component.\<close>

fun recvLine_loop :: "string \<Rightarrow> recvs \<Rightarrow> string \<times> recvs" where
  "recvLine_loop out [] = (out, [])"
| "recvLine_loop out (r # rs) =
     (case r of
        [] \<Rightarrow> (out, rs)
      | c # _ \<Rightarrow> (if c = CHR 0x0A then (out, rs) else recvLine_loop (out @ [c]) rs))"

definition recvLine :: "recvs \<Rightarrow> string \<times> recvs" where
  "recvLine rs = recvLine_loop [] rs"

text \<open>The results of one-byte calls that deliver a text and then the end of the connection.\<close>

definition byte_calls :: "string \<Rightarrow> recvs" where
  "byte_calls text = map (\<lambda>c. [c]) text"

text \<open>The text before the first newline, and the text after it.\<close>

fun line_of :: "string \<Rightarrow> string" where
  "line_of [] = []"
| "line_of (c # cs) = (if c = CHR 0x0A then [] else c # line_of cs)"

fun after_line :: "string \<Rightarrow> string" where
  "after_line [] = []"
| "after_line (c # cs) = (if c = CHR 0x0A then cs else after_line cs)"

lemma line_of_append [simp]: "CHR 0x0A \<notin> set x \<Longrightarrow> line_of (x @ CHR 0x0A # r) = x"
  by (induction x) auto

lemma after_line_append [simp]: "CHR 0x0A \<notin> set x \<Longrightarrow> after_line (x @ CHR 0x0A # r) = r"
  by (induction x) auto

lemma line_of_all [simp]: "CHR 0x0A \<notin> set x \<Longrightarrow> line_of x = x"
  by (induction x) auto

lemma after_line_all [simp]: "CHR 0x0A \<notin> set x \<Longrightarrow> after_line x = []"
  by (induction x) auto

lemma line_of_no_newline [simp]: "CHR 0x0A \<notin> set (line_of s)"
  by (induction s) auto

lemma line_split: "CHR 0x0A \<in> set s \<Longrightarrow> s = line_of s @ CHR 0x0A # after_line s"
  by (induction s) auto

lemma after_line_length: "s \<noteq> [] \<Longrightarrow> length (after_line s) < length s"
  by (induction s) (auto, fastforce)

lemma line_of_split_on: "line_of s = hd (split_on (CHR 0x0A) [] s)"
proof (cases "CHR 0x0A \<in> set s")
  case True
  from line_split[OF this] show ?thesis
    by (metis append_Nil line_of_no_newline list.sel(1) split_on_delim)
qed simp

lemma recvLine_loop_bytes: "recvLine_loop out (byte_calls s) = (out @ line_of s, byte_calls (after_line s))"
  by (induction s arbitrary: out) (auto simp: byte_calls_def)

lemma recvLine_bytes [simp]: "recvLine (byte_calls s) = (line_of s, byte_calls (after_line s))"
  by (simp add: recvLine_def recvLine_loop_bytes)

lemma recvLine_closed [simp]: "recvLine [] = ([], [])"
  by (simp add: recvLine_def)

subsection \<open>The buffered reader\<close>

record reader =
  rd_buf :: string
  rd_atEof :: bool

definition reader_new :: reader where
  "reader_new = \<lparr>rd_buf = [], rd_atEof = False\<rparr>"

definition reader_eof :: "reader \<Rightarrow> bool" where
  "reader_eof rd \<longleftrightarrow> rd_atEof rd \<and> rd_buf rd = []"

text \<open>\<^verbatim>\<open>readLine\<close>: the line, the reader after it and the results still to come.\<close>

function readLine :: "reader \<Rightarrow> recvs \<Rightarrow> string \<times> reader \<times> recvs" where
  "readLine rd rs =
     (case find_char (rd_buf rd) (CHR 0x0A) 0 of
        Some nl \<Rightarrow> (substr (rd_buf rd) 0 nl, rd\<lparr>rd_buf := drop (nl + 1) (rd_buf rd)\<rparr>, rs)
      | None \<Rightarrow>
          (if rd_atEof rd then (rd_buf rd, rd\<lparr>rd_buf := []\<rparr>, rs)
           else (case rs of
                   [] \<Rightarrow> readLine (rd\<lparr>rd_atEof := True\<rparr>) []
                 | chunk # rs' \<Rightarrow>
                     (if chunk = [] then readLine (rd\<lparr>rd_atEof := True\<rparr>) rs'
                      else readLine (rd\<lparr>rd_buf := rd_buf rd @ chunk\<rparr>) rs'))))"
  by pat_completeness auto

termination
  by (relation "measure (\<lambda>(rd, rs). 2 * length rs + (if rd_atEof rd then 0 else 1))") auto

declare readLine.simps [simp del]

text \<open>One case of the loop at a time.\<close>

lemma readLine_line:
  "find_char (rd_buf rd) (CHR 0x0A) 0 = Some nl \<Longrightarrow>
   readLine rd rs = (substr (rd_buf rd) 0 nl, rd\<lparr>rd_buf := drop (nl + 1) (rd_buf rd)\<rparr>, rs)"
  by (simp add: readLine.simps[of rd rs])

lemma readLine_more:
  assumes "find_char (rd_buf rd) (CHR 0x0A) 0 = None"
  shows "rd_atEof rd \<Longrightarrow> readLine rd rs = (rd_buf rd, rd\<lparr>rd_buf := []\<rparr>, rs)"
    and "\<not> rd_atEof rd \<Longrightarrow> readLine rd [] = readLine (rd\<lparr>rd_atEof := True\<rparr>) []"
    and "\<not> rd_atEof rd \<Longrightarrow> readLine rd ([] # rest) = readLine (rd\<lparr>rd_atEof := True\<rparr>) rest"
    and "\<not> rd_atEof rd \<Longrightarrow> chunk \<noteq> [] \<Longrightarrow>
      readLine rd (chunk # rest) = readLine (rd\<lparr>rd_buf := rd_buf rd @ chunk\<rparr>) rest"
  using assms
  by (simp add: readLine.simps[of rd rs], simp add: readLine.simps[of rd "[]"],
      simp add: readLine.simps[of rd "[] # rest"], simp add: readLine.simps[of rd "chunk # rest"])

text \<open>What the reader will still return: its buffer and, before the end, the chunks to come.\<close>

definition pending_text :: "reader \<Rightarrow> recvs \<Rightarrow> string" where
  "pending_text rd rs = rd_buf rd @ (if rd_atEof rd then [] else concat rs)"

text \<open>The chunks of a connection are not empty before its end.\<close>

definition chunks_ok :: "recvs \<Rightarrow> bool" where
  "chunks_ok rs \<longleftrightarrow> [] \<notin> set rs"

lemma find_newline_buf:
  "find_char s (CHR 0x0A) 0 = Some nl \<Longrightarrow> nl = length (line_of s) \<and> CHR 0x0A \<in> set s"
proof -
  assume f: "find_char s (CHR 0x0A) 0 = Some nl"
  then have nl: "CHR 0x0A \<in> set s"
    using find_char_0_None[of s "CHR 0x0A"] by (metis option.distinct(1))
  from line_split[OF nl] f have "Some nl = Some (length (line_of s))"
    by (metis find_char_0_append line_of_no_newline)
  with nl show ?thesis by simp
qed

lemma line_of_buffered: "CHR 0x0A \<in> set x \<Longrightarrow> line_of (x @ y) = line_of x \<and> after_line (x @ y) = after_line x @ y"
  by (induction x) auto

text \<open>
  One call of \<^verbatim>\<open>readLine\<close> returns the first line of the text to come, however the connection
  cuts that text into chunks, and leaves the text after it.
\<close>

lemma readLine_spec:
  assumes "chunks_ok rs" "readLine rd rs = (line, rd', rs')"
  shows "line = line_of (pending_text rd rs) \<and> pending_text rd' rs' = after_line (pending_text rd rs)
    \<and> chunks_ok rs' \<and> (CHR 0x0A \<notin> set (pending_text rd rs) \<longrightarrow> reader_eof rd')"
  using assms
proof (induction rd rs rule: readLine.induct)
  case (1 rd rs)
  show ?case
  proof (cases "find_char (rd_buf rd) (CHR 0x0A) 0")
    case (Some nl)
    let ?b = "rd_buf rd"
    have nl: "nl = length (line_of ?b)" "CHR 0x0A \<in> set ?b" using find_newline_buf[OF Some] by auto
    have eq: "line = substr ?b 0 nl" "rd' = rd\<lparr>rd_buf := drop (nl + 1) ?b\<rparr>" "rs' = rs"
      using 1(5) readLine_line[OF Some] by simp_all
    have "take nl ?b = line_of ?b" "drop (nl + 1) ?b = after_line ?b"
      using line_split[OF nl(2)] nl(1) by (metis append_eq_conv_conj, metis append_eq_conv_conj append_Cons
          append_Nil append.assoc length_append_singleton Suc_eq_plus1)
    with eq nl(2) 1(4) show ?thesis
      by (auto simp: substr_def pending_text_def line_of_buffered)
  next
    case None
    then have no: "CHR 0x0A \<notin> set (rd_buf rd)" by (simp add: find_char_0_None)
    show ?thesis
    proof (cases "rd_atEof rd")
      case True
      with None 1(5) have "line = rd_buf rd" "rd' = rd\<lparr>rd_buf := []\<rparr>" "rs' = rs"
        by (simp_all add: readLine_more(1))
      with True no 1(4) show ?thesis by (simp add: pending_text_def reader_eof_def)
    next
      case False
      show ?thesis
      proof (cases rs)
        case Nil
        with False None 1(5) have "readLine (rd\<lparr>rd_atEof := True\<rparr>) [] = (line, rd', rs')"
          by (simp add: readLine_more(2))
        with 1(1)[OF None False Nil] False Nil show ?thesis
          by (simp add: pending_text_def chunks_ok_def)
      next
        case (Cons chunk rest)
        with 1(4) have c: "chunk \<noteq> []" "chunks_ok rest" by (auto simp: chunks_ok_def)
        with Cons False None 1(5) have "readLine (rd\<lparr>rd_buf := rd_buf rd @ chunk\<rparr>) rest = (line, rd', rs')"
          by (simp add: readLine_more(4))
        with 1(3)[OF None False Cons c(1) c(2)] False Cons show ?thesis
          by (simp add: pending_text_def)
      qed
    qed
  qed
qed

subsection \<open>Reading all lines\<close>

text \<open>The reference: the lines of a text up to a given number of them.\<close>

fun text_lines :: "nat \<Rightarrow> string \<Rightarrow> string list" where
  "text_lines 0 s = []"
| "text_lines (Suc n) s = line_of s # text_lines n (after_line s)"

fun read_lines :: "nat \<Rightarrow> reader \<Rightarrow> recvs \<Rightarrow> string list" where
  "read_lines 0 rd rs = []"
| "read_lines (Suc n) rd rs =
     (case readLine rd rs of (line, rd', rs') \<Rightarrow> line # read_lines n rd' rs')"

lemma read_lines_text:
  "chunks_ok rs \<Longrightarrow> read_lines n rd rs = text_lines n (pending_text rd rs)"
proof (induction n arbitrary: rd rs)
  case (Suc n)
  obtain line rd' rs' where r: "readLine rd rs = (line, rd', rs')"
    by (cases "readLine rd rs")
  from readLine_spec[OF Suc.prems r] Suc.IH[of rs' rd'] r show ?case by simp
qed simp

lemma pending_new [simp]: "pending_text reader_new rs = concat rs"
  by (simp add: pending_text_def reader_new_def)

subsection \<open>Opening connections\<close>

text \<open>
  The candidate addresses of \<^verbatim>\<open>connectTo\<close>, each with what \<^verbatim>\<open>socket\<close> returns for it and whether
  \<^verbatim>\<open>connect\<close> succeeds; a negative number is \<^verbatim>\<open>MBC_INVALID_SOCKET\<close>. The second result lists the
  sockets closed again. \<open>None\<close> is a failure of \<^verbatim>\<open>getaddrinfo\<close>.
\<close>

definition invalid_socket :: int where "invalid_socket = - 1"

fun connect_loop :: "int \<Rightarrow> int list \<Rightarrow> (int \<times> bool) list \<Rightarrow> int \<times> int list" where
  "connect_loop sock closed [] = (sock, closed)"
| "connect_loop sock closed ((s, ok) # ps) =
     (if s = invalid_socket then connect_loop s closed ps
      else if ok then (s, closed)
      else connect_loop invalid_socket (closed @ [s]) ps)"

definition connectTo :: "(int \<times> bool) list option \<Rightarrow> int \<times> int list" where
  "connectTo addrs =
     (case addrs of None \<Rightarrow> (invalid_socket, []) | Some ps \<Rightarrow> connect_loop invalid_socket [] ps)"

text \<open>\<^verbatim>\<open>listenOn\<close>, from the results of \<^verbatim>\<open>socket\<close>, \<^verbatim>\<open>bind\<close> and \<^verbatim>\<open>listen\<close>.\<close>

definition listenOn :: "int \<Rightarrow> int \<Rightarrow> int \<Rightarrow> int \<times> int list" where
  "listenOn sock bind_rc listen_rc =
     (if sock = invalid_socket then (invalid_socket, [])
      else if bind_rc \<noteq> 0 then (invalid_socket, [sock])
      else if listen_rc \<noteq> 0 then (invalid_socket, [sock])
      else (sock, []))"

definition usable :: "(int \<times> bool) list \<Rightarrow> int list" where
  "usable ps = filter (\<lambda>s. s \<noteq> invalid_socket) (map fst ps)"

lemma connect_loop_spec:
  assumes "connect_loop invalid_socket closed ps = (s, closed')"
  shows "if s = invalid_socket
    then closed' = closed @ usable ps \<and> (\<forall>(t, ok) \<in> set ps. t = invalid_socket \<or> \<not> ok)
    else (\<exists>pre post. ps = pre @ (s, True) # post \<and> closed' = closed @ usable pre
           \<and> (\<forall>(t, ok) \<in> set pre. t = invalid_socket \<or> \<not> ok))"
  using assms
proof (induction ps arbitrary: closed)
  case Nil
  then show ?case by (simp add: usable_def)
next
  case (Cons p ps)
  obtain t ok where p: "p = (t, ok)" by (cases p)
  show ?case
  proof (cases "t \<noteq> invalid_socket \<and> ok")
    case True
    with Cons.prems p have "s = t" "closed' = closed" "t \<noteq> invalid_socket"
      "p # ps = [] @ (s, True) # ps" by auto
    then have "\<exists>pre post. p # ps = pre @ (s, True) # post \<and> closed' = closed @ usable pre
        \<and> (\<forall>(t, ok) \<in> set pre. t = invalid_socket \<or> \<not> ok)"
      by - (rule exI[of _ "[]"], rule exI[of _ ps], simp add: usable_def)
    with \<open>s = t\<close> \<open>t \<noteq> invalid_socket\<close> show ?thesis by simp
  next
    case False
    let ?closed = "if t = invalid_socket then closed else closed @ [t]"
    have rest: "connect_loop invalid_socket ?closed ps = (s, closed')"
      using Cons.prems p False by (auto split: if_splits)
    have use: "closed @ usable (p # qs) = ?closed @ usable qs" for qs
      by (simp add: p usable_def)
    show ?thesis
    proof (cases "s = invalid_socket")
      case True
      with Cons.IH[OF rest] use[of ps] p False show ?thesis by auto
    next
      case s: False
      with Cons.IH[OF rest] obtain pre post where "ps = pre @ (s, True) # post"
        "closed' = ?closed @ usable pre" "\<forall>(t, ok) \<in> set pre. t = invalid_socket \<or> \<not> ok"
        by auto
      then have "p # ps = (p # pre) @ (s, True) # post" "closed' = closed @ usable (p # pre)"
        "\<forall>(t, ok) \<in> set (p # pre). t = invalid_socket \<or> \<not> ok"
        using use[of pre] p False by auto
      with s show ?thesis by metis
    qed
  qed
qed

subsection \<open>Properties\<close>

text \<open>
  Sending is all or nothing as far as the caller is told. Whatever amounts the system accepts at
  each call, the bytes handed over are a prefix of the text, in order and without repetition,
  and \<^verbatim>\<open>sendAll\<close> reports success exactly when that prefix is the whole text.
\<close>

lemma sendAll_spec:
  assumes "sends_ok (length data) ns" "sendAll ns data = (ok, wire)"
  shows "(\<exists>rest. data = wire @ rest) \<and> (ok \<longleftrightarrow> wire = data)"
  using sendAll_from_wire[of data 0 ns] assms by (auto simp: sendAll_def)

lemma sendAll_spec_example: "sendAll [3, 1, 2] ''HEIGHT'' = (True, ''HEIGHT'')"
proof -
  obtain ok wire where s: "sendAll [3, 1, 2] ''HEIGHT'' = (ok, wire)" by (cases "sendAll [3, 1, 2] ''HEIGHT''")
  moreover have "wire = ''HEIGHT''" using s by (simp add: sendAll_def)
  ultimately show ?thesis using sendAll_spec[OF _ s] by simp
qed

text \<open>
  C31: The buffered reader does not depend on how the connection cuts the text. From a new reader, the
  lines returned by any number of calls are those of the whole text, as the byte-by-byte
  reader returns its first one, whatever the chunks.
\<close>

theorem reader_chunk_independent:
  assumes "chunks_ok rs"
  shows "read_lines n reader_new rs = text_lines n (concat rs)
    \<and> fst (readLine reader_new rs) = fst (recvLine (byte_calls (concat rs)))"
proof -
  obtain line rd' rs' where r: "readLine reader_new rs = (line, rd', rs')"
    by (cases "readLine reader_new rs")
  from readLine_spec[OF assms r] read_lines_text[OF assms, of n reader_new] r show ?thesis by simp
qed

theorem reader_chunk_independent_witness:
  "read_lines 3 reader_new [''0|1'', ''|2'' @ [CHR 0x0A] @ ''E'', ''ND'' @ [CHR 0x0A]]
   = [''0|1|2'', ''END'', []]"
  using reader_chunk_independent[of "[''0|1'', ''|2'' @ [CHR 0x0A] @ ''E'', ''ND'' @ [CHR 0x0A]]" 3]
  by (simp add: chunks_ok_def eval_nat_numeral)

text \<open>
  Connecting leaks no socket. \<^verbatim>\<open>connectTo\<close> returns the first socket that connects, having closed
  every socket it opened before it, or the invalid socket when none connects, having closed
  all of them.
\<close>

lemma connectTo_closes:
  assumes "connectTo (Some ps) = (s, closed)"
  shows "if s = invalid_socket
    then closed = usable ps \<and> (\<forall>(t, ok) \<in> set ps. t = invalid_socket \<or> \<not> ok)
    else (\<exists>pre post. ps = pre @ (s, True) # post \<and> closed = usable pre
           \<and> (\<forall>(t, ok) \<in> set pre. t = invalid_socket \<or> \<not> ok))"
  using connect_loop_spec[of "[]" ps s closed, unfolded append_Nil] assms
  unfolding connectTo_def option.case by metis

lemma connectTo_closes_example:
  "connectTo (Some [(3, False), (- 1, True), (4, False)]) = (- 1, [3, 4])"
proof -
  obtain s closed where c: "connectTo (Some [(3, False), (- 1, True), (4, False)]) = (s, closed)"
    by (cases "connectTo (Some [(3, False), (- 1, True), (4, False)])")
  moreover have "s = - 1" using c by (simp add: connectTo_def invalid_socket_def)
  ultimately show ?thesis using connectTo_closes[OF c] by (simp add: usable_def invalid_socket_def)
qed

end
