(* ===== verification/Accept_Loop.thy ===== *)
theory Accept_Loop
  imports Net "HOL-Library.Signed_Division"
begin

text \<open>
  The parts of \<^verbatim>\<open>src/net/sockets_compat.hpp\<close> around a server, and the accept loop that the peer server
  and the status server share: start-up of the socket library, waiting for a connection with a
  timeout, closing a socket, and the loop that hands accepted connections to a handler until
  the server is stopped. The two servers are instances of one interface, a locale.
\<close>

subsection \<open>The socket library\<close>

text \<open>\<^verbatim>\<open>initSockets\<close>: on Windows the result of \<^verbatim>\<open>WSAStartup\<close>, on POSIX there is nothing to start.\<close>

datatype os = Windows | Posix

definition initSockets :: "os \<Rightarrow> int \<Rightarrow> bool" where
  "initSockets sys wsa_rc = (case sys of Windows \<Rightarrow> wsa_rc = 0 | Posix \<Rightarrow> True)"

text \<open>\<^verbatim>\<open>closeSocket\<close>: the sockets the system is asked to close.\<close>

definition closeSocket :: "int \<Rightarrow> int list" where
  "closeSocket sock = (if sock \<noteq> invalid_socket then [sock] else [])"

text \<open>\<^verbatim>\<open>static_cast<uint16_t>(port)\<close> in \<^verbatim>\<open>listenOn\<close>.\<close>

definition sin_port :: "int \<Rightarrow> 16 word" where
  "sin_port port = word_of_int port"

text \<open>
  \<^verbatim>\<open>waitReadable\<close>: the timeout as seconds and microseconds, with C++'s division, and the result of
  \<^verbatim>\<open>select\<close> for that timeout, a count and whether the socket is in the set.
\<close>

definition select_timeout :: "int \<Rightarrow> int \<times> int" where
  "select_timeout timeoutMs = (timeoutMs sdiv 1000, timeoutMs smod 1000 * 1000)"

definition waitReadable :: "(int \<times> int \<Rightarrow> int \<times> bool) \<Rightarrow> int \<Rightarrow> bool" where
  "waitReadable select timeoutMs =
     (case select (select_timeout timeoutMs) of (n, isset) \<Rightarrow> n > 0 \<and> isset)"

lemma select_timeout_total:
  assumes "select_timeout ms = (s, us)" "0 \<le> ms"
  shows "s * 1000000 + us = ms * 1000 \<and> 0 \<le> us \<and> us < 1000000"
proof -
  have "s = ms div 1000" "us = ms mod 1000 * 1000"
    using assms by (auto simp: select_timeout_def signed_divide_int_def signed_modulo_int_def sgn_if split: if_splits)
  then show ?thesis
    using pos_mod_bound[of 1000 ms] pos_mod_sign[of 1000 ms] div_mult_mod_eq[of ms 1000] by linarith
qed

subsection \<open>The accept loop\<close>

text \<open>
  What one turn of the loop finds: the running flag before it, the \<^verbatim>\<open>select\<close> call, the socket \<^verbatim>\<open>accept\<close>
  returns, and the flag when \<^verbatim>\<open>accept\<close> has failed, which \<^verbatim>\<open>stop\<close> may have cleared meanwhile.
\<close>

record turn =
  tn_running :: bool
  tn_select :: "int \<times> int \<Rightarrow> int \<times> bool"
  tn_client :: int
  tn_running_after :: bool

datatype loop_turn = Again | Leave | Handle int

definition accept_turn :: "turn \<Rightarrow> loop_turn" where
  "accept_turn t =
     (if \<not> tn_running t then Leave
      else if \<not> waitReadable (tn_select t) 200 then Again
      else if tn_client t = invalid_socket then (if \<not> tn_running_after t then Leave else Again)
      else Handle (tn_client t))"

text \<open>The connections handled over a sequence of turns, each with what the turn \<open>'a\<close> hands to its handler.\<close>

fun accept_loop :: "(turn \<times> 'a) list \<Rightarrow> (int \<times> 'a) list" where
  "accept_loop [] = []"
| "accept_loop ((t, x) # ts) =
     (case accept_turn t of
        Leave \<Rightarrow> []
      | Again \<Rightarrow> accept_loop ts
      | Handle client \<Rightarrow> (client, x) # accept_loop ts)"

text \<open>A turn delivers its connection when \<^verbatim>\<open>accept\<close> gave one.\<close>

definition delivers :: "turn \<Rightarrow> bool" where
  "delivers t \<longleftrightarrow> waitReadable (tn_select t) 200 \<and> tn_client t \<noteq> invalid_socket"

lemma accept_turn_running [simp]:
  assumes "tn_running t" "tn_running_after t"
  shows "accept_turn t = (if delivers t then Handle (tn_client t) else Again)"
  using assms by (simp add: accept_turn_def delivers_def)

lemma accept_turn_stopped [simp]: "\<not> tn_running t \<Longrightarrow> accept_turn t = Leave"
  by (simp add: accept_turn_def)

text \<open>While the server runs, every connection accepted is handled, in order, and nothing else.\<close>

lemma accept_loop_running:
  assumes "\<forall>(t, x) \<in> set ts. tn_running t \<and> tn_running_after t"
  shows "accept_loop (ts @ us) =
    map (\<lambda>(t, x). (tn_client t, x)) (filter (\<lambda>(t, x). delivers t) ts) @ accept_loop us"
  using assms by (induction ts) (auto split: prod.splits)

text \<open>The turn that finds the flag cleared is the last.\<close>

lemma accept_loop_stops:
  "\<not> tn_running t \<Longrightarrow> accept_loop (ts @ (t, x) # us) = accept_loop ts"
  by (induction ts) (auto split: prod.splits loop_turn.splits)

subsection \<open>Interface: a server with an accept loop\<close>

text \<open>
  \<open>start l port\<close> is given the socket \<open>l\<close> that \<^verbatim>\<open>listenOn\<close> returned. Stopping clears the flag and
  closes the socket.
\<close>

locale accept_server =
  fixes start :: "int \<Rightarrow> int \<Rightarrow> 's \<Rightarrow> bool \<times> 's" and stop :: "'s \<Rightarrow> 's"
    and running :: "'s \<Rightarrow> bool" and socket :: "'s \<Rightarrow> int"
  assumes start_ok: "l \<noteq> invalid_socket \<Longrightarrow> start l port srv = (ok, srv') \<Longrightarrow> ok \<and> running srv' \<and> socket srv' = l"
    and start_fails: "start invalid_socket port srv = (ok, srv') \<Longrightarrow>
      \<not> ok \<and> running srv' = running srv \<and> socket srv' = invalid_socket"
    and stop_clears: "\<not> running (stop srv)" "socket (stop srv) = socket srv"
begin

lemma start_iff: "start l port srv = (ok, srv') \<Longrightarrow> ok \<longleftrightarrow> l \<noteq> invalid_socket"
  using start_ok start_fails by (cases "l = invalid_socket") blast+

text \<open>
  A server that starts handles what is accepted until it is stopped, and stopping it closes
  the socket it listened on.
\<close>

lemma served_until_stopped:
  assumes "start l port srv = (True, srv')"
    and "\<forall>(t, x) \<in> set ts. tn_running t = running srv' \<and> tn_running_after t = running srv'"
    and "tn_running t' = running (stop srv')"
  shows "accept_loop (ts @ (t', y) # us) = map (\<lambda>(t, x). (tn_client t, x)) (filter (\<lambda>(t, x). delivers t) ts)
    \<and> closeSocket (socket (stop srv')) = [l]"
proof -
  have l: "l \<noteq> invalid_socket" using start_iff[OF assms(1)] by simp
  note ok = start_ok[OF l assms(1)]
  have "accept_loop (ts @ (t', y) # us) = accept_loop ts"
    using assms(3) stop_clears(1) by (simp add: accept_loop_stops)
  also have "\<dots> = map (\<lambda>(t, x). (tn_client t, x)) (filter (\<lambda>(t, x). delivers t) ts)"
    using accept_loop_running[of ts "[]"] assms(2) ok by simp
  finally show ?thesis using ok l stop_clears(2)[of srv'] by (simp add: closeSocket_def)
qed

end

end
