(* ===== verification/Status_Monitor.thy ===== *)
theory Status_Monitor
  imports Accept_Loop
begin

text \<open>
  \<^verbatim>\<open>src/node/status.hpp\<close> and \<^verbatim>\<open>src/node/monitor.hpp\<close>: the counters a node publishes, the line its
  status server sends to every connection, and the dashboard the monitor process draws from
  that line. Each counter is an atomic; \<^verbatim>\<open>snapshot\<close> loads them one after the other, and the model
  takes their values at those loads as one record.
\<close>

record node_status =
  ns_height :: u64
  ns_difficulty :: u32
  ns_miningThreads :: int
  ns_hashesLastSecond :: u64
  ns_peerCount :: int
  ns_mining :: bool

definition status_new :: node_status where
  "status_new = \<lparr>ns_height = 0, ns_difficulty = 0, ns_miningThreads = 0, ns_hashesLastSecond = 0,
     ns_peerCount = 0, ns_mining = False\<rparr>"

definition show_bool :: "bool \<Rightarrow> string" where
  "show_bool b = (if b then ''true'' else ''false'')"

definition snapshot :: "node_status \<Rightarrow> string" where
  "snapshot s =
     ''height='' @ show_u64 (ns_height s) @
     '' difficulty='' @ show_u32 (ns_difficulty s) @
     '' mining='' @ show_bool (ns_mining s) @
     '' threads='' @ show_int (ns_miningThreads s) @
     '' hashrate='' @ show_u64 (ns_hashesLastSecond s) @ ''H/s'' @
     '' peers='' @ show_int (ns_peerCount s)"

text \<open>The status server's answer to a connection.\<close>

definition status_reply :: "node_status \<Rightarrow> string" where
  "status_reply s = snapshot s @ [CHR 0x0A]"

subsection \<open>The status server\<close>

record status_server =
  ss_listenSocket :: int
  ss_running :: bool

definition status_server_new :: status_server where
  "status_server_new = \<lparr>ss_listenSocket = invalid_socket, ss_running = False\<rparr>"

definition status_server_start :: "int \<Rightarrow> int \<Rightarrow> status_server \<Rightarrow> bool \<times> status_server" where
  "status_server_start listening port srv =
     (let srv1 = srv\<lparr>ss_listenSocket := listening\<rparr>
      in if listening = invalid_socket then (False, srv1) else (True, srv1\<lparr>ss_running := True\<rparr>))"

definition status_server_stop :: "status_server \<Rightarrow> status_server" where
  "status_server_stop srv = srv\<lparr>ss_running := False\<rparr>"

interpretation status_srv: accept_server status_server_start status_server_stop ss_running ss_listenSocket
  by unfold_locales (auto simp: status_server_start_def status_server_stop_def Let_def split: if_splits)

text \<open>
  Its accept loop: each turn comes with the counters at that moment and the results of the \<^verbatim>\<open>send\<close>
  calls; each connection handled is the socket, what is put on it, and the sockets closed.
\<close>

definition status_serve :: "(turn \<times> node_status \<times> sends) list \<Rightarrow> (int \<times> string \<times> int list) list" where
  "status_serve turns =
     map (\<lambda>(client, st, ns). (client, snd (sendAll ns (status_reply st)), closeSocket client)) (accept_loop turns)"

subsection \<open>The dashboard\<close>

text \<open>The loop \<^verbatim>\<open>while (iss >> token)\<close>: the texts between white space.\<close>

function stream_tokens :: "string \<Rightarrow> string list" where
  "stream_tokens s =
     (case dropWhile is_space s of
        [] \<Rightarrow> []
      | c # cs \<Rightarrow> (c # takeWhile (\<lambda>x. \<not> is_space x) cs) #
                  stream_tokens (dropWhile (\<lambda>x. \<not> is_space x) cs))"
  by pat_completeness auto

termination
proof (relation "measure length", simp)
  fix s c cs
  assume d: "dropWhile is_space s = c # cs"
  have "length (dropWhile (\<lambda>x. \<not> is_space x) cs) \<le> length cs" by (rule length_dropWhile_le)
  also have "length cs < length s" using length_dropWhile_le[of is_space s] d by simp
  finally show "(dropWhile (\<lambda>x. \<not> is_space x) cs, s) \<in> measure length" by simp
qed

declare stream_tokens.simps [simp del]

definition show_token :: "string \<Rightarrow> string" where
  "show_token token =
     (case find_char token (CHR ''='') 0 of
        None \<Rightarrow> []
      | Some eq \<Rightarrow> ''  '' @ substr token 0 eq @ '': '' @ substr_from token (eq + 1) @ [CHR 0x0A])"

definition dashboard_text :: "string \<Rightarrow> string" where
  "dashboard_text line =
     ''=== MegaByte Node Monitor ==='' @ [CHR 0x0A, CHR 0x0A] @
     concat (map show_token (stream_tokens line)) @
     [CHR 0x0A] @ ''(refreshing every 500ms)'' @ [CHR 0x0A]"

text \<open>One turn of \<^verbatim>\<open>runMonitorLoop\<close>, after the screen is cleared: \<open>None\<close> when it cannot connect.\<close>

definition monitor_turn :: "recvs option \<Rightarrow> string" where
  "monitor_turn c =
     (let line = (case c of None \<Rightarrow> ''(node not reachable)'' | Some rs \<Rightarrow> fst (recvLine rs))
      in dashboard_text line)"

text \<open>
  The loop with its header, over any number of turns: each clears the screen and draws the
  dashboard. On Windows the screen is cleared by another program.
\<close>

definition clear_screen :: "os \<Rightarrow> string" where
  "clear_screen sys = (case sys of Windows \<Rightarrow> [] | Posix \<Rightarrow> CHR 0x1B # ''[2J'' @ CHR 0x1B # ''[H'')"

definition monitor_header :: "int \<Rightarrow> string" where
  "monitor_header statusPort =
     ''MegaByte monitor '' @ [CHR 0xE2, CHR 0x80, CHR 0x94] @ '' polling status on port '' @ show_int statusPort @
     [CHR 0x0A] @ ''(Ctrl+C to close this window)'' @ [CHR 0x0A, CHR 0x0A]"

definition runMonitorLoop :: "os \<Rightarrow> int \<Rightarrow> recvs option list \<Rightarrow> string" where
  "runMonitorLoop sys statusPort conns =
     monitor_header statusPort @ concat (map (\<lambda>c. clear_screen sys @ monitor_turn c) conns)"

text \<open>
  \<^verbatim>\<open>launchMonitorWindow\<close>: \<open>rc\<close> is the result of \<^verbatim>\<open>CreateProcessA\<close> or of \<^verbatim>\<open>fork\<close>. The second result is
  what is run: the command line on Windows; on POSIX the argument lists the child tries in
  turn, after which it exits, when \<^verbatim>\<open>fork\<close> made a child.
\<close>

definition monitor_args :: "int \<Rightarrow> string" where
  "monitor_args statusPort = '' --monitor '' @ show_int statusPort"

definition launchMonitorWindow :: "os \<Rightarrow> string \<Rightarrow> int \<Rightarrow> int \<Rightarrow> bool \<times> string list list" where
  "launchMonitorWindow sys exePath statusPort rc =
     (case sys of
        Windows \<Rightarrow> (rc \<noteq> 0, [[CHR 0x22 # exePath @ CHR 0x22 # monitor_args statusPort]])
      | Posix \<Rightarrow>
          (let full = exePath @ monitor_args statusPort
           in (rc > 0,
               if rc > 0 then [[''x-terminal-emulator'', ''-e'', full],
                               [''gnome-terminal'', ''--'', ''bash'', ''-c'', full],
                               [''xterm'', ''-e'', full]]
               else [])))"

subsection \<open>Tokens of a snapshot\<close>

definition solid :: "string \<Rightarrow> bool" where
  "solid t \<longleftrightarrow> t \<noteq> [] \<and> (\<forall>c \<in> set t. \<not> is_space c)"

lemma solid_word: "solid (c # cs) \<longleftrightarrow> (\<forall>x \<in> set (c # cs). \<not> is_space x)"
  by (simp add: solid_def)

lemma is_space_space [simp]: "is_space (CHR '' '')"
  by (simp add: is_space_def)

lemma stream_tokens_cons:
  assumes "solid t" "s = [] \<or> (\<exists>c r. s = c # r \<and> is_space c)"
  shows "stream_tokens (t @ s) = t # stream_tokens s"
proof -
  obtain c cs where t: "t = c # cs" using assms(1) by (cases t) (auto simp: solid_def)
  have c: "\<not> is_space c" and cs: "\<forall>x \<in> set cs. \<not> is_space x"
    using assms(1) by (auto simp: solid_def t)
  have "takeWhile (\<lambda>x. \<not> is_space x) (cs @ s) = cs" "dropWhile (\<lambda>x. \<not> is_space x) (cs @ s) = s"
    using cs assms(2) by (auto simp: takeWhile_append2 dropWhile_append2)
  with c t show ?thesis by (simp add: stream_tokens.simps[of "c # cs @ s"])
qed

lemma stream_tokens_space: "stream_tokens (CHR '' '' # s) = stream_tokens s"
  by (simp add: stream_tokens.simps[of "CHR '' '' # s"] stream_tokens.simps[of s])

lemma stream_tokens_nil [simp]: "stream_tokens [] = []"
  by (simp add: stream_tokens.simps)

lemma stream_tokens_last: "solid t \<Longrightarrow> stream_tokens t = [t]"
  using stream_tokens_cons[of t "[]"] by simp

lemma stream_tokens_next: "solid t \<Longrightarrow> stream_tokens (t @ CHR '' '' # s) = t # stream_tokens s"
  using stream_tokens_cons[of t "CHR '' '' # s"] by (simp add: stream_tokens_space)

lemma solid_append [simp]: "solid (x @ y) \<longleftrightarrow> (x = [] \<and> solid y) \<or> (solid x \<and> y = []) \<or> (solid x \<and> solid y)"
  by (cases "x = []"; cases "y = []") (auto simp: solid_def)

lemma digits_not_space: "is_digit 10 c \<Longrightarrow> \<not> is_space c"
  by (auto simp: digit_code is_space_def)

lemma solid_show [simp]: "solid (show_nat n)" "solid (show_int i)" "solid (show_u64 w)" "solid (show_u32 v)"
proof -
  show n: "solid (show_nat n)" for n
    using show_nat_is_digit digits_not_space by (auto simp: solid_def)
  have "solid (CHR ''-'' # show_nat n)" for n
    using n[of n] by (auto simp: solid_def is_space_def)
  with n show "solid (show_int i)" by (simp add: show_int_def)
  from n show "solid (show_u64 w)" "solid (show_u32 v)" by (simp_all add: show_u64_def show_u32_def)
qed

lemma solid_show_bool [simp]: "solid (show_bool b)"
  by (simp add: show_bool_def solid_def is_space_def)

text \<open>The six key-value tokens.\<close>

definition status_tokens :: "node_status \<Rightarrow> string list" where
  "status_tokens s =
     [''height='' @ show_u64 (ns_height s), ''difficulty='' @ show_u32 (ns_difficulty s),
      ''mining='' @ show_bool (ns_mining s), ''threads='' @ show_int (ns_miningThreads s),
      ''hashrate='' @ show_u64 (ns_hashesLastSecond s) @ ''H/s'', ''peers='' @ show_int (ns_peerCount s)]"

lemma solid_keys:
  "solid ''height=''" "solid ''difficulty=''" "solid ''mining=''" "solid ''threads=''"
  "solid ''hashrate=''" "solid ''peers=''" "solid ''H/s''"
  by (simp_all add: solid_def is_space_def)

lemma status_tokens_solid: "t \<in> set (status_tokens s) \<Longrightarrow> solid t"
  using solid_keys by (auto simp only: status_tokens_def set_simps insert_iff empty_iff solid_append solid_show solid_show_bool)

lemma stream_tokens_join:
  "\<forall>t \<in> set ts. solid t \<Longrightarrow> stream_tokens (join_with (CHR '' '') ts) = ts"
proof (induction ts rule: induct_list012)
  case (3 t u ts)
  then show ?case using stream_tokens_next[of t "join_with (CHR '' '') (u # ts)"] by simp
qed (simp_all add: stream_tokens_last)

lemma snapshot_join: "snapshot s = join_with (CHR '' '') (status_tokens s)"
  by (simp add: snapshot_def status_tokens_def)

lemma snapshot_no_newline: "CHR 0x0A \<notin> set (snapshot s)"
  by (simp add: snapshot_def show_bool_def)

lemma show_token_pair:
  "CHR ''='' \<notin> set k \<Longrightarrow> show_token (k @ CHR ''='' # v) = ''  '' @ k @ '': '' @ v @ [CHR 0x0A]"
  by (simp add: show_token_def substr_def substr_from_def)

subsection \<open>Properties\<close>

text \<open>
  The dashboard shows the node's counters. Over a connection that delivers the status server's
  answer, one turn of the monitor prints the six counters of the node, each under its name and
  unaltered, in order and nothing else between the header and the footer.
\<close>

lemma monitor_shows_status:
  "monitor_turn (Some (byte_calls (status_reply s))) =
     ''=== MegaByte Node Monitor ==='' @ [CHR 0x0A, CHR 0x0A] @
     ''  height: '' @ show_u64 (ns_height s) @ [CHR 0x0A] @
     ''  difficulty: '' @ show_u32 (ns_difficulty s) @ [CHR 0x0A] @
     ''  mining: '' @ show_bool (ns_mining s) @ [CHR 0x0A] @
     ''  threads: '' @ show_int (ns_miningThreads s) @ [CHR 0x0A] @
     ''  hashrate: '' @ show_u64 (ns_hashesLastSecond s) @ ''H/s'' @ [CHR 0x0A] @
     ''  peers: '' @ show_int (ns_peerCount s) @ [CHR 0x0A] @
     [CHR 0x0A] @ ''(refreshing every 500ms)'' @ [CHR 0x0A]"
proof -
  have "fst (recvLine (byte_calls (status_reply s))) = snapshot s"
    using snapshot_no_newline[of s] by (simp add: status_reply_def)
  moreover have "stream_tokens (snapshot s) = status_tokens s"
    unfolding snapshot_join by (rule stream_tokens_join) (use status_tokens_solid in blast)
  moreover have "show_token (''height='' @ v) = ''  height: '' @ v @ [CHR 0x0A]"
    "show_token (''difficulty='' @ v) = ''  difficulty: '' @ v @ [CHR 0x0A]"
    "show_token (''mining='' @ v) = ''  mining: '' @ v @ [CHR 0x0A]"
    "show_token (''threads='' @ v) = ''  threads: '' @ v @ [CHR 0x0A]"
    "show_token (''hashrate='' @ v) = ''  hashrate: '' @ v @ [CHR 0x0A]"
    "show_token (''peers='' @ v) = ''  peers: '' @ v @ [CHR 0x0A]" for v
    using show_token_pair[of "''height''" v] show_token_pair[of "''difficulty''" v]
      show_token_pair[of "''mining''" v] show_token_pair[of "''threads''" v]
      show_token_pair[of "''hashrate''" v] show_token_pair[of "''peers''" v]
    by simp_all
  ultimately show ?thesis
    by (simp only: monitor_turn_def dashboard_text_def status_tokens_def Let_def option.case
        list.map concat.simps append_assoc append_Nil append_Nil2)
qed

text \<open>
  C39: The status server answers until it is stopped. A server that has started puts on every
  connection accepted before its stop, in order, the line with the six counters of the moment,
  all of it unless a send fails, and then as much as the sends before that took; it closes that
  connection and no other. It handles nothing after the stop, and stopping it closes the socket
  it listened on.
\<close>

theorem status_until_stopped:
  assumes "status_server_start l port srv = (True, srv')"
    and "\<forall>(t, x) \<in> set ts. tn_running t = ss_running srv' \<and> tn_running_after t = ss_running srv'"
    and "tn_running t' = ss_running (status_server_stop srv')"
  shows "closeSocket (ss_listenSocket (status_server_stop srv')) = [l]
    \<and> status_serve (ts @ (t', y) # us) =
        map (\<lambda>(t, st, ns). (tn_client t,
            take (nat (sum_list (takeWhile (\<lambda>n. 0 < n) ns)))
              (''height='' @ show_u64 (ns_height st) @ '' difficulty='' @ show_u32 (ns_difficulty st)
               @ '' mining='' @ (if ns_mining st then ''true'' else ''false'') @ '' threads='' @ show_int (ns_miningThreads st)
               @ '' hashrate='' @ show_u64 (ns_hashesLastSecond st) @ ''H/s peers='' @ show_int (ns_peerCount st) @ [CHR 0x0A]),
            [tn_client t]))
          (filter (\<lambda>(t, x). delivers t) ts)"
proof -
  note s = status_srv.served_until_stopped[OF assms, of y us]
  have "status_serve (ts @ (t', y) # us) =
      map (\<lambda>(t, st, ns). (tn_client t, snd (sendAll ns (status_reply st)), closeSocket (tn_client t)))
        (filter (\<lambda>(t, x). delivers t) ts)"
    unfolding status_serve_def conjunct1[OF s] by (simp add: case_prod_beta)
  also have "\<dots> = map (\<lambda>(t, st, ns). (tn_client t,
      take (nat (sum_list (takeWhile (\<lambda>n. 0 < n) ns))) (status_reply st), [tn_client t])) (filter (\<lambda>(t, x). delivers t) ts)"
    by (intro map_cong refl) (auto simp: sendAll_bytes delivers_def closeSocket_def)
  finally show ?thesis using conjunct2[OF s] by (simp add: status_reply_def snapshot_def show_bool_def)
qed

definition sample_turn :: "bool \<Rightarrow> int \<Rightarrow> int \<Rightarrow> turn" where
  "sample_turn b n client =
     \<lparr>tn_running = b, tn_select = \<lambda>_. (n, 0 < n), tn_client = client, tn_running_after = b\<rparr>"

text \<open>One connection gets the whole line, the next one seven bytes, and one after the stop nothing.\<close>

theorem status_until_stopped_witness:
  "status_serve [(sample_turn True 1 5, status_new, [60, 7]), (sample_turn True 0 6, status_new, []),
      (sample_turn True 1 8, status_new, [7, -1, 9]), (sample_turn False 1 7, status_new, [67])]
    = [(5, ''height=0 difficulty=0 mining=false threads=0 hashrate=0H/s peers=0'' @ [CHR 0x0A], [5]), (8, ''height='', [8])]"
proof -
  let ?ts = "[(sample_turn True 1 5, status_new, [60, 7]), (sample_turn True 0 6, status_new, []),
      (sample_turn True 1 8, status_new, [7, -1, 9])] :: (turn \<times> node_status \<times> sends) list"
  have s: "status_server_start 3 7778 status_server_new = (True, \<lparr>ss_listenSocket = 3, ss_running = True\<rparr>)"
    by (simp add: status_server_start_def status_server_new_def invalid_socket_def)
  have d: "filter (\<lambda>(t, x). delivers t) ?ts =
      [(sample_turn True 1 5, status_new, [60, 7]), (sample_turn True 1 8, status_new, [7, -1, 9])]"
    by (simp add: sample_turn_def delivers_def waitReadable_def invalid_socket_def)
  have run: "\<forall>(t, x) \<in> set ?ts. tn_running t = ss_running \<lparr>ss_listenSocket = 3, ss_running = True\<rparr>
      \<and> tn_running_after t = ss_running \<lparr>ss_listenSocket = 3, ss_running = True\<rparr>"
    and stop: "tn_running (sample_turn False 1 7) = ss_running (status_server_stop \<lparr>ss_listenSocket = 3, ss_running = True\<rparr>)"
    by (simp_all add: sample_turn_def status_server_stop_def)
  have z: "show_nat 0 = ''0''" by (simp add: show_nat.simps digit_char_def char_of_def bit_0)
  have client: "tn_client (sample_turn b n c) = c" for b n c by (simp add: sample_turn_def)
  have "status_serve (?ts @ (sample_turn False 1 7, status_new, [67]) # []) =
      [(5, ''height=0 difficulty=0 mining=false threads=0 hashrate=0H/s peers=0'' @ [CHR 0x0A], [5]), (8, ''height='', [8])]"
    unfolding conjunct2[OF status_until_stopped[OF s run stop, of "(status_new, [67])" "[]"]] d
    by (simp add: status_new_def show_u64_def show_u32_def show_int_def z client)
  then show ?thesis by simp
qed

end
