(* ===== verification/Miner.thy ===== *)
theory Miner
  imports Mempool_Laws Chain Status_Monitor "HOL-Library.Multiset"
begin

text \<open>
  \<^verbatim>\<open>src/node/miner.hpp\<close>: the worker threads. A worker is a program counter between two accesses
  to shared state; each access (a locked method of the chain, the state store or the mempool, or
  an atomic) is one step. The node's threads are a step relation that interleaves the steps of
  any number of workers with the steps of the other threads.
\<close>

definition kCoinbaseReward :: u64 where "kCoinbaseReward = 50"
definition kMaxTxPerBlock :: nat where "kMaxTxPerBlock = 20"

text \<open>What the threads of a node share.\<close>

record shared =
  sh_chain :: chain
  sh_state :: state_store
  sh_mempool :: mempool
  sh_status :: node_status
  sh_stopFlag :: bool
  sh_hashes :: u64

subsection \<open>A worker\<close>

datatype pc =
    OuterTest
  | TakeTxs
  | Building "string list"
  | InnerTest block
  | TryHash block
  | Append block
  | Apply block
  | PubHeight
  | StoreHeight u64
  | PubDifficulty
  | StoreDifficulty u32
  | Finished

text \<open>
  \<^verbatim>\<open>workerLoop\<close>, one access at a time: \<open>addr\<close> is the miner's address, \<open>wid\<close> the worker's number and
  \<open>now\<close> the clock. An exception of the mempool or the state store is not caught.
\<close>

fun worker_step ::
  "env \<Rightarrow> i64 \<Rightarrow> string \<Rightarrow> nat \<Rightarrow> pc \<Rightarrow> shared \<Rightarrow> (pc \<times> shared) res" where
  "worker_step E now addr wid OuterTest s =
     Inr (if sh_stopFlag s then Finished else TakeTxs, s)"
| "worker_step E now addr wid TakeTxs s =
     bind_res (mempool_take kMaxTxPerBlock (sh_mempool s)) (\<lambda>(ls, m').
       Inr (Building (coinbase_line addr kCoinbaseReward # ls), s\<lparr>sh_mempool := m'\<rparr>))"
| "worker_step E now addr wid (Building txLines) s =
     (let candidate = buildCandidate E now txLines (sh_chain s)
      in Inr (InnerTest (candidate\<lparr>blk_nonce := push_bit 48 (word_of_nat wid)\<rparr>), s))"
| "worker_step E now addr wid (InnerTest candidate) s =
     Inr (if sh_stopFlag s then OuterTest else TryHash candidate, s)"
| "worker_step E now addr wid (TryHash candidate) s =
     (let s' = s\<lparr>sh_hashes := sh_hashes s + 1\<rparr>
      in Inr (if meetsDifficulty (computeHash E candidate) (blk_difficulty candidate)
              then Append candidate else InnerTest (next_nonce candidate), s'))"
| "worker_step E now addr wid (Append candidate) s =
     (case tryAppendMinedBlock E candidate (sh_chain s) of (ok, ch') \<Rightarrow>
        Inr (if ok then Apply candidate else OuterTest, s\<lparr>sh_chain := ch'\<rparr>))"
| "worker_step E now addr wid (Apply candidate) s =
     bind_res (applyBlock E candidate (sh_state s)) (\<lambda>st'.
       Inr (PubHeight, s\<lparr>sh_state := st'\<rparr>))"
| "worker_step E now addr wid PubHeight s = Inr (StoreHeight (chain_height (sh_chain s)), s)"
| "worker_step E now addr wid (StoreHeight h) s =
     Inr (PubDifficulty, s\<lparr>sh_status := (sh_status s)\<lparr>ns_height := h\<rparr>\<rparr>)"
| "worker_step E now addr wid PubDifficulty s = Inr (StoreDifficulty (chn_difficulty (sh_chain s)), s)"
| "worker_step E now addr wid (StoreDifficulty d) s =
     Inr (OuterTest, s\<lparr>sh_status := (sh_status s)\<lparr>ns_difficulty := d\<rparr>\<rparr>)"
| "worker_step E now addr wid Finished s = Inr (Finished, s)"

text \<open>\<^verbatim>\<open>start\<close>, after it has stopped the threads of an earlier start, and the end of \<^verbatim>\<open>stop\<close>.\<close>

definition miner_start :: "int \<Rightarrow> shared \<Rightarrow> pc list \<times> shared" where
  "miner_start threadCount s =
     (replicate (nat threadCount) OuterTest,
      s\<lparr>sh_stopFlag := False,
        sh_status := (sh_status s)\<lparr>ns_mining := True, ns_miningThreads := threadCount\<rparr>\<rparr>)"

definition miner_stop_request :: "shared \<Rightarrow> shared" where
  "miner_stop_request s = s\<lparr>sh_stopFlag := True\<rparr>"

definition miner_stop_done :: "shared \<Rightarrow> shared" where
  "miner_stop_done s = s\<lparr>sh_status := (sh_status s)\<lparr>ns_mining := False, ns_miningThreads := 0,
     ns_hashesLastSecond := 0\<rparr>\<rparr>"

text \<open>One turn of \<^verbatim>\<open>hashrateLoop\<close>.\<close>

definition hashrate_turn :: "shared \<Rightarrow> shared" where
  "hashrate_turn s = s\<lparr>sh_status := (sh_status s)\<lparr>ns_hashesLastSecond := sh_hashes s\<rparr>, sh_hashes := 0\<rparr>"

subsection \<open>The threads of a node\<close>

text \<open>
  The state of the threads: the workers' program counters and what they share. Besides the
  workers there are the threads that submit transactions, the hash rate thread, and the user's
  commands that set the difficulty or ask the miner to stop.
\<close>

type_synonym node_threads = "pc list \<times> shared"

inductive mining_step :: "env \<Rightarrow> string \<Rightarrow> node_threads \<Rightarrow> node_threads \<Rightarrow> bool"
  for E :: env and addr :: string where
  worker: "i < length pcs \<Longrightarrow> worker_step E now addr i (pcs ! i) s = Inr (pc', s') \<Longrightarrow>
    mining_step E addr (pcs, s) (pcs[i := pc'], s')"
| submit: "mempool_add E (sh_state s) tx (sh_mempool s) = Inr (err, m') \<Longrightarrow>
    mining_step E addr (pcs, s) (pcs, s\<lparr>sh_mempool := m'\<rparr>)"
| retarget: "mining_step E addr (pcs, s) (pcs, s\<lparr>sh_chain := setDifficulty d (sh_chain s),
    sh_status := (sh_status s)\<lparr>ns_difficulty := d\<rparr>\<rparr>)"
| hashrate: "mining_step E addr (pcs, s) (pcs, hashrate_turn s)"
| stop_request: "mining_step E addr (pcs, s) (pcs, miner_stop_request s)"

text \<open>The block a worker has appended and not yet applied.\<close>

fun pending_block :: "pc \<Rightarrow> block multiset" where
  "pending_block (Apply b) = {#b#}"
| "pending_block _ = {#}"

definition pending_blocks :: "pc list \<Rightarrow> block multiset" where
  "pending_blocks pcs = (\<Sum>pc \<in># mset pcs. pending_block pc)"

lemma pending_update:
  assumes "i < length pcs"
  shows "pending_blocks (pcs[i := pc']) + pending_block (pcs ! i) = pending_blocks pcs + pending_block pc'"
proof -
  have "mset (pcs[i := pc']) = mset pcs - {#pcs ! i#} + {#pc'#}"
    using assms by (simp add: mset_update)
  moreover have "mset pcs = mset pcs - {#pcs ! i#} + {#pcs ! i#}"
    using assms by simp
  ultimately have "pending_blocks (pcs[i := pc']) = (\<Sum>pc \<in># mset pcs - {#pcs ! i#}. pending_block pc) + pending_block pc'"
    "pending_blocks pcs = (\<Sum>pc \<in># mset pcs - {#pcs ! i#}. pending_block pc) + pending_block (pcs ! i)"
    unfolding pending_blocks_def
    by (metis image_mset_add_mset sum_mset.insert add_mset_add_single add.commute)+
  then show ?thesis by (simp add: ac_simps)
qed

subsection \<open>Invariants of the threads\<close>

text \<open>
  The blocks of the chain are those applied to the state, in some order, and those still
  pending; the candidates about to be appended are solved.
\<close>

definition mining_inv :: "env \<Rightarrow> node_threads \<Rightarrow> bool" where
  "mining_inv E ps \<longleftrightarrow> (case ps of (pcs, s) \<Rightarrow>
     chain_inv E (sh_chain s)
     \<and> (\<exists>applied. mset applied + pending_blocks pcs = mset (chn_blocks (sh_chain s))
          \<and> fold_res (applyBlock E) applied state_empty = Inr (sh_state s)))"

lemma fold_res_snoc: "fold_res f xs s = Inr t \<Longrightarrow> f x t = Inr u \<Longrightarrow> fold_res f (xs @ [x]) s = Inr u"
  by (simp add: fold_res_append)

lemma worker_frame:
  assumes "worker_step E now addr i pc s = Inr (pc', s')"
    "\<forall>b. pc \<noteq> Append b" "\<forall>b. pc \<noteq> Apply b"
  shows "sh_chain s' = sh_chain s \<and> sh_state s' = sh_state s
    \<and> pending_block pc = {#} \<and> pending_block pc' = {#}"
  using assms by (cases pc) (auto simp: bind_res_Inr_iff Let_def split: prod.splits if_splits)

lemma worker_mining_inv:
  assumes inv: "mining_inv E (pcs, s)" and i: "i < length pcs"
    and step: "worker_step E now addr i (pcs ! i) s = Inr (pc', s')"
  shows "mining_inv E (pcs[i := pc'], s')"
proof -
  obtain applied where ci: "chain_inv E (sh_chain s)"
    and acc: "mset applied + pending_blocks pcs = mset (chn_blocks (sh_chain s))"
    and st: "fold_res (applyBlock E) applied state_empty = Inr (sh_state s)"
    using inv by (auto simp: mining_inv_def)
  note pend = pending_update[OF i, of pc']
  consider (app) b where "pcs ! i = Append b" | (apl) b where "pcs ! i = Apply b"
    | (other) "\<forall>b. pcs ! i \<noteq> Append b" "\<forall>b. pcs ! i \<noteq> Apply b" by blast
  then show ?thesis
  proof cases
    case (app b)
    obtain ok ch' where t: "tryAppendMinedBlock E b (sh_chain s) = (ok, ch')"
      by (cases "tryAppendMinedBlock E b (sh_chain s)")
    with step app have s': "pc' = (if ok then Apply b else OuterTest)" "s' = s\<lparr>sh_chain := ch'\<rparr>"
      by simp_all
    have "chain_inv E ch'" using tryAppend_inv[OF ci, of b] t by simp
    moreover have "mset (chn_blocks ch') = mset (chn_blocks (sh_chain s)) + pending_block pc'"
      using t s' by (auto simp: tryAppendMinedBlock_def split: if_splits)
    ultimately show ?thesis
      using pend app acc st s' by (auto simp: mining_inv_def ac_simps intro!: exI[of _ applied])
  next
    case (apl b)
    with step obtain st' where a: "applyBlock E b (sh_state s) = Inr st'"
      and s': "pc' = PubHeight" "s' = s\<lparr>sh_state := st'\<rparr>" by (auto simp: bind_res_Inr_iff)
    have "pending_blocks pcs = add_mset b (pending_blocks (pcs[i := pc']))"
      using pend apl s' by simp
    then have "mset (applied @ [b]) + pending_blocks (pcs[i := pc']) = mset (chn_blocks (sh_chain s))"
      using acc by simp
    moreover have "fold_res (applyBlock E) (applied @ [b]) state_empty = Inr st'"
      using st a by (rule fold_res_snoc)
    ultimately show ?thesis using ci s' unfolding mining_inv_def by (auto intro!: exI[of _ "applied @ [b]"])
  next
    case other
    from worker_frame[OF step other] pend
    have "sh_chain s' = sh_chain s" "sh_state s' = sh_state s" "pending_blocks (pcs[i := pc']) = pending_blocks pcs"
      by simp_all
    with ci acc st show ?thesis by (auto simp: mining_inv_def)
  qed
qed

lemma mining_step_inv:
  assumes "mining_step E addr ps ps'" "mining_inv E ps"
  shows "mining_inv E ps'"
  using assms(1)
proof (cases rule: mining_step.cases)
  case (worker i pcs now s pc' s')
  with assms(2) worker_mining_inv show ?thesis by blast
qed (use assms(2) in \<open>auto simp: mining_inv_def hashrate_turn_def miner_stop_request_def setDifficulty_def
      chain_inv_def\<close>)

definition mining_init :: "env \<Rightarrow> node_threads \<Rightarrow> bool" where
  "mining_init E ps \<longleftrightarrow> (case ps of (pcs, s) \<Rightarrow>
     (\<exists>n. pcs = replicate n OuterTest) \<and> chain_inv E (sh_chain s)
     \<and> rebuildFromBlocks E (chn_blocks (sh_chain s)) state_empty = Inr (sh_state s))"

lemma pending_idle [simp]: "pending_blocks (replicate n OuterTest) = {#}"
  by (simp add: pending_blocks_def)

lemma mining_init_inv: "mining_init E ps \<Longrightarrow> mining_inv E ps"
  unfolding mining_init_def mining_inv_def by (auto simp: rebuild_eq)

interpretation threads: invariant_system "mining_init E" "mining_step E addr" "mining_inv E" for E addr
  by unfold_locales (auto intro: mining_init_inv mining_step_inv)

end
