(* ===== verification/Peer_Client.thy ===== *)
theory Peer_Client
  imports Net Block
begin

text \<open>
  \<^verbatim>\<open>src/p2p/peer_client.hpp\<close>: the four requests a node makes to a peer and the peer's address.
  An attempt to connect is \<open>None\<close> when it fails and otherwise the results of the calls on the
  connection; each request returns its result and the bytes it put on the connection.
\<close>

record peer_address =
  pa_host :: string
  pa_port :: int

definition peer_toString :: "peer_address \<Rightarrow> string" where
  "peer_toString a = pa_host a @ CHR '':'' # show_int (pa_port a)"

definition parsePeerAddress :: "string \<Rightarrow> peer_address option" where
  "parsePeerAddress s =
     (case find_char s (CHR '':'') 0 of
        None \<Rightarrow> None
      | Some pos \<Rightarrow>
          (case stoi (substr_from s (pos + 1)) of
             Inl _ \<Rightarrow> None
           | Inr port \<Rightarrow> Some \<lparr>pa_host = substr s 0 pos, pa_port = port\<rparr>))"

record conn =
  cn_sends :: sends
  cn_recvs :: recvs

abbreviation newline :: string where "newline \<equiv> [CHR 0x0A]"

text \<open>The exchange three of the requests share: send one line, read one line.\<close>

definition queryHeight :: "data_model \<Rightarrow> conn option \<Rightarrow> int \<times> string" where
  "queryHeight dm c =
     (case c of
        None \<Rightarrow> (- 1, [])
      | Some c \<Rightarrow>
          (let wire = snd (sendAll (cn_sends c) (''HEIGHT'' @ newline));
               reply = fst (recvLine (cn_recvs c))
           in case stol dm reply of Inl _ \<Rightarrow> (- 1, wire) | Inr h \<Rightarrow> (h, wire)))"

definition announceWallet :: "string \<Rightarrow> conn option \<Rightarrow> bool \<times> string" where
  "announceWallet address c =
     (case c of
        None \<Rightarrow> (False, [])
      | Some c \<Rightarrow>
          (let wire = snd (sendAll (cn_sends c) (''ANNOUNCE '' @ address @ newline));
               reply = fst (recvLine (cn_recvs c))
           in (reply = ''OK'', wire)))"

definition broadcastTransaction :: "string \<Rightarrow> conn option \<Rightarrow> bool \<times> string" where
  "broadcastTransaction txLine c =
     (case c of
        None \<Rightarrow> (False, [])
      | Some c \<Rightarrow>
          (let wire = snd (sendAll (cn_sends c) (''TX '' @ txLine @ newline));
               reply = fst (recvLine (cn_recvs c))
           in (reply = ''OK'', wire)))"

subsection \<open>The chain transfer\<close>

definition unread :: "reader \<Rightarrow> recvs \<Rightarrow> nat" where
  "unread rd rs = length (rd_buf rd) + length (concat rs)"

lemma readLine_consumes:
  assumes "readLine rd rs = (line, rd', rs')"
  shows "unread rd' rs' < unread rd rs \<or> line = [] \<and> reader_eof rd'"
proof -
  have "unread rd' rs' < unread rd rs \<or> unread rd' rs' \<le> unread rd rs \<and> line = [] \<and> reader_eof rd'"
    using assms
  proof (induction rd rs rule: readLine.induct)
    case (1 rd rs)
    show ?case
    proof (cases "find_char (rd_buf rd) (CHR 0x0A) 0")
      case (Some nl)
      with 1(4) have "rd' = rd\<lparr>rd_buf := drop (nl + 1) (rd_buf rd)\<rparr>" "rs' = rs"
        by (simp_all add: readLine_line)
      moreover have "length (drop (nl + 1) (rd_buf rd)) < length (rd_buf rd)"
        using find_char_in_range[OF Some] by simp
      ultimately show ?thesis by (auto simp: unread_def)
    next
      case None
      show ?thesis
      proof (cases "rd_atEof rd")
        case True
        with None 1(4) have "line = rd_buf rd" "rd' = rd\<lparr>rd_buf := []\<rparr>" "rs' = rs"
          by (simp_all add: readLine_more(1))
        with True show ?thesis by (cases "rd_buf rd") (simp_all add: unread_def reader_eof_def)
      next
        case False
        show ?thesis
        proof (cases rs)
          case Nil
          with False None 1(4) have "readLine (rd\<lparr>rd_atEof := True\<rparr>) [] = (line, rd', rs')"
            by (simp add: readLine_more(2))
          with 1(1)[OF None False Nil] Nil show ?thesis by (simp add: unread_def)
        next
          case (Cons chunk rest)
          show ?thesis
          proof (cases "chunk = []")
            case True
            with Cons False None 1(4) have "readLine (rd\<lparr>rd_atEof := True\<rparr>) rest = (line, rd', rs')"
              by (simp add: readLine_more(3))
            with 1(2)[OF None False Cons True] Cons True show ?thesis by (simp add: unread_def)
          next
            case c: False
            with Cons False None 1(4)
            have "readLine (rd\<lparr>rd_buf := rd_buf rd @ chunk\<rparr>) rest = (line, rd', rs')"
              by (simp add: readLine_more(4))
            with 1(3)[OF None False Cons c] Cons show ?thesis by (simp add: unread_def add.assoc)
          qed
        qed
      qed
    qed
  qed
  then show ?thesis by blast
qed

text \<open>The loop of \<^verbatim>\<open>fetchChain\<close>; an exception of the decoder leaves it uncaught.\<close>

function fetch_loop :: "data_model \<Rightarrow> block list \<Rightarrow> reader \<Rightarrow> recvs \<Rightarrow> block list res" where
  "fetch_loop dm blocks rd rs =
     (case readLine rd rs of (line, rd', rs') \<Rightarrow>
        if line = ''END'' \<or> (line = [] \<and> reader_eof rd') then Inr blocks
        else (case block_fromLine dm line of
                Inl e \<Rightarrow> Inl e
              | Inr b \<Rightarrow> fetch_loop dm (blocks @ [b]) rd' rs'))"
  by pat_completeness auto

termination
proof (relation "measure (\<lambda>(dm, blocks, rd, rs). unread rd rs)", simp)
  fix dm blocks rd rs line y rd' rs' b
  assume r: "(line, y) = readLine rd rs" "(rd', rs') = y"
    and "\<not> (line = ''END'' \<or> (line = [] \<and> reader_eof rd'))"
  then have "\<not> (line = [] \<and> reader_eof rd')" by blast
  moreover from r have "readLine rd rs = (line, rd', rs')" by simp
  ultimately have "unread rd' rs' < unread rd rs" using readLine_consumes by blast
  then show "((dm, blocks @ [b], rd', rs'), dm, blocks, rd, rs)
      \<in> measure (\<lambda>(dm, blocks, rd, rs). unread rd rs)" by simp
qed

declare fetch_loop.simps [simp del]

definition fetchChain :: "data_model \<Rightarrow> conn option \<Rightarrow> block list res \<times> string" where
  "fetchChain dm c =
     (case c of
        None \<Rightarrow> (Inr [], [])
      | Some c \<Rightarrow>
          (let wire = snd (sendAll (cn_sends c) (''GET_CHAIN'' @ newline))
           in (fetch_loop dm [] reader_new (cn_recvs c), wire)))"

end
