(* ===== verification/Peer_Server.thy ===== *)
theory Peer_Server
  imports Mempool_Laws Peer_Client Chain Accept_Loop
begin

text \<open>
  \<^verbatim>\<open>src/p2p/peer_server.hpp\<close>: the server side of the peer protocol. \<^verbatim>\<open>handleClient\<close> reads one
  request line and answers it from the chain and the mempool; only the mempool changes. An
  exception (a transaction line that does not decode, a key that is not hexadecimal) leaves the
  handler's thread uncaught and ends the process.
\<close>

text \<open>
  The branch chosen by a request: the text sent back (\<open>None\<close> when nothing is sent), the text
  printed on the console, and the mempool.
\<close>

definition answer ::
  "env \<Rightarrow> chain \<Rightarrow> state_store \<Rightarrow> string \<Rightarrow> mempool \<Rightarrow> (string option \<times> string \<times> mempool) res" where
  "answer E ch st request m =
     (if request = ''HEIGHT'' then Inr (Some (show_u64 (chain_height ch) @ newline), [], m)
      else if request = ''GET_CHAIN''
      then Inr (Some (concat (map (\<lambda>line. line @ newline) (dumpLines ch)) @ ''END'' @ newline), [], m)
      else if starts_with request ''ANNOUNCE ''
      then (let address = substr_from request 9
            in Inr (Some (''OK'' @ newline),
                    newline @ ''[peer] wallet announced: '' @ address @ newline @ ''mbc> '', m))
      else if starts_with request ''TX ''
      then bind_res (tx_fromLine (substr_from request 3)) (\<lambda>tx.
             bind_res (mempool_add E st tx m) (\<lambda>(err, m').
               Inr (Some (if err = [] then ''OK'' @ newline else ''REJECTED'' @ newline),
                    newline @ ''[peer] tx received '' @ substr (tx_sender tx) 0 12 @ ''... -> '' @
                    substr (tx_receiver tx) 0 12 @ ''... amount='' @ show_u64 (tx_amount tx) @
                    (if err = [] then '' (accepted into mempool)'' else '' (rejected: '' @ err @ '')'') @
                    newline @ ''mbc> '', m')))
      else Inr (None, [], m))"

text \<open>The handler: what it puts on the connection, what it prints, and the mempool after it.\<close>

definition handleClient ::
  "env \<Rightarrow> chain \<Rightarrow> state_store \<Rightarrow> conn \<Rightarrow> mempool \<Rightarrow> (string \<times> string \<times> mempool) res" where
  "handleClient E ch st c m =
     bind_res (answer E ch st (fst (recvLine (cn_recvs c))) m) (\<lambda>(reply, console, m').
       Inr (case reply of None \<Rightarrow> [] | Some text \<Rightarrow> snd (sendAll (cn_sends c) text), console, m'))"

subsection \<open>The server object\<close>

text \<open>
  The listening flag, port and socket of the server, and the two operations that change
  them. The accept loop hands every accepted connection to \<^verbatim>\<open>handleClient\<close>.
\<close>

record peer_server =
  ps_listenSocket :: int
  ps_running :: bool
  ps_port :: int

definition peer_server_new :: peer_server where
  "peer_server_new = \<lparr>ps_listenSocket = invalid_socket, ps_running = False, ps_port = 0\<rparr>"

definition peer_server_start :: "int \<Rightarrow> int \<Rightarrow> peer_server \<Rightarrow> bool \<times> peer_server" where
  "peer_server_start listening port srv =
     (let srv1 = srv\<lparr>ps_listenSocket := listening\<rparr>
      in if listening = invalid_socket then (False, srv1)
         else (True, srv1\<lparr>ps_running := True, ps_port := port\<rparr>))"

definition peer_server_stop :: "peer_server \<Rightarrow> peer_server" where
  "peer_server_stop srv = srv\<lparr>ps_running := False\<rparr>"

text \<open>The thread of \<^verbatim>\<open>stop\<close> closes the listening socket (\<open>closeSocket (ps_listenSocket srv)\<close>) and joins the loop.\<close>

interpretation peer_srv: accept_server peer_server_start peer_server_stop ps_running ps_listenSocket
  by unfold_locales (auto simp: peer_server_start_def peer_server_stop_def Let_def split: if_splits)

text \<open>
  The server at work: the connections its accept loop takes, each with the connection's calls and
  the chain, state and mempool its handler finds, and what each handler does: its results and the
  socket it closes at the end, which it does not reach when it throws.
\<close>

definition peer_serve ::
  "env \<Rightarrow> (turn \<times> conn \<times> chain \<times> state_store \<times> mempool) list \<Rightarrow>
   (int \<times> ((string \<times> string \<times> mempool) \<times> int list) res) list" where
  "peer_serve E turns =
     map (\<lambda>(client, c, ch, st, m).
         (client, bind_res (handleClient E ch st c m) (\<lambda>done. Inr (done, closeSocket client))))
       (accept_loop turns)"

text \<open>
  A server that has started hands every connection accepted before its stop to a handler, in
  order, each handler that returns closes its connection, and stopping closes the listening socket.
\<close>

lemma peer_until_stopped:
  assumes "peer_server_start l port srv = (True, srv')"
    and "\<forall>(t, x) \<in> set ts. tn_running t = ps_running srv' \<and> tn_running_after t = ps_running srv'"
    and "tn_running t' = ps_running (peer_server_stop srv')"
  shows "map fst (peer_serve E (ts @ (t', y) # us)) = map (tn_client \<circ> fst) (filter (\<lambda>(t, x). delivers t) ts)
    \<and> (\<forall>(client, r) \<in> set (peer_serve E (ts @ (t', y) # us)). \<forall>x closed. r = Inr (x, closed) \<longrightarrow> closed = [client])
    \<and> closeSocket (ps_listenSocket (peer_server_stop srv')) = [l]"
proof -
  note s = peer_srv.served_until_stopped[OF assms(1,2,3), of y us]
  show ?thesis
    using conjunct2[OF s] unfolding peer_serve_def conjunct1[OF s]
    by (auto simp: case_prod_beta comp_def bind_res_Inr_iff delivers_def closeSocket_def)
qed

subsection \<open>The requests of the client, answered\<close>

lemma recv_bytes_line [simp]: "CHR 0x0A \<notin> set x \<Longrightarrow> fst (recvLine (byte_calls (x @ newline))) = x"
  using line_of_append[of x "[]"] by simp

lemma starts_with_literals [simp]:
  "starts_with (''ANNOUNCE '' @ x) ''ANNOUNCE ''" "starts_with (''TX '' @ x) ''TX ''"
  "\<not> starts_with (''TX '' @ x) ''ANNOUNCE ''"
  "substr_from (''ANNOUNCE '' @ x) 9 = x" "substr_from (''TX '' @ x) 3 = x"
  by (simp_all add: starts_with_def substr_from_def)

lemma answer_height: "answer E ch st ''HEIGHT'' m = Inr (Some (show_u64 (chain_height ch) @ newline), [], m)"
  by (simp add: answer_def)

lemma answer_chain:
  "answer E ch st ''GET_CHAIN'' m =
    Inr (Some (concat (map (\<lambda>line. line @ newline) (dumpLines ch)) @ ''END'' @ newline), [], m)"
  by (simp add: answer_def)

lemma answer_announce:
  "answer E ch st (''ANNOUNCE '' @ address) m =
    Inr (Some (''OK'' @ newline), newline @ ''[peer] wallet announced: '' @ address @ newline @ ''mbc> '', m)"
  using starts_with_literals(1,4)[of address] unfolding answer_def Let_def by simp

lemma answer_tx:
  assumes "bar_free tx" "mempool_add E st tx m = Inr (err, m')"
  shows "\<exists>console. answer E ch st (''TX '' @ tx_toLine tx) m =
    Inr (Some (if err = [] then ''OK'' @ newline else ''REJECTED'' @ newline), console, m')"
  using starts_with_literals(2,3,5)[of "tx_toLine tx"] assms
  unfolding answer_def by (simp add: txc.dec_enc)

text \<open>Whatever the request, the mempool keeps its representation.\<close>

lemma answer_represents:
  assumes "answer E ch st request m = Inr (reply, console, m')" "represents m txs"
  shows "\<exists>txs'. represents m' txs' \<and> (txs' = txs \<or> (\<exists>tx. txs' = txs @ [tx] \<and> admissible E st tx m))"
proof (cases "m' = m")
  case True
  with assms(2) show ?thesis by blast
next
  case False
  with assms(1) obtain tx err where tx: "tx_fromLine (substr_from request 3) = Inr tx"
    "mempool_add E st tx m = Inr (err, m')"
    by (auto simp: answer_def bind_res_Inr_iff Let_def split: if_splits)
  from tx(2) False have adm: "admissible E st tx m" "err = []"
    by (auto elim: mempool_add_cases)
  from mempool_add_represents[OF tx(2) assms(2) tx_fromLine_bar_free[OF tx(1)]] adm
  show ?thesis by auto
qed

end
