(* ===== verification/Peer_Protocol.thy ===== *)
theory Peer_Protocol
  imports Peer_Server
begin

text \<open>
  The two sides of the peer protocol together: what the client's requests return when the
  server's handler answers them over connections that may cut the bytes anywhere, and what is
  left of a chain transfer when the connection breaks.
\<close>

subsection \<open>The chain transfer\<close>

definition chain_text :: "block list \<Rightarrow> string" where
  "chain_text bs = concat (map (\<lambda>b. block_toLine b @ newline) bs)"

lemma chain_text_simps [simp]:
  "chain_text [] = []" "chain_text (b # bs) = block_toLine b @ CHR 0x0A # chain_text bs"
  by (simp_all add: chain_text_def)

lemma chain_text_dump: "concat (map (\<lambda>line. line @ newline) (dumpLines ch)) = chain_text (chn_blocks ch)"
  by (simp add: dumpLines_def chain_text_def comp_def)

text \<open>The loop of \<^verbatim>\<open>fetchChain\<close> collects the blocks at the front of the text to come.\<close>

lemma fetch_loop_blocks:
  assumes "chunks_ok rs" "pending_text rd rs = chain_text bs @ tail" "\<forall>b \<in> set bs. block_wire_ok b"
  shows "\<exists>rd' rs'. fetch_loop dm blocks rd rs = fetch_loop dm (blocks @ bs) rd' rs'
    \<and> pending_text rd' rs' = tail \<and> chunks_ok rs'"
  using assms
proof (induction bs arbitrary: blocks rd rs)
  case Nil
  then show ?case by auto
next
  case (Cons b bs)
  obtain line rd1 rs1 where r: "readLine rd rs = (line, rd1, rs1)"
    by (cases "readLine rd rs")
  have ok: "block_wire_ok b" using Cons.prems(3) by simp
  have nl: "CHR 0x0A \<notin> set (block_toLine b)" using blk.enc_no_newline[OF ok] .
  have line: "line = block_toLine b" and rest: "pending_text rd1 rs1 = chain_text bs @ tail" "chunks_ok rs1"
    using readLine_spec[OF Cons.prems(1) r] Cons.prems(2) nl by simp_all
  have "fetch_loop dm blocks rd rs = fetch_loop dm (blocks @ [b]) rd1 rs1"
    using r line blk.enc_not_end[OF ok] blk.enc_nonempty[OF ok] blk.dec_enc[OF ok, of dm]
    by (simp add: fetch_loop.simps[of dm blocks rd rs])
  with Cons.IH[OF rest(2,1), of "blocks @ [b]"] Cons.prems(3) show ?case by simp
qed

lemma fetch_loop_end:
  assumes "chunks_ok rs" "pending_text rd rs = ''END'' @ CHR 0x0A # tail \<or> pending_text rd rs = []"
  shows "fetch_loop dm blocks rd rs = Inr blocks"
proof -
  obtain line rd' rs' where r: "readLine rd rs = (line, rd', rs')" by (cases "readLine rd rs")
  from readLine_spec[OF assms(1) r] assms(2) have "line = ''END'' \<or> line = [] \<and> reader_eof rd'"
    by auto
  with r show ?thesis by (simp add: fetch_loop.simps[of dm blocks rd rs])
qed

text \<open>A transfer that breaks inside a line: the part of the line received is decoded as a line.\<close>

lemma fetch_loop_torn:
  assumes "chunks_ok rs" "pending_text rd rs = part" "CHR 0x0A \<notin> set part" "part \<noteq> []" "part \<noteq> ''END''"
  shows "fetch_loop dm blocks rd rs = bind_res (block_fromLine dm part) (\<lambda>b. Inr (blocks @ [b]))"
proof -
  obtain line rd' rs' where r: "readLine rd rs = (line, rd', rs')" by (cases "readLine rd rs")
  from readLine_spec[OF assms(1) r] assms(2,3)
  have line: "line = part" and rest: "pending_text rd' rs' = []" "chunks_ok rs'" by auto
  from rest have "fetch_loop dm bs rd' rs' = Inr bs" for bs by (intro fetch_loop_end) auto
  with r line assms(4,5) show ?thesis
    by (simp add: fetch_loop.simps[of dm blocks rd rs] bind_res_def split: sum.splits)
qed

subsection \<open>The peer's address\<close>

definition peer_ok :: "peer_address \<Rightarrow> bool" where
  "peer_ok a \<longleftrightarrow> CHR '':'' \<notin> set (pa_host a) \<and> - (2 ^ 31) \<le> pa_port a \<and> pa_port a < 2 ^ 31"

lemma parse_ok:
  assumes "parsePeerAddress s = Some a"
  shows "peer_ok a"
proof -
  obtain pos port where p: "find_char s (CHR '':'') 0 = Some pos" "stoi (substr_from s (pos + 1)) = Inr port"
    "a = \<lparr>pa_host = substr s 0 pos, pa_port = port\<rparr>"
    using assms by (auto simp: parsePeerAddress_def split: option.splits sum.splits)
  have "CHR '':'' \<in> set s" using p(1) find_char_0_None[of s "CHR '':''"] by auto
  then obtain x r where s: "s = x @ CHR '':'' # r" "CHR '':'' \<notin> set x"
    by (meson split_list_first)
  with p(1) have "pos = length x" by simp
  with s p(2,3) stoi_range[OF p(2)] show ?thesis by (simp add: peer_ok_def substr_def)
qed

lemma parse_toString:
  assumes "peer_ok a"
  shows "parsePeerAddress (peer_toString a) = Some a"
proof -
  have "stoi (show_int (pa_port a)) = Inr (pa_port a)"
    using assms by (intro stoi_show_int) (simp_all add: peer_ok_def)
  then show ?thesis
    using assms by (simp add: parsePeerAddress_def peer_toString_def peer_ok_def substr_def substr_from_def)
qed

subsection \<open>One request, answered\<close>

lemma queryHeight_reply:
  "unat h < 2 ^ (long_bits dm - 1) \<Longrightarrow>
   fst (queryHeight dm (Some \<lparr>cn_sends = ns, cn_recvs = byte_calls (show_u64 h @ newline)\<rparr>)) = int (unat h)"
  using recv_bytes_line[of "show_u64 h"]
  by (simp add: queryHeight_def Let_def stol_def show_u64_def strtos_show_nat)

lemma announceWallet_reply:
  "fst (announceWallet address (Some \<lparr>cn_sends = ns, cn_recvs = byte_calls (''OK'' @ newline)\<rparr>))"
  using recv_bytes_line[of "''OK''"] by (simp add: announceWallet_def Let_def)

lemma broadcast_reply:
  "fst (broadcastTransaction l (Some \<lparr>cn_sends = ns,
     cn_recvs = byte_calls (if ok then ''OK'' @ newline else ''REJECTED'' @ newline)\<rparr>)) = ok"
  using recv_bytes_line[of "''OK''"] recv_bytes_line[of "''REJECTED''"]
  by (simp add: broadcastTransaction_def Let_def)

text \<open>The request lines, as the server reads them.\<close>

lemma request_lines:
  "fst (recvLine (byte_calls (''HEIGHT'' @ newline))) = ''HEIGHT''"
  "fst (recvLine (byte_calls (''GET_CHAIN'' @ newline))) = ''GET_CHAIN''"
  "CHR 0x0A \<notin> set x \<Longrightarrow> fst (recvLine (byte_calls (''ANNOUNCE '' @ x @ newline))) = ''ANNOUNCE '' @ x"
  "CHR 0x0A \<notin> set x \<Longrightarrow> fst (recvLine (byte_calls (''TX '' @ x @ newline))) = ''TX '' @ x"
  using recv_bytes_line[of "''HEIGHT''"] recv_bytes_line[of "''GET_CHAIN''"]
    recv_bytes_line[of "''ANNOUNCE '' @ x"] recv_bytes_line[of "''TX '' @ x"]
  by simp_all

subsection \<open>Properties\<close>

text \<open>
  Syncing over any connection. When a server answers \<^verbatim>\<open>GET_CHAIN\<close> for a chain whose blocks the
  line format can carry, and the connection delivers its answer in whatever chunks, the client
  obtains exactly the server's blocks, in order, on both data models.
\<close>

lemma fetchChain_answer:
  assumes "answer E ch st ''GET_CHAIN'' m = Inr (Some text, console, m')"
    and "chunks_ok (cn_recvs c)" "concat (cn_recvs c) = text"
    and "\<forall>b \<in> set (chn_blocks ch). block_wire_ok b"
  shows "fst (fetchChain dm (Some c)) = Inr (chn_blocks ch)"
proof -
  have "pending_text reader_new (cn_recvs c) = chain_text (chn_blocks ch) @ ''END'' @ newline"
    using assms(1,3) by (simp add: answer_chain chain_text_dump)
  from fetch_loop_blocks[OF assms(2) this assms(4), of dm "[]"] show ?thesis
    using fetch_loop_end by (auto simp: fetchChain_def Let_def)
qed

lemma sample_chain_wire: "\<forall>b \<in> set (chn_blocks sample_chain). block_wire_ok b"
  by (auto simp: sample_chain_def sample_genesis_def genesis_candidate_def block_wire_ok_def)

lemma fetchChain_answer_example:
  "fst (fetchChain LP64 (Some \<lparr>cn_sends = [10],
      cn_recvs = [chain_text (chn_blocks sample_chain), ''EN'', ''D'' @ newline]\<rparr>))
   = Inr (chn_blocks sample_chain)"
proof (rule fetchChain_answer[OF answer_chain _ _ sample_chain_wire])
  show "chunks_ok (cn_recvs \<lparr>cn_sends = [10],
      cn_recvs = [chain_text (chn_blocks sample_chain), ''EN'', ''D'' @ newline]\<rparr>)"
    by (simp add: chunks_ok_def sample_chain_def)
qed (simp add: chain_text_dump)

text \<open>
  A broken transfer. When the connection ends early, the client still returns a list of blocks
  without an error: after whole lines the prefix of the peer's chain received so far, inside a
  line that prefix followed by whatever block the cut line decodes to, or the decoder's
  exception.
\<close>

lemma fetchChain_broken:
  assumes "chunks_ok (cn_recvs c)" "concat (cn_recvs c) = chain_text bs @ part"
    and "CHR 0x0A \<notin> set part" "part \<noteq> ''END''" "\<forall>b \<in> set bs. block_wire_ok b"
  shows "fst (fetchChain dm (Some c)) =
    (if part = [] then Inr bs else bind_res (block_fromLine dm part) (\<lambda>b. Inr (bs @ [b])))"
proof -
  have "pending_text reader_new (cn_recvs c) = chain_text bs @ part" using assms(2) by simp
  from fetch_loop_blocks[OF assms(1) this assms(5), of dm "[]"] obtain rd' rs'
    where "fetch_loop dm [] reader_new (cn_recvs c) = fetch_loop dm bs rd' rs'"
      "pending_text rd' rs' = part" "chunks_ok rs'" by auto
  with fetch_loop_end[of rs' rd'] fetch_loop_torn[of rs' rd' part] assms(3,4) show ?thesis
    by (simp add: fetchChain_def Let_def)
qed

lemma fetchChain_broken_example:
  "fst (fetchChain LP64 (Some \<lparr>cn_sends = [], cn_recvs = [chain_text [sample_block], ''1|2'']\<rparr>))
   = Inr [sample_block, block_default]"
proof -
  have "block_fromLine LP64 ''1|2'' = Inr block_default" by (simp add: block_fromLine_def)
  then show ?thesis
    using fetchChain_broken[of "\<lparr>cn_sends = [], cn_recvs = [chain_text [sample_block], ''1|2'']\<rparr>"
        "[sample_block]" "''1|2''" LP64] sample_block_ok(1)
    by (simp add: chunks_ok_def)
qed

text \<open>
  Every connected request, answered. Against a server that reads the client's request line and
  whose answer reaches the client, \<^verbatim>\<open>queryHeight\<close> returns the server's height (when it is below
  the limit of \<^verbatim>\<open>long\<close>), \<^verbatim>\<open>announceWallet\<close> is acknowledged, and \<^verbatim>\<open>broadcastTransaction\<close> reports
  success exactly when the server's mempool accepted the transaction, read back unchanged.
\<close>

lemma requests_answered:
  assumes "CHR 0x0A \<notin> set address" "tx_wire_ok tx" "mempool_add E st tx m = Inr (err, m')"
    and "unat (chain_height ch) < 2 ^ (long_bits dm - 1)"
  shows "\<exists>h a t.
      answer E ch st (fst (recvLine (byte_calls (''HEIGHT'' @ newline)))) m = Inr (Some h, [], m)
    \<and> fst (queryHeight dm (Some \<lparr>cn_sends = s1, cn_recvs = byte_calls h\<rparr>)) = int (unat (chain_height ch))
    \<and> (\<exists>console. answer E ch st (fst (recvLine (byte_calls (''ANNOUNCE '' @ address @ newline)))) m
          = Inr (Some a, console, m))
    \<and> fst (announceWallet address (Some \<lparr>cn_sends = s2, cn_recvs = byte_calls a\<rparr>))
    \<and> (\<exists>console. answer E ch st (fst (recvLine (byte_calls (''TX '' @ tx_toLine tx @ newline)))) m
          = Inr (Some t, console, m'))
    \<and> (fst (broadcastTransaction (tx_toLine tx) (Some \<lparr>cn_sends = s3, cn_recvs = byte_calls t\<rparr>))
         \<longleftrightarrow> admissible E st tx m)"
proof -
  have nl: "CHR 0x0A \<notin> set (tx_toLine tx)" using txl.enc_no_newline[OF assms(2)] .
  obtain console where "answer E ch st (''TX '' @ tx_toLine tx) m =
      Inr (Some (if err = [] then ''OK'' @ newline else ''REJECTED'' @ newline), console, m')"
    using answer_tx[OF _ assms(3), of ch] assms(2) by (auto simp: tx_wire_ok_def)
  then show ?thesis
    using queryHeight_reply[OF assms(4), of s1] announceWallet_reply[of address s2]
      broadcast_reply[of "tx_toLine tx" s3 "err = []"] mempool_add_accepts_iff[OF assms(3)]
    unfolding request_lines(1) request_lines(3)[OF assms(1)] request_lines(4)[OF nl]
      answer_height answer_announce by blast
qed

lemma requests_answered_example:
  "\<exists>t m'. mempool_add sample_env sample_state sample_tx mempool_empty = Inr ([], m')
     \<and> fst (broadcastTransaction (tx_toLine sample_tx) (Some \<lparr>cn_sends = [], cn_recvs = byte_calls t\<rparr>))"
proof -
  obtain m' where m': "mempool_add sample_env sample_state sample_tx mempool_empty = Inr ([], m')"
    using mempool_add_accept[OF sample_admissible] by blast
  have tx: "tx_wire_ok sample_tx" using sample_tx_ok by (simp add: tx_wire_ok_def)
  have "unat (chain_height sample_chain) < 2 ^ (long_bits LP64 - 1)"
    by (simp add: sample_chain_def sample_genesis_def genesis_candidate_def chain_height_def)
  from requests_answered[OF _ tx m' this, of "''mbc1''" "[]" "[]" "[]"] m' sample_admissible
  show ?thesis by auto
qed

text \<open>
  Peer addresses. Whatever the user types, an accepted address has a host without colon and a
  port that fits an \<^verbatim>\<open>int\<close> (it may be negative), and the text shown for it is read back as the
  same address.
\<close>

lemma peer_address_roundtrip:
  assumes "parsePeerAddress s = Some a"
  shows "peer_ok a \<and> parsePeerAddress (peer_toString a) = Some a"
  using parse_ok[OF assms] parse_toString by simp

lemma peer_address_roundtrip_example:
  "parsePeerAddress (peer_toString \<lparr>pa_host = ''127.0.0.1'', pa_port = 7777\<rparr>)
   = Some \<lparr>pa_host = ''127.0.0.1'', pa_port = 7777\<rparr>"
proof -
  have "parsePeerAddress (peer_toString \<lparr>pa_host = ''127.0.0.1'', pa_port = 7777\<rparr>)
     = Some \<lparr>pa_host = ''127.0.0.1'', pa_port = 7777\<rparr>"
    by (rule parse_toString) (simp add: peer_ok_def)
  from peer_address_roundtrip[OF this] show ?thesis by blast
qed

end
