(* ===== verification/Node.thy ===== *)
theory Node
  imports Miner Peer_Protocol Keystore
begin

text \<open>
  \<^verbatim>\<open>src/node/main.cpp\<close>: the node process. The command loop reads a line, splits off the command
  and its arguments and runs a handler; the handlers use the chain, the state store, the mempool,
  the miner and the peers. A handler's connections are taken, one after the other, from a list
  of attempts; its result is a report, from which \<^verbatim>\<open>Console\<close> builds the text it prints. Announcing
  the wallet changes nothing in the node and is kept only where its connection comes before
  others whose results matter. Handlers run between the steps of the other threads: while a handler runs, the model's chain and state
  change only by its calls (\<^verbatim>\<open>Sync_Race\<close> takes the sync apart).
\<close>

record node =
  nd_shared :: shared
  nd_wallet :: wallet
  nd_peers :: "peer_address list"
  nd_server :: peer_server
  nd_listening :: bool
  nd_p2pPort :: int
  nd_workers :: "pc list"

type_synonym conns = "conn option list"

fun next_conn :: "conns \<Rightarrow> conn option \<times> conns" where
  "next_conn [] = (None, [])"
| "next_conn (c # cs) = (c, cs)"

subsection \<open>Start\<close>

text \<open>The loop over the arguments: the last \<^verbatim>\<open>--port\<close> with a value wins; a value that is no number throws.\<close>

fun port_args :: "string list \<Rightarrow> int \<Rightarrow> int res" where
  "port_args (a # v # rest) port =
     (if a = ''--port'' then bind_res (stoi v) (\<lambda>p. port_args (v # rest) p)
      else port_args (v # rest) port)"
| "port_args _ port = Inr port"

text \<open>The node after start-up, with the genesis block mined and a wallet. \<^verbatim>\<open>argv\<close> is without the program's name.\<close>

definition node_start :: "string list \<Rightarrow> chain \<Rightarrow> wallet \<Rightarrow> node res" where
  "node_start argv ch w =
     bind_res (port_args argv 7777) (\<lambda>port.
       Inr \<lparr>nd_shared = \<lparr>sh_chain = ch, sh_state = state_empty, sh_mempool = mempool_empty,
              sh_status = status_new\<lparr>ns_height := chain_height ch, ns_difficulty := chn_difficulty ch\<rparr>,
              sh_stopFlag = True, sh_hashes = 0\<rparr>,
            nd_wallet = w, nd_peers = [], nd_server = peer_server_new, nd_listening = False,
            nd_p2pPort = port, nd_workers = []\<rparr>)"

definition refreshHeightStatus :: "shared \<Rightarrow> shared" where
  "refreshHeightStatus s = s\<lparr>sh_status := (sh_status s)\<lparr>ns_height := chain_height (sh_chain s),
     ns_difficulty := chn_difficulty (sh_chain s)\<rparr>\<rparr>"

subsection \<open>Peers\<close>

fun announceToAllPeers :: "string \<Rightarrow> peer_address list \<Rightarrow> conns \<Rightarrow> bool list \<times> conns" where
  "announceToAllPeers address [] cs = ([], cs)"
| "announceToAllPeers address (p # ps) cs =
     (case next_conn cs of (c, cs') \<Rightarrow>
        (case announceToAllPeers address ps cs' of (oks, cs'') \<Rightarrow>
           (fst (announceWallet address c) # oks, cs'')))"

fun query_peers ::
  "data_model \<Rightarrow> peer_address list \<Rightarrow> conns \<Rightarrow> int \<Rightarrow> peer_address option \<Rightarrow> int \<times> peer_address option \<times> conns" where
  "query_peers dm [] cs bestHeight bestPeer = (bestHeight, bestPeer, cs)"
| "query_peers dm (p # ps) cs bestHeight bestPeer =
     (case next_conn cs of (c, cs') \<Rightarrow>
        (let h = fst (queryHeight dm c)
         in if bestHeight < h then query_peers dm ps cs' h (Some p)
            else query_peers dm ps cs' bestHeight bestPeer))"

datatype sync_report = NoKnownPeers | NoReachablePeers | AlreadyAsTall | Synced u64 | KeptLocal

text \<open>\<^verbatim>\<open>doInitNode\<close>. The connections are those of the announcements, of the height queries and of the transfer.\<close>

definition doInitNode :: "env \<Rightarrow> node \<Rightarrow> conns \<Rightarrow> (sync_report \<times> node) res" where
  "doInitNode E nd cs =
     (case announceToAllPeers (wal_address (nd_wallet nd)) (nd_peers nd) cs of (_, cs1) \<Rightarrow>
        if nd_peers nd = [] then Inr (NoKnownPeers, nd)
        else (case query_peers (platform E) (nd_peers nd) cs1 (- 1) None of (bestHeight, bestPeer, cs2) \<Rightarrow>
          if bestPeer = None \<or> bestHeight < 0 then Inr (NoReachablePeers, nd)
          else if word_of_int bestHeight \<le> chain_height (sh_chain (nd_shared nd)) then Inr (AlreadyAsTall, nd)
          else bind_res (fst (fetchChain (platform E) (fst (next_conn cs2)))) (\<lambda>blocks.
            case replaceIfLongerAndValid E blocks (sh_chain (nd_shared nd)) of (ok, ch') \<Rightarrow>
              (let s1 = (nd_shared nd)\<lparr>sh_chain := ch'\<rparr>
               in if ok
                  then bind_res (rebuildFromBlocks E blocks (sh_state s1)) (\<lambda>st'.
                    let s2 = refreshHeightStatus (s1\<lparr>sh_state := st'\<rparr>)
                    in Inr (Synced (chain_height (sh_chain s2)), nd\<lparr>nd_shared := s2\<rparr>))
                  else Inr (KeptLocal, nd\<lparr>nd_shared := s1\<rparr>)))))"

definition remember_peer :: "peer_address \<Rightarrow> node \<Rightarrow> node" where
  "remember_peer a nd =
     (let peers = nd_peers nd @ [a]
      in nd\<lparr>nd_peers := peers,
            nd_shared := (nd_shared nd)\<lparr>sh_status := (sh_status (nd_shared nd))\<lparr>ns_peerCount := int (length peers)\<rparr>\<rparr>\<rparr>)"

definition cmd_set_peer :: "string \<Rightarrow> node \<Rightarrow> bool \<times> node" where
  "cmd_set_peer addrStr nd =
     (case parsePeerAddress addrStr of
        None \<Rightarrow> (False, nd)
      | Some a \<Rightarrow> (True, remember_peer a nd))"

text \<open>\<^verbatim>\<open>ensureListening\<close>; \<open>listening\<close> is what \<^verbatim>\<open>listenOn\<close> returns.\<close>

definition ensureListening :: "int \<Rightarrow> node \<Rightarrow> node" where
  "ensureListening listening nd =
     (if nd_listening nd then nd
      else (case peer_server_start listening (nd_p2pPort nd) (nd_server nd) of (ok, srv) \<Rightarrow>
              nd\<lparr>nd_server := srv, nd_listening := ok\<rparr>))"

datatype join_report = JoinUsage | Unreachable | Joined int

definition cmd_join_net :: "env \<Rightarrow> string \<Rightarrow> conns \<Rightarrow> int \<Rightarrow> node \<Rightarrow> join_report \<times> node" where
  "cmd_join_net E addrStr cs listening nd =
     (case parsePeerAddress addrStr of
        None \<Rightarrow> (JoinUsage, nd)
      | Some a \<Rightarrow>
          (let h = fst (queryHeight (platform E) (fst (next_conn cs)))
           in if h < 0 then (Unreachable, nd)
              else (Joined h, ensureListening listening (remember_peer a nd))))"

definition cmd_listen :: "int \<Rightarrow> int \<Rightarrow> node \<Rightarrow> bool \<times> node" where
  "cmd_listen port listening nd =
     (if nd_listening nd then (False, nd)
      else (case peer_server_start listening port (nd_server nd) of (ok, srv) \<Rightarrow>
              (ok, nd\<lparr>nd_server := srv, nd_listening := ok\<rparr>)))"

subsection \<open>Transactions\<close>

fun broadcast_all :: "string \<Rightarrow> peer_address list \<Rightarrow> conns \<Rightarrow> bool list \<times> conns" where
  "broadcast_all line [] cs = ([], cs)"
| "broadcast_all line (p # ps) cs =
     (case next_conn cs of (c, cs') \<Rightarrow>
        (case broadcast_all line ps cs' of (oks, cs'') \<Rightarrow>
           (fst (broadcastTransaction line c) # oks, cs'')))"

text \<open>The part \<^verbatim>\<open>send\<close> and \<^verbatim>\<open>register-username\<close> share: the mempool first, then every peer.\<close>

datatype submit_report = Usage | Rejected string | Submitted transaction "bool list"

definition submit_tx :: "env \<Rightarrow> transaction \<Rightarrow> conns \<Rightarrow> node \<Rightarrow> (submit_report \<times> node) res" where
  "submit_tx E tx cs nd =
     bind_res (mempool_add E (sh_state (nd_shared nd)) tx (sh_mempool (nd_shared nd))) (\<lambda>(err, m').
       let nd' = nd\<lparr>nd_shared := (nd_shared nd)\<lparr>sh_mempool := m'\<rparr>\<rparr>
       in if err \<noteq> [] then Inr (Rejected err, nd')
          else Inr (Submitted tx (fst (broadcast_all (tx_toLine tx) (nd_peers nd) cs)), nd'))"

definition cmd_send :: "env \<Rightarrow> i64 \<Rightarrow> string \<Rightarrow> u64 \<Rightarrow> conns \<Rightarrow> node \<Rightarrow> (submit_report \<times> node) res" where
  "cmd_send E now toAddress amount cs nd =
     (if toAddress = [] \<or> amount = 0 then Inr (Usage, nd)
      else
        (let nonce = getNonce (sh_state (nd_shared nd)) (wal_address (nd_wallet nd));
             tx = createSigned E (nd_wallet nd) toAddress amount nonce now
         in submit_tx E tx cs nd))"

definition cmd_register_username :: "env \<Rightarrow> i64 \<Rightarrow> string \<Rightarrow> conns \<Rightarrow> node \<Rightarrow> (submit_report \<times> node) res" where
  "cmd_register_username E now username cs nd =
     (if username = [] then Inr (Usage, nd)
      else
        (let nonce = getNonce (sh_state (nd_shared nd)) (wal_address (nd_wallet nd));
             tx = createUsernameRegistration E (nd_wallet nd) username nonce now
         in submit_tx E tx cs nd))"

subsection \<open>Mining and the chain\<close>

text \<open>\<^verbatim>\<open>mine\<close>: \<open>threads\<close> is the number read, 1 when none is given; the old workers have been joined.\<close>

definition cmd_mine :: "int \<Rightarrow> node \<Rightarrow> node" where
  "cmd_mine threads nd =
     (let n = (if threads < 1 then 1 else threads);
          s0 = miner_stop_done (miner_stop_request (nd_shared nd))
      in case miner_start n s0 of (pcs, s) \<Rightarrow> nd\<lparr>nd_workers := pcs, nd_shared := s\<rparr>)"

definition cmd_stop_mining :: "node \<Rightarrow> node" where
  "cmd_stop_mining nd =
     nd\<lparr>nd_shared := miner_stop_done (miner_stop_request (nd_shared nd)), nd_workers := []\<rparr>"

text \<open>
  \<^verbatim>\<open>add\<close>: \<open>rest\<close> is the line after the command's name. It appends to the chain and publishes the
  height; it does not apply the block to the state.
\<close>

definition cmd_add ::
  "env \<Rightarrow> (nat \<Rightarrow> i64) \<Rightarrow> (nat \<Rightarrow> chain \<Rightarrow> chain) \<Rightarrow> string \<Rightarrow> node \<Rightarrow> (block \<times> node) option" where
  "cmd_add E now others rest nd =
     (let rest1 = (if rest = [] then [] else substr_from rest 1);
          txData = (if rest1 = [] then ''(empty)'' else rest1)
      in map_option (\<lambda>(b, ch'). (b, nd\<lparr>nd_shared := refreshHeightStatus ((nd_shared nd)\<lparr>sh_chain := ch'\<rparr>)\<rparr>))
           (addTransactionAndMineSync E now others 0 txData (sh_chain (nd_shared nd))))"

definition cmd_difficulty :: "u32 option \<Rightarrow> node \<Rightarrow> bool \<times> node" where
  "cmd_difficulty d nd =
     (case d of
        None \<Rightarrow> (False, nd)
      | Some d \<Rightarrow>
          (True, nd\<lparr>nd_shared := (nd_shared nd)\<lparr>sh_chain := setDifficulty d (sh_chain (nd_shared nd)),
             sh_status := (sh_status (nd_shared nd))\<lparr>ns_difficulty := d\<rparr>\<rparr>\<rparr>))"

text \<open>The end of \<^verbatim>\<open>main\<close>, after the command loop: the miner and the servers are stopped.\<close>

definition node_shutdown :: "node \<Rightarrow> node" where
  "node_shutdown nd =
     (let nd' = cmd_stop_mining nd
      in if nd_listening nd' then nd'\<lparr>nd_server := peer_server_stop (nd_server nd')\<rparr> else nd')"

end
