(* ===== verification/Miner_Runs.thy ===== *)
theory Miner_Runs
  imports Miner
begin

text \<open>
  Runs of the mining threads in which one worker moves: the phases of a round (building a
  candidate, searching its nonce, appending, applying, publishing), each as a sequence of steps of the
  relation, to be chained into rounds of one worker and into interleavings of several.
\<close>

abbreviation mining_run :: "env \<Rightarrow> string \<Rightarrow> node_threads \<Rightarrow> node_threads \<Rightarrow> bool" where
  "mining_run E addr \<equiv> (mining_step E addr)\<^sup>*\<^sup>*"

lemma run_worker:
  assumes "worker_step E now addr i p s = Inr (p', s')" "i < length pcs"
  shows "mining_run E addr (pcs[i := p], s) (pcs[i := p'], s')"
proof -
  have "worker_step E now addr i (pcs[i := p] ! i) s = Inr (p', s')" using assms by simp
  with assms(2) have "mining_step E addr (pcs[i := p], s) ((pcs[i := p])[i := p'], s')"
    by (intro worker) simp_all
  then show ?thesis by auto
qed

lemma run_submit:
  "mempool_add E (sh_state s) tx (sh_mempool s) = Inr (err, m') \<Longrightarrow>
   mining_run E addr (pcs, s) (pcs, s\<lparr>sh_mempool := m'\<rparr>)"
  using submit by blast

text \<open>The candidate of worker \<open>i\<close>.\<close>

definition candidate_of :: "env \<Rightarrow> i64 \<Rightarrow> string \<Rightarrow> nat \<Rightarrow> string list \<Rightarrow> chain \<Rightarrow> block" where
  "candidate_of E now addr i ls c =
     (buildCandidate E now (coinbase_line addr kCoinbaseReward # ls) c)\<lparr>blk_nonce := push_bit 48 (word_of_nat i)\<rparr>"

lemma candidate_fields [simp]:
  "blk_transactions (candidate_of E now addr i ls c) = coinbase_line addr kCoinbaseReward # ls"
  "blk_difficulty (candidate_of E now addr i ls c) = chn_difficulty c"
  "blk_previousHash (candidate_of E now addr i ls c) = computeHash E (last (chn_blocks c))"
  "blk_height (candidate_of E now addr i ls c) = chain_height c + 1"
  by (simp_all add: candidate_of_def buildCandidate_def chain_height_def)

lemma run_build:
  assumes "\<not> sh_stopFlag s" "mempool_take kMaxTxPerBlock (sh_mempool s) = Inr (ls, m')" "i < length pcs"
  shows "mining_run E addr (pcs[i := OuterTest], s)
    (pcs[i := InnerTest (candidate_of E now addr i ls (sh_chain s))], s\<lparr>sh_mempool := m'\<rparr>)"
proof -
  let ?s = "s\<lparr>sh_mempool := m'\<rparr>"
  have 1: "worker_step E now addr i OuterTest s = Inr (TakeTxs, s)" using assms(1) by simp
  have 2: "worker_step E now addr i TakeTxs s = Inr (Building (coinbase_line addr kCoinbaseReward # ls), ?s)"
    using assms(2) by simp
  have 3: "worker_step E now addr i (Building (coinbase_line addr kCoinbaseReward # ls)) ?s =
      Inr (InnerTest (candidate_of E now addr i ls (sh_chain s)), ?s)"
    by (simp add: candidate_of_def)
  from run_worker[OF 1 assms(3)] run_worker[OF 2 assms(3)] run_worker[OF 3 assms(3)]
  show ?thesis by (meson rtranclp_trans)
qed

text \<open>The search tries the nonces one after the other, counting the hashes.\<close>

lemma run_search:
  assumes "\<not> sh_stopFlag s" "i < length pcs" "solved E ((next_nonce ^^ k) b)"
    "\<forall>j<k. \<not> solved E ((next_nonce ^^ j) b)"
  shows "mining_run E addr (pcs[i := InnerTest b], s)
    (pcs[i := Append ((next_nonce ^^ k) b)], s\<lparr>sh_hashes := sh_hashes s + 1 + word_of_nat k\<rparr>)"
  using assms
proof (induction k arbitrary: b s)
  case 0
  have 1: "worker_step E now addr i (InnerTest b) s = Inr (TryHash b, s)" for now
    using 0(1) by simp
  have 2: "worker_step E now addr i (TryHash b) s = Inr (Append b, s\<lparr>sh_hashes := sh_hashes s + 1\<rparr>)" for now
    using 0(3) by (simp add: solved_def Let_def)
  from run_worker[OF 1 0(2)] run_worker[OF 2 0(2)] show ?case by (simp add: rtranclp_trans)
next
  case (Suc k)
  let ?s = "s\<lparr>sh_hashes := sh_hashes s + 1\<rparr>"
  have 1: "worker_step E now addr i (InnerTest b) s = Inr (TryHash b, s)" for now
    using Suc.prems(1) by simp
  have "\<not> solved E b" using Suc.prems(4) by (metis funpow_0 zero_less_Suc)
  then have 2: "worker_step E now addr i (TryHash b) s = Inr (InnerTest (next_nonce b), ?s)" for now
    by (simp add: solved_def Let_def)
  have funpow_Suc: "(next_nonce ^^ j) (next_nonce b) = (next_nonce ^^ Suc j) b" for j
    by (simp add: funpow_swap1)
  have less: "\<forall>j<k. \<not> solved E ((next_nonce ^^ j) (next_nonce b))"
    using Suc.prems(4) by (auto simp only: funpow_Suc)
  have "mining_run E addr (pcs[i := InnerTest (next_nonce b)], ?s)
      (pcs[i := Append ((next_nonce ^^ k) (next_nonce b))], ?s\<lparr>sh_hashes := sh_hashes ?s + 1 + word_of_nat k\<rparr>)"
    using Suc.prems less by (intro Suc.IH) (simp_all add: funpow_Suc)
  with run_worker[OF 1 Suc.prems(2)] run_worker[OF 2 Suc.prems(2)]
  have "mining_run E addr (pcs[i := InnerTest b], s)
      (pcs[i := Append ((next_nonce ^^ k) (next_nonce b))], ?s\<lparr>sh_hashes := sh_hashes ?s + 1 + word_of_nat k\<rparr>)"
    by (meson rtranclp_trans)
  then show ?case by (simp add: funpow_swap1 add.assoc)
qed

lemma run_search_mine:
  assumes "\<not> sh_stopFlag s" "i < length pcs" "mineBlock E b = Some b'"
  shows "\<exists>h. mining_run E addr (pcs[i := InnerTest b], s) (pcs[i := Append b'], s\<lparr>sh_hashes := h\<rparr>)"
proof -
  obtain k where k: "b' = (next_nonce ^^ k) b" "solved E ((next_nonce ^^ k) b)"
    "\<forall>j<k. \<not> solved E ((next_nonce ^^ j) b)"
    using assms(3) by (auto simp: mineBlock_Some_iff next_nonce_pow)
  from run_search[OF assms(1,2) k(2,3)] k(1) show ?thesis by blast
qed

lemma run_append:
  assumes "links_to E (last (chn_blocks (sh_chain s))) b" "i < length pcs"
  shows "mining_run E addr (pcs[i := Append b], s)
    (pcs[i := Apply b], s\<lparr>sh_chain := (sh_chain s)\<lparr>chn_blocks := chn_blocks (sh_chain s) @ [b]\<rparr>\<rparr>)"
  using assms by (intro run_worker) (simp_all add: tryAppend_eq)

text \<open>Publishing: each counter is loaded from the chain and then stored.\<close>

lemma run_publish:
  assumes "i < length pcs"
  shows "mining_run E addr (pcs[i := PubHeight], s)
    (pcs[i := OuterTest], s\<lparr>sh_status :=
      (sh_status s)\<lparr>ns_height := chain_height (sh_chain s), ns_difficulty := chn_difficulty (sh_chain s)\<rparr>\<rparr>)"
proof -
  let ?s2 = "s\<lparr>sh_status := (sh_status s)\<lparr>ns_height := chain_height (sh_chain s)\<rparr>\<rparr>"
  let ?s3 = "?s2\<lparr>sh_status := (sh_status ?s2)\<lparr>ns_difficulty := chn_difficulty (sh_chain ?s2)\<rparr>\<rparr>"
  have 1: "worker_step E now addr i PubHeight s = Inr (StoreHeight (chain_height (sh_chain s)), s)" for now by simp
  have 2: "worker_step E now addr i (StoreHeight (chain_height (sh_chain s))) s = Inr (PubDifficulty, ?s2)" for now
    by simp
  have 3: "worker_step E now addr i PubDifficulty ?s2 = Inr (StoreDifficulty (chn_difficulty (sh_chain ?s2)), ?s2)"
    for now by simp
  have 4: "worker_step E now addr i (StoreDifficulty (chn_difficulty (sh_chain ?s2))) ?s2 = Inr (OuterTest, ?s3)"
    for now by simp
  from run_worker[OF 1 assms] run_worker[OF 2 assms] run_worker[OF 3 assms] run_worker[OF 4 assms]
  have "mining_run E addr (pcs[i := PubHeight], s) (pcs[i := OuterTest], ?s3)" by (meson rtranclp_trans)
  then show ?thesis by simp
qed

lemma run_apply:
  assumes "applyBlock E b (sh_state s) = Inr st'" "i < length pcs"
  shows "mining_run E addr (pcs[i := Apply b], s)
    (pcs[i := OuterTest], s\<lparr>sh_state := st', sh_status :=
      (sh_status s)\<lparr>ns_height := chain_height (sh_chain s), ns_difficulty := chn_difficulty (sh_chain s)\<rparr>\<rparr>)"
proof -
  let ?s1 = "s\<lparr>sh_state := st'\<rparr>"
  have "worker_step E now addr i (Apply b) s = Inr (PubHeight, ?s1)" for now using assms(1) by simp
  from rtranclp_trans[OF run_worker[OF this assms(2)] run_publish[OF assms(2)]] show ?thesis by simp
qed

text \<open>A round up to the append: from idle to a block on the chain that is not applied yet.\<close>

lemma run_to_apply:
  assumes stop: "\<not> sh_stopFlag s" and take: "mempool_take kMaxTxPerBlock (sh_mempool s) = Inr (ls, m')"
    and i: "i < length pcs"
    and mine: "mineBlock E (candidate_of E now addr i ls (sh_chain s)) = Some b"
  shows "\<exists>h. mining_run E addr (pcs[i := OuterTest], s)
    (pcs[i := Apply b], s\<lparr>sh_mempool := m', sh_hashes := h,
       sh_chain := (sh_chain s)\<lparr>chn_blocks := chn_blocks (sh_chain s) @ [b]\<rparr>\<rparr>)"
proof -
  let ?s1 = "s\<lparr>sh_mempool := m'\<rparr>"
  obtain h where h: "mining_run E addr (pcs[i := InnerTest (candidate_of E now addr i ls (sh_chain s))], ?s1)
      (pcs[i := Append b], ?s1\<lparr>sh_hashes := h\<rparr>)"
    using run_search_mine[of ?s1 i pcs E _ b addr, OF _ i mine] stop by auto
  have "links_to E (last (chn_blocks (sh_chain (?s1\<lparr>sh_hashes := h\<rparr>)))) b"
    using mineBlock_frame(4)[OF mine] mineBlock_solved[OF mine] by (simp add: links_to_def)
  from rtranclp_trans[OF rtranclp_trans[OF run_build[OF stop take i] h] run_append[OF this i]]
  show ?thesis by auto
qed

end
