(* ===== verification/Command_Loop.thy ===== *)
theory Command_Loop
  imports Node Miner_Runs
begin

text \<open>
  The command loop of \<^verbatim>\<open>src/node/main.cpp\<close>: how a line becomes a command, which handler runs, and
  the node as a transition system whose steps are commands and steps of the other threads.
\<close>

subsection \<open>Reading a line\<close>

datatype command =
    Exit | Help | SetPeer string | Peers | JoinNet string | Listen "string option" | InitNode
  | Mine int | StopMining | Monitor | ShowStatus | ShowWallet | Balance string
  | RegisterUsername string | Whois string | ShowMempool | Send string u64 | Add string
  | Print | Validate | Height | Difficulty "u32 option" | Unknown | Nothing

text \<open>
  Numbers read with \<^verbatim>\<open>operator>>\<close>: a missing token leaves the variable alone, a token that does
  not start with a number sets it to zero, a number out of range to the nearest bound. A number
  for an unsigned type may have a minus sign and wraps.
\<close>

definition token_arg :: "string list \<Rightarrow> string" where
  "token_arg args = (case args of [] \<Rightarrow> [] | t # _ \<Rightarrow> t)"

definition read_i32 :: "int \<Rightarrow> string option \<Rightarrow> int" where
  "read_i32 old t =
     (case t of
        None \<Rightarrow> old
      | Some t \<Rightarrow>
          (case scan_int 10 t of
             None \<Rightarrow> 0
           | Some (neg, v) \<Rightarrow> (if neg then max (- (2 ^ 31)) (- int v) else min (2 ^ 31 - 1) (int v))))"

definition read_u64 :: "string option \<Rightarrow> u64" where
  "read_u64 t =
     (case t of
        None \<Rightarrow> 0
      | Some t \<Rightarrow>
          (case scan_int 10 t of
             None \<Rightarrow> 0
           | Some (neg, v) \<Rightarrow>
               (if 2 ^ 64 \<le> v then - 1 else if neg then - word_of_nat v else word_of_nat v)))"

text \<open>\<^verbatim>\<open>if (iss >> d)\<close>: nothing when the extraction fails.\<close>

definition read_u32 :: "string option \<Rightarrow> u32 option" where
  "read_u32 t =
     (case t of
        None \<Rightarrow> None
      | Some t \<Rightarrow>
          (case scan_int 10 t of
             None \<Rightarrow> None
           | Some (neg, v) \<Rightarrow>
               (if 2 ^ 32 \<le> v then None else if neg then Some (- word_of_nat v) else Some (word_of_nat v))))"

definition nth_token :: "string list \<Rightarrow> nat \<Rightarrow> string option" where
  "nth_token ts n = (if n < length ts then Some (ts ! n) else None)"

text \<open>What \<^verbatim>\<open>std::getline(iss, rest)\<close> finds after the first token.\<close>

definition after_token :: "string \<Rightarrow> string" where
  "after_token line = dropWhile (\<lambda>c. \<not> is_space c) (dropWhile is_space line)"

definition parse_command :: "string \<Rightarrow> command" where
  "parse_command line =
     (case stream_tokens line of
        [] \<Rightarrow> Nothing
      | cmd # args \<Rightarrow>
          if cmd = ''exit'' \<or> cmd = ''quit'' then Exit
          else if cmd = ''help'' then Help
          else if cmd = ''set-peer'' then SetPeer (token_arg args)
          else if cmd = ''peers'' then Peers
          else if cmd = ''join-net'' then JoinNet (token_arg args)
          else if cmd = ''listen'' then Listen (nth_token args 0)
          else if cmd = ''init-node'' \<or> cmd = ''sync'' then InitNode
          else if cmd = ''mine''
          then Mine (if token_arg args = ''-threads'' then read_i32 1 (nth_token args 1) else 1)
          else if cmd = ''stop-mining'' then StopMining
          else if cmd = ''monitor'' then Monitor
          else if cmd = ''status'' then ShowStatus
          else if cmd = ''wallet'' then ShowWallet
          else if cmd = ''balance'' then Balance (token_arg args)
          else if cmd = ''register-username'' then RegisterUsername (token_arg args)
          else if cmd = ''whois'' then Whois (token_arg args)
          else if cmd = ''mempool'' then ShowMempool
          else if cmd = ''send'' then Send (token_arg args) (read_u64 (nth_token args 1))
          else if cmd = ''add'' then Add (after_token line)
          else if cmd = ''print'' then Print
          else if cmd = ''validate'' then Validate
          else if cmd = ''height'' then Height
          else if cmd = ''difficulty'' then Difficulty (read_u32 (nth_token args 0))
          else Unknown)"

subsection \<open>Running a command\<close>

text \<open>What the outside world gives one command: the clock, the connections, the result of \<^verbatim>\<open>listenOn\<close>.\<close>

record inputs =
  in_clock :: "nat \<Rightarrow> i64"
  in_conns :: conns
  in_listening :: int

text \<open>
  \<open>Waiting\<close>: the command joins threads that have not finished. \<open>Hanging\<close>: it never returns.
  \<open>Crashed\<close>: an exception ends the process.
\<close>

datatype outcome = Continue node | Quit node | Waiting | Hanging | Crashed cpp_error

definition of_res :: "('r \<times> node) res \<Rightarrow> outcome" where
  "of_res r = (case r of Inl e \<Rightarrow> Crashed e | Inr (_, nd) \<Rightarrow> Continue nd)"

definition joined :: "node \<Rightarrow> bool" where
  "joined nd \<longleftrightarrow> (\<forall>pc \<in> set (nd_workers nd). pc = Finished)"

fun run_command :: "env \<Rightarrow> inputs \<Rightarrow> command \<Rightarrow> node \<Rightarrow> outcome" where
  "run_command E i Exit nd = (if joined nd then Quit (node_shutdown nd) else Waiting)"
| "run_command E i (SetPeer a) nd = Continue (snd (cmd_set_peer a nd))"
| "run_command E i (JoinNet a) nd = Continue (snd (cmd_join_net E a (in_conns i) (in_listening i) nd))"
| "run_command E i (Listen p) nd =
     Continue (snd (cmd_listen (read_i32 (nd_p2pPort nd) p) (in_listening i) nd))"
| "run_command E i InitNode nd = of_res (doInitNode E nd (in_conns i))"
| "run_command E i (Mine threads) nd = (if joined nd then Continue (cmd_mine threads nd) else Waiting)"
| "run_command E i StopMining nd = (if joined nd then Continue (cmd_stop_mining nd) else Waiting)"
| "run_command E i (RegisterUsername u) nd =
     of_res (cmd_register_username E (in_clock i 0) u (in_conns i) nd)"
| "run_command E i (Send a n) nd = of_res (cmd_send E (in_clock i 0) a n (in_conns i) nd)"
| "run_command E i (Add rest) nd =
     (case cmd_add E (in_clock i) (\<lambda>_ d. d) rest nd of
        None \<Rightarrow> Hanging
      | Some (_, nd') \<Rightarrow> Continue nd')"
| "run_command E i (Difficulty d) nd = Continue (snd (cmd_difficulty d nd))"
| "run_command E i _ nd = Continue nd"

subsection \<open>The node as a transition system\<close>

inductive node_step :: "env \<Rightarrow> node \<Rightarrow> node \<Rightarrow> bool" for E :: env where
  command: "run_command E i (parse_command line) nd = Continue nd' \<Longrightarrow> node_step E nd nd'"
| threads: "mining_step E (wal_address (nd_wallet nd)) (nd_workers nd, nd_shared nd) (pcs, s) \<Longrightarrow>
    node_step E nd (nd\<lparr>nd_workers := pcs, nd_shared := s\<rparr>)"

inductive_cases node_stepE: "node_step E nd nd'"

definition node_init :: "env \<Rightarrow> node \<Rightarrow> bool" where
  "node_init E nd \<longleftrightarrow> (\<exists>argv now ch w. new_chain E now = Some ch \<and> node_start argv ch w = Inr nd)"

text \<open>
  The chain is valid; the published peer count is the number of peers; the listening flag is
  the server's. What holds of the published height and difficulty depends on the history and is in
  \<^verbatim>\<open>Status_History\<close>.
\<close>

definition node_inv :: "env \<Rightarrow> node \<Rightarrow> bool" where
  "node_inv E nd \<longleftrightarrow> chain_inv E (sh_chain (nd_shared nd))
     \<and> ns_peerCount (sh_status (nd_shared nd)) = int (length (nd_peers nd))
     \<and> (nd_listening nd \<longleftrightarrow> ps_running (nd_server nd))"

end
