(* ===== verification/Miner_Laws.thy ===== *)
theory Miner_Laws
  imports Miner_Runs
begin

text \<open>
  What mining guarantees: every block of the chain is applied to the state once, so that the
  supply is what the chain mints for any number of workers and any interleaving; with one
  worker the state is the replay of the chain; a round carries out the pending payments. With
  two workers the order of application can differ from the order of the chain, and then the
  state is not the replay of the chain.
\<close>

subsection \<open>The money of a chain\<close>

definition chain_lines :: "block list \<Rightarrow> string list" where
  "chain_lines bs = concat (map blk_transactions bs)"

lemma minted_lines_concat:
  "minted_lines (concat ls) = sum_list (map minted_lines ls)"
  by (induction ls) (simp_all add: minted_lines_def)

lemma minted_chain_mset: "mset bs = mset bs' \<Longrightarrow> minted_lines (chain_lines bs) = minted_lines (chain_lines bs')"
  unfolding chain_lines_def minted_lines_concat map_map
  by (metis mset_map sum_mset_sum_list)

lemma mining_inv_supply:
  assumes "mining_inv E (pcs, s)" "pending_blocks pcs = {#}"
    and "minted_lines (chain_lines (chn_blocks (sh_chain s))) < 2 ^ 64"
  shows "total_supply (sh_state s) = minted_lines (chain_lines (chn_blocks (sh_chain s)))"
proof -
  obtain applied where a: "mset applied = mset (chn_blocks (sh_chain s))"
    "fold_res (applyBlock E) applied state_empty = Inr (sh_state s)"
    using assms(1,2) by (auto simp: mining_inv_def)
  note eq = minted_chain_mset[OF a(1)]
  with rebuild_total[of E applied state_empty "sh_state s"] a(2) assms(3) show ?thesis
    by (simp add: rebuild_eq chain_lines_def)
qed

subsection \<open>One worker\<close>

text \<open>
  With a single worker the state is the replay of the chain, up to the block it has just appended,
  and its candidate is the next block in height, so that the heights count up.
\<close>

fun candidate_height :: "chain \<Rightarrow> pc \<Rightarrow> bool" where
  "candidate_height c (InnerTest b) \<longleftrightarrow> blk_height b = chain_height c + 1"
| "candidate_height c (TryHash b) \<longleftrightarrow> blk_height b = chain_height c + 1"
| "candidate_height c (Append b) \<longleftrightarrow> blk_height b = chain_height c + 1"
| "candidate_height c _ \<longleftrightarrow> True"

definition solo_inv :: "env \<Rightarrow> node_threads \<Rightarrow> bool" where
  "solo_inv E ps \<longleftrightarrow> (case ps of (pcs, s) \<Rightarrow>
     chain_inv E (sh_chain s) \<and> heights_count (chn_blocks (sh_chain s))
     \<and> (\<exists>pc bs. pcs = [pc] \<and> rebuildFromBlocks E bs state_empty = Inr (sh_state s)
        \<and> chn_blocks (sh_chain s) = bs @ (case pc of Apply b \<Rightarrow> [b] | _ \<Rightarrow> [])
        \<and> candidate_height (sh_chain s) pc))"

definition solo_init :: "env \<Rightarrow> node_threads \<Rightarrow> bool" where
  "solo_init E ps \<longleftrightarrow> mining_init E ps \<and> length (fst ps) = 1
     \<and> heights_count (chn_blocks (sh_chain (snd ps)))"

lemma solo_init_inv: "solo_init E ps \<Longrightarrow> solo_inv E ps"
proof -
  assume i: "solo_init E ps"
  obtain pcs s where ps: "ps = (pcs, s)" by (cases ps)
  with i have "pcs = [OuterTest]" by (auto simp: solo_init_def mining_init_def)
  with i ps show "solo_inv E ps" by (simp add: solo_inv_def solo_init_def mining_init_def)
qed

lemma solo_worker:
  assumes "worker_step E now addr 0 pc s = Inr (pc', s')" "solo_inv E ([pc], s)"
  shows "solo_inv E ([pc'], s')"
proof -
  obtain bs where bs: "rebuildFromBlocks E bs state_empty = Inr (sh_state s)"
    "chn_blocks (sh_chain s) = bs @ (case pc of Apply b \<Rightarrow> [b] | _ \<Rightarrow> [])"
    and ch: "chain_inv E (sh_chain s)" "heights_count (chn_blocks (sh_chain s))"
    and hc: "candidate_height (sh_chain s) pc"
    using assms(2) by (auto simp: solo_inv_def)
  show ?thesis
  proof (cases pc)
    case (Append b)
    note app = tryAppend_inv[OF ch(1), of b] tryAppend_heights[OF ch(2), of b E]
    from assms(1) Append obtain "sh_state s' = sh_state s" "sh_chain s' = snd (tryAppendMinedBlock E b (sh_chain s))"
      "pc' = (if fst (tryAppendMinedBlock E b (sh_chain s)) then Apply b else OuterTest)"
      by (auto split: prod.splits)
    with app ch hc bs Append show ?thesis
      by (auto simp: solo_inv_def tryAppend_eq chain_inv_def split: if_splits)
  next
    case (Apply b)
    with assms(1) obtain st' where "applyBlock E b (sh_state s) = Inr st'" "pc' = PubHeight"
      "s' = s\<lparr>sh_state := st'\<rparr>" by (auto simp: bind_res_Inr_iff)
    with bs ch Apply show ?thesis by (simp add: solo_inv_def rebuild_snoc)
  qed (use assms(1) bs ch hc in \<open>auto simp: solo_inv_def bind_res_Inr_iff Let_def next_nonce_def
        buildCandidate_def chain_height_def split: if_splits\<close>)
qed

lemma solo_step:
  assumes "mining_step E addr ps ps'" "solo_inv E ps"
  shows "solo_inv E ps'"
  using assms(1)
proof (cases rule: mining_step.cases)
  case (worker i pcs now s pc' s')
  from assms(2) worker(1) obtain pc where "pcs = [pc]" by (auto simp: solo_inv_def)
  with worker assms(2) solo_worker[of E now addr pc s pc' s'] show ?thesis by simp
next
  case (retarget pcs s d)
  have "candidate_height (setDifficulty d c) p = candidate_height c p" for c p
    by (cases p) (simp_all add: setDifficulty_def chain_height_def)
  with retarget assms(2) show ?thesis by (auto simp: solo_inv_def setDifficulty_def chain_inv_def)
qed (use assms(2) in \<open>auto simp: solo_inv_def hashrate_turn_def miner_stop_request_def\<close>)

lemma solo_inv_replay:
  "solo_inv E ([pc], s) \<Longrightarrow> \<forall>b. pc \<noteq> Apply b \<Longrightarrow>
   rebuildFromBlocks E (chn_blocks (sh_chain s)) st0 = Inr (sh_state s)"
  by (auto simp: solo_inv_def rebuild_eq split: pc.splits)

interpretation solo: invariant_system "solo_init E" "mining_step E addr" "solo_inv E" for E addr
  by unfold_locales (auto intro: solo_init_inv solo_step)

subsection \<open>A round that pays\<close>

lemma payable_after_coinbase:
  assumes "payable E st tx" "state_inv st" "total_supply st + unat amount < 2 ^ 64"
  shows "payable E (credit addr amount st) tx"
proof -
  have "unat (getBalance st addr) + unat amount < 2 ^ 64"
    using balance_le_total[OF assms(2), of addr] assms(3) by linarith
  then have "unat (getBalance st addr + amount) = unat (getBalance st addr) + unat amount"
    by (simp add: unat_word_ariths)
  then have "unat (getBalance st a) \<le> unat (getBalance (credit addr amount st) a)" for a by simp
  then have "getBalance st (tx_sender tx) \<le> getBalance (credit addr amount st) (tx_sender tx)"
    unfolding word_le_nat_alt .
  moreover have "tx_amount tx \<le> getBalance st (tx_sender tx)"
    using assms(1) by (simp add: payable_def tx_executes_def is_registration_def)
  ultimately have "tx_amount tx \<le> getBalance (credit addr amount st) (tx_sender tx)" by (rule order_trans[rotated])
  with assms(1) show ?thesis
    by (simp add: payable_def tx_executes_def is_registration_def del: credit_view(1))
qed

lemma credit_exact:
  assumes "state_inv st" "total_supply st + unat amount < 2 ^ 64"
  shows "unat (getBalance (credit addr amount st) a) = unat (getBalance st a) + (if a = addr then unat amount else 0)"
proof -
  have "unat (getBalance st addr) + unat amount < 2 ^ 64"
    using balance_le_total[OF assms(1), of addr] assms(2) by linarith
  then show ?thesis by (simp add: unat_word_ariths)
qed

lemma applyLine_coinbase:
  "CHR ''|'' \<notin> set addr \<Longrightarrow> applyLine E (coinbase_line addr amount) st = Inr (credit addr amount st)"
  by (simp add: applyLine_def applyCoinbase_line)

lemma coinbase_block_settles:
  assumes "blk_transactions b = coinbase_line addr kCoinbaseReward # map tx_toLine txs"
    and "CHR ''|'' \<notin> set addr" "state_inv st" "total_supply st + 50 < 2 ^ 64"
    and "distinct (map tx_sender txs)" "\<forall>tx \<in> set txs. payable E st tx"
  shows "\<exists>st'. applyBlock E b st = Inr st'
    \<and> (\<forall>a. unat (getBalance st' a) + sent_by a txs
        = unat (getBalance st a) + received_by a txs + (if a = addr then 50 else 0)
        \<and> getNonce st' a = getNonce st a + (if a \<in> set (map tx_sender txs) then 1 else 0))"
proof -
  let ?st = "credit addr kCoinbaseReward st"
  have k: "unat kCoinbaseReward = 50" by (simp add: kCoinbaseReward_def)
  have t: "total_supply st + unat kCoinbaseReward < 2 ^ 64" using assms(4) by (simp add: k)
  have "state_inv ?st" using assms(3) by (rule state_inv_credit)
  moreover have "total_supply ?st < 2 ^ 64" using total_credit[OF assms(3) t] t by simp
  moreover have "\<forall>tx \<in> set txs. payable E ?st tx"
    using assms(6) payable_after_coinbase[OF _ assms(3) t] by blast
  ultimately obtain st' where st': "fold_res (applyLine E) (map tx_toLine txs) ?st = Inr st'"
    "\<And>a. unat (getBalance st' a) + sent_by a txs = unat (getBalance ?st a) + received_by a txs
        \<and> getNonce st' a = getNonce ?st a + (if a \<in> set (map tx_sender txs) then 1 else 0)"
    using payable_all_settle[of ?st txs E] assms(5) by blast
  have "applyBlock E b st = Inr st'"
    using st'(1) assms(1) applyLine_coinbase[OF assms(2)] by (simp add: applyBlock_def)
  moreover have "unat (getBalance st' a) + sent_by a txs
      = unat (getBalance st a) + received_by a txs + (if a = addr then 50 else 0)
      \<and> getNonce st' a = getNonce st a + (if a \<in> set (map tx_sender txs) then 1 else 0)" for a
    using st'(2)[of a] credit_exact[OF assms(3) t, of addr a] k by auto
  ultimately show ?thesis by blast
qed

text \<open>A whole round of one worker, from what it takes, finds and applies.\<close>

lemma round_runs:
  assumes i: "i < length pcs" "pcs ! i = OuterTest" and stop: "\<not> sh_stopFlag s"
    and take: "mempool_take kMaxTxPerBlock (sh_mempool s) = Inr (ls, m')"
    and mine: "mineBlock E (candidate_of E now addr i ls (sh_chain s)) = Some b"
    and st': "applyBlock E b (sh_state s) = Inr st'"
  shows "\<exists>s'. mining_run E addr (pcs, s) (pcs, s')
    \<and> sh_chain s' = (sh_chain s)\<lparr>chn_blocks := chn_blocks (sh_chain s) @ [b]\<rparr>
    \<and> sh_mempool s' = m' \<and> sh_state s' = st' \<and> ns_height (sh_status s') = chain_height (sh_chain s')"
proof -
  obtain h where h: "mining_run E addr (pcs[i := OuterTest], s)
      (pcs[i := Apply b], s\<lparr>sh_mempool := m', sh_hashes := h,
         sh_chain := (sh_chain s)\<lparr>chn_blocks := chn_blocks (sh_chain s) @ [b]\<rparr>\<rparr>)"
    using run_to_apply[OF stop take i(1) mine] by blast
  let ?s1 = "s\<lparr>sh_mempool := m', sh_hashes := h,
         sh_chain := (sh_chain s)\<lparr>chn_blocks := chn_blocks (sh_chain s) @ [b]\<rparr>\<rparr>"
  let ?s2 = "?s1\<lparr>sh_state := st', sh_status := (sh_status ?s1)\<lparr>ns_height := chain_height (sh_chain ?s1),
        ns_difficulty := chn_difficulty (sh_chain ?s1)\<rparr>\<rparr>"
  have "applyBlock E b (sh_state ?s1) = Inr st'" using st' by simp
  from rtranclp_trans[OF h run_apply[OF this i(1)]] have "mining_run E addr (pcs, s) (pcs, ?s2)"
    using i(2) by (simp add: list_update_id[of pcs i, unfolded i(2)])
  then show ?thesis by (intro exI[of _ ?s2] conjI) simp_all
qed

lemma round_settles:
  assumes i: "i < length pcs" "pcs ! i = OuterTest" and stop: "\<not> sh_stopFlag s"
    and m: "represents (sh_mempool s) txs" "\<forall>tx \<in> set txs. payable E (sh_state s) tx"
    and st: "state_inv (sh_state s)" "total_supply (sh_state s) + 50 < 2 ^ 64"
    and addr: "CHR ''|'' \<notin> set addr"
    and mine: "mineBlock E (candidate_of E now addr i (map tx_toLine (take 20 txs)) (sh_chain s)) = Some b"
  shows "\<exists>s'. mining_run E addr (pcs, s) (pcs, s')
    \<and> chn_blocks (sh_chain s') = chn_blocks (sh_chain s) @ [b]
    \<and> represents (sh_mempool s') (drop 20 txs)
    \<and> ns_height (sh_status s') = chain_height (sh_chain s')
    \<and> (\<forall>a. unat (getBalance (sh_state s') a) + sent_by a (take 20 txs)
        = unat (getBalance (sh_state s) a) + received_by a (take 20 txs) + (if a = addr then 50 else 0))"
proof -
  obtain m' where m': "mempool_take kMaxTxPerBlock (sh_mempool s) = Inr (map tx_toLine (take 20 txs), m')"
    "represents m' (drop 20 txs)"
    using mempool_take_represents[OF m(1), of 20] by (auto simp: kMaxTxPerBlock_def)
  have "blk_transactions b = coinbase_line addr kCoinbaseReward # map tx_toLine (take 20 txs)"
    using mineBlock_frame(5)[OF mine] by simp
  moreover have "distinct (map tx_sender (take 20 txs))"
    using m(1) by (simp add: represents_def take_map[symmetric])
  moreover have "\<forall>tx \<in> set (take 20 txs). payable E (sh_state s) tx"
    using m(2) by (auto dest: in_set_takeD)
  ultimately obtain st' where st': "applyBlock E b (sh_state s) = Inr st'"
    "\<forall>a. unat (getBalance st' a) + sent_by a (take 20 txs)
        = unat (getBalance (sh_state s) a) + received_by a (take 20 txs) + (if a = addr then 50 else 0)"
    using coinbase_block_settles[OF _ addr st] by blast
  from round_runs[OF i stop m'(1) mine st'(1)] m'(2) st'(2) show ?thesis by fastforce
qed

subsection \<open>Two workers\<close>

lemma coinbase_tx_block:
  assumes "blk_transactions b = [coinbase_line addr kCoinbaseReward, tx_toLine tx]"
    and "CHR ''|'' \<notin> set addr" "tx_type tx = ''TRANSFER''" "bar_free tx"
  shows "applyBlock E b st = applyTxLocked E tx (credit addr kCoinbaseReward st)"
  using assms
  by (cases "applyTxLocked E tx (credit addr kCoinbaseReward st)")
    (simp_all add: applyBlock_def applyLine_coinbase applyLine_transfer)

text \<open>
  Two blocks with one payment each, of the same sender and the same nonce: whichever is
  applied first pays, the other is skipped.
\<close>

lemma second_payment_skipped:
  assumes b: "blk_transactions b = [coinbase_line addr kCoinbaseReward, tx_toLine tx]"
    and b': "blk_transactions b' = [coinbase_line addr kCoinbaseReward, tx_toLine tx']"
    and pay: "payable E (credit addr kCoinbaseReward st) tx" "CHR ''|'' \<notin> set addr"
    and tx': "tx_type tx' = ''TRANSFER''" "bar_free tx'" "tx_verify E tx' = Inr True"
      "tx_sender tx' = tx_sender tx" "tx_nonce tx' = tx_nonce tx"
    and fresh: "tx_receiver tx \<notin> {addr, tx_sender tx, tx_receiver tx'}" "tx_receiver tx' \<notin> {addr, tx_sender tx}"
  shows "\<exists>st1 st2. applyBlock E b st = Inr st1 \<and> applyBlock E b' st1 = Inr st2
    \<and> getBalance st2 (tx_receiver tx) = getBalance st (tx_receiver tx) + tx_amount tx
    \<and> getBalance st2 (tx_receiver tx') = getBalance st (tx_receiver tx')"
proof -
  let ?c = "credit addr kCoinbaseReward"
  have ex: "tx_executes E tx (?c st)" and tr: "\<not> is_registration tx"
    and wire: "tx_type tx = ''TRANSFER''" "bar_free tx"
    using pay(1) payable_transfer by (simp_all add: payable_def)
  obtain st1 where st1: "applyTxLocked E tx (?c st) = Inr st1"
    using applyTx_returns ex by (fastforce simp: tx_executes_def)
  obtain st2 where st2: "applyTxLocked E tx' (?c st1) = Inr st2"
    using applyTx_returns[OF tx'(3)] by blast
  have "getNonce (?c st1) (tx_sender tx) = tx_nonce tx + 1"
    using applyTx_transfer(2)[OF st1 ex tr] ex by (simp add: tx_executes_def)
  then have "\<not> tx_executes E tx' (?c st1)" using tx'(4,5) by (simp add: tx_executes_def)
  from applyTx_skip[OF st2 this] have "getBalance st2 = getBalance (?c st1)" by (simp add: same_view_def)
  moreover have "applyBlock E b st = Inr st1"
    using coinbase_tx_block[OF b pay(2) wire] st1 by simp
  moreover have "applyBlock E b' st1 = Inr st2"
    using coinbase_tx_block[OF b' pay(2) tx'(1,2)] st2 by simp
  ultimately show ?thesis
    using applyTx_transfer(1)[OF st1 ex tr] fresh by (auto simp: Let_def)
qed

text \<open>A worker takes the only pending payment into a block at difficulty zero.\<close>

lemma run_take_one:
  assumes "\<not> sh_stopFlag s" "represents (sh_mempool s) [tx]" "i < length pcs"
    "chn_difficulty (sh_chain s) = 0"
  shows "\<exists>h m' b. mining_run E addr (pcs[i := OuterTest], s) (pcs[i := Apply b],
      s\<lparr>sh_mempool := m', sh_hashes := h,
        sh_chain := (sh_chain s)\<lparr>chn_blocks := chn_blocks (sh_chain s) @ [b]\<rparr>\<rparr>)
    \<and> represents m' [] \<and> blk_transactions b = [coinbase_line addr kCoinbaseReward, tx_toLine tx]"
proof -
  obtain m' where m': "mempool_take kMaxTxPerBlock (sh_mempool s) = Inr ([tx_toLine tx], m')" "represents m' []"
    using mempool_take_represents[OF assms(2), of kMaxTxPerBlock] by (auto simp: kMaxTxPerBlock_def)
  let ?b = "candidate_of E 0 addr i [tx_toLine tx] (sh_chain s)"
  have "mineBlock E ?b = Some ?b" using assms(4) by (intro mineBlock_immediate solved_zero) simp
  from run_to_apply[OF assms(1) m'(1) assms(3) this] m'(2) show ?thesis by force
qed

lemma represents_add:
  assumes "represents m []" "openssl_ok E" "wallet_ok E w" "amount \<le> getBalance st (wal_address w)"
    and "bar_free (createSigned E w to amount (getNonce st (wal_address w)) now)"
  shows "\<exists>m'. mempool_add E st (createSigned E w to amount (getNonce st (wal_address w)) now) m = Inr ([], m')
    \<and> represents m' [createSigned E w to amount (getNonce st (wal_address w)) now]"
proof -
  let ?tx = "createSigned E w to amount (getNonce st (wal_address w)) now"
  have "admissible E st ?tx m"
    using assms by (intro createSigned_admissible) (simp_all add: represents_def)
  from mempool_add_accept[OF this] obtain m' where "mempool_add E st ?tx m = Inr ([], m')" by blast
  with mempool_add_represents[OF this assms(1,5)] show ?thesis by auto
qed

text \<open>
  Two payments of one sender, each submitted when none is pending, end in two blocks that
  different workers have appended and not applied.
\<close>

lemma run_interleaved:
  assumes s: "\<not> sh_stopFlag s" "chn_difficulty (sh_chain s) = 0" "represents (sh_mempool s) []"
    and tx: "\<And>m. represents m [] \<Longrightarrow> \<exists>m'. mempool_add E (sh_state s) tx m = Inr ([], m') \<and> represents m' [tx]"
    and ty: "\<And>m. represents m [] \<Longrightarrow> \<exists>m'. mempool_add E (sh_state s) ty m = Inr ([], m') \<and> represents m' [ty]"
  shows "\<exists>m h b b'. mining_run E addr ([OuterTest, OuterTest], s) ([Apply b, Apply b'],
      s\<lparr>sh_mempool := m, sh_hashes := h,
        sh_chain := (sh_chain s)\<lparr>chn_blocks := chn_blocks (sh_chain s) @ [b, b']\<rparr>\<rparr>)
    \<and> blk_transactions b = [coinbase_line addr kCoinbaseReward, tx_toLine tx]
    \<and> blk_transactions b' = [coinbase_line addr kCoinbaseReward, tx_toLine ty]"
proof -
  obtain m1 where m1: "mempool_add E (sh_state s) tx (sh_mempool s) = Inr ([], m1)" "represents m1 [tx]"
    using tx[OF s(3)] by blast
  let ?s1 = "s\<lparr>sh_mempool := m1\<rparr>"
  have r1: "mining_run E addr ([OuterTest, OuterTest], s) ([OuterTest, OuterTest], ?s1)"
    using m1(1) by (rule run_submit)
  obtain h2 m2 b where 2: "mining_run E addr ([OuterTest, OuterTest], ?s1) ([Apply b, OuterTest],
      ?s1\<lparr>sh_mempool := m2, sh_hashes := h2,
        sh_chain := (sh_chain ?s1)\<lparr>chn_blocks := chn_blocks (sh_chain ?s1) @ [b]\<rparr>\<rparr>)"
    "represents m2 []" "blk_transactions b = [coinbase_line addr kCoinbaseReward, tx_toLine tx]"
    using run_take_one[of ?s1 tx 0 "[OuterTest, OuterTest]" E addr] s m1(2) by auto
  let ?s2 = "s\<lparr>sh_mempool := m2, sh_hashes := h2,
      sh_chain := (sh_chain s)\<lparr>chn_blocks := chn_blocks (sh_chain s) @ [b]\<rparr>\<rparr>"
  have r2: "mining_run E addr ([OuterTest, OuterTest], ?s1) ([Apply b, OuterTest], ?s2)" using 2(1) by simp
  obtain m3 where m3: "mempool_add E (sh_state ?s2) ty (sh_mempool ?s2) = Inr ([], m3)" "represents m3 [ty]"
    using ty[OF 2(2)] by auto
  let ?s3 = "?s2\<lparr>sh_mempool := m3\<rparr>"
  have r3: "mining_run E addr ([Apply b, OuterTest], ?s2) ([Apply b, OuterTest], ?s3)"
    using m3(1) by (rule run_submit)
  obtain h4 m4 b' where 4: "mining_run E addr ([Apply b, OuterTest], ?s3) ([Apply b, Apply b'],
      ?s3\<lparr>sh_mempool := m4, sh_hashes := h4,
        sh_chain := (sh_chain ?s3)\<lparr>chn_blocks := chn_blocks (sh_chain ?s3) @ [b']\<rparr>\<rparr>)"
    "blk_transactions b' = [coinbase_line addr kCoinbaseReward, tx_toLine ty]"
    using run_take_one[of ?s3 ty 1 "[Apply b, OuterTest]" E addr] s m3(2) by auto
  from rtranclp_trans[OF rtranclp_trans[OF rtranclp_trans[OF r1 r2] r3] 4(1)] 2(3) 4(2)
  show ?thesis by (intro exI[of _ m4] exI[of _ h4] exI[of _ b] exI[of _ b'] conjI) simp_all
qed

text \<open>The second worker applies its block first.\<close>

lemma run_both_apply:
  assumes "mining_run E addr ps ([Apply b, Apply b'], s)"
    and "applyBlock E b' (sh_state s) = Inr st1" "applyBlock E b st1 = Inr st2"
  shows "\<exists>s'. mining_run E addr ps ([OuterTest, OuterTest], s')
    \<and> sh_state s' = st2 \<and> sh_chain s' = sh_chain s"
proof -
  let ?pub = "\<lambda>s st. s\<lparr>sh_state := st, sh_status := (sh_status s)\<lparr>ns_height := chain_height (sh_chain s),
      ns_difficulty := chn_difficulty (sh_chain s)\<rparr>\<rparr>"
  have 1: "mining_run E addr ([Apply b, Apply b'], s) ([Apply b, OuterTest], ?pub s st1)"
    using run_apply[OF assms(2), of 1 "[Apply b, Apply b']" addr] by simp
  have "applyBlock E b (sh_state (?pub s st1)) = Inr st2" using assms(3) by simp
  from run_apply[OF this, of 0 "[Apply b, OuterTest]" addr]
  have 2: "mining_run E addr ([Apply b, OuterTest], ?pub s st1) ([OuterTest, OuterTest], ?pub (?pub s st1) st2)"
    by simp
  from rtranclp_trans[OF rtranclp_trans[OF assms(1) 1] 2] show ?thesis
    by (intro exI[of _ "?pub (?pub s st1) st2"] conjI) simp_all
qed

text \<open>A payment a wallet signs for its current nonce and a covered amount.\<close>

lemma signed_payment:
  assumes "openssl_ok E" "wallet_ok E w" "CHR ''|'' \<notin> set to"
    and "amount \<le> getBalance st (wal_address w)" "state_inv st" "total_supply st + 50 < 2 ^ 64"
  defines "tx \<equiv> \<lambda>now. createSigned E w to amount (getNonce st (wal_address w)) now"
  shows "bar_free (tx now)" "payable E (credit addr kCoinbaseReward st) (tx now)"
    "tx_type (tx now) = ''TRANSFER''" "tx_verify E (tx now) = Inr True"
    "tx_sender (tx now) = wal_address w" "tx_receiver (tx now) = to" "tx_amount (tx now) = amount"
    "tx_nonce (tx now) = getNonce st (wal_address w)" "payable E st (tx now)"
proof -
  have sep: "CHR ''|'' \<notin> set (wal_address w)" "wal_address w \<noteq> []"
    using assms(1,2) by (simp_all add: wallet_ok_def)
  show f: "tx_type (tx now) = ''TRANSFER''" "tx_verify E (tx now) = Inr True"
    "tx_sender (tx now) = wal_address w" "tx_receiver (tx now) = to" "tx_amount (tx now) = amount"
    "tx_nonce (tx now) = getNonce st (wal_address w)"
    using createSigned_verifies[OF assms(1,2)] by (simp_all add: tx_def) (simp_all add: createSigned_eq)
  show bf: "bar_free (tx now)"
    using sep assms(3) by (simp add: tx_def createSigned_eq sign_with_bar_free)
  show p: "payable E st (tx now)"
    using f bf sep(2) assms(4) by (simp add: payable_def tx_executes_def is_registration_def)
  have "total_supply st + unat kCoinbaseReward < 2 ^ 64" using assms(6) by (simp add: kCoinbaseReward_def)
  with p assms(5) show "payable E (credit addr kCoinbaseReward st) (tx now)" by (rule payable_after_coinbase)
qed

end
