(* ===== verification/Miner_Theorems.thy ===== *)
theory Miner_Theorems
  imports Miner_Laws
begin

text \<open>
  The properties of the mining threads, with a node that mines on the sample chain as the
  concrete case.
\<close>

subsection \<open>A node that mines\<close>

definition sample_shared :: shared where
  "sample_shared = \<lparr>sh_chain = sample_chain, sh_state = state_empty, sh_mempool = mempool_empty,
     sh_status = status_new, sh_stopFlag = False, sh_hashes = 0\<rparr>"

lemma sample_genesis_apply: "applyBlock E sample_genesis st = Inr st"
  by (simp add: applyBlock_def sample_genesis_def genesis_candidate_def
      applyLine_def starts_with_def find_char_def)

lemma sample_replay: "rebuildFromBlocks E (chn_blocks sample_chain) state_empty = Inr state_empty"
  by (simp add: rebuild_eq sample_chain_def sample_genesis_apply)

lemma sample_mining_init: "mining_init sample_env (replicate n OuterTest, sample_shared)"
  using sample_chain_inv sample_replay by (auto simp: mining_init_def sample_shared_def)

definition sample_round_block :: block where
  "sample_round_block = candidate_of sample_env 1700000060 ''m'' 0 [] sample_chain"

text \<open>One round of the first worker.\<close>

lemma sample_round:
  assumes "0 < n"
  shows "\<exists>s'. mining_run sample_env ''m'' (replicate n OuterTest, sample_shared) (replicate n OuterTest, s')
    \<and> chn_blocks (sh_chain s') = [sample_genesis, sample_round_block]
    \<and> unat (getBalance (sh_state s') ''m'') = 50 \<and> ns_height (sh_status s') = chain_height (sh_chain s')"
proof -
  have mine: "mineBlock sample_env sample_round_block = Some sample_round_block"
    unfolding sample_round_block_def by (rule sample_mine) (simp add: sample_chain_def)
  have "\<exists>s'. mining_run sample_env ''m'' (replicate n OuterTest, sample_shared) (replicate n OuterTest, s')
    \<and> chn_blocks (sh_chain s') = chn_blocks (sh_chain sample_shared) @ [sample_round_block]
    \<and> represents (sh_mempool s') (drop 20 [])
    \<and> ns_height (sh_status s') = chain_height (sh_chain s')
    \<and> (\<forall>a. unat (getBalance (sh_state s') a) + sent_by a (take 20 [])
        = unat (getBalance (sh_state sample_shared) a) + received_by a (take 20 []) + (if a = ''m'' then 50 else 0))"
    by (rule round_settles[of 0])
      (use assms mine in \<open>simp_all add: sample_shared_def sample_round_block_def\<close>)
  then show ?thesis by (auto simp: sample_shared_def sample_chain_def)
qed

lemma sample_reach:
  assumes "mining_run sample_env ''m'' (replicate n OuterTest, sample_shared) ps"
  shows "reach_from (mining_init sample_env) (mining_step sample_env ''m'') ps"
  using assms reach_init[of "mining_init sample_env", OF sample_mining_init] by (rule reach_run)

lemma sample_solo_reach:
  assumes "mining_run sample_env ''m'' ([OuterTest], sample_shared) ps"
  shows "reach_from (solo_init sample_env) (mining_step sample_env ''m'') ps"
proof -
  have "solo_init sample_env ([OuterTest], sample_shared)"
    using sample_mining_init[of 1] sample_chain_inv(2) by (simp add: solo_init_def sample_shared_def)
  with assms reach_init[of "solo_init sample_env"] show ?thesis by (blast intro: reach_run)
qed

text \<open>The same node after its owner has mined a block, at difficulty zero.\<close>

definition sample_owned_block :: block where
  "sample_owned_block = candidate_of sample_env 1700000060 (wal_address sample_wallet) 0 [] sample_chain"

definition sample_owned :: shared where
  "sample_owned = sample_shared\<lparr>sh_state := sample_state,
     sh_chain := \<lparr>chn_blocks = [sample_genesis, sample_owned_block], chn_difficulty = 0\<rparr>\<rparr>"

lemma sample_owned_init: "mining_init sample_env ([OuterTest, OuterTest], sample_owned)"
proof -
  have "applyBlock sample_env sample_owned_block state_empty = Inr sample_state"
    using applyLine_coinbase[of "wal_address sample_wallet" sample_env kCoinbaseReward state_empty]
      sample_wallet_ok sample_env_ok
    by (simp add: applyBlock_def sample_owned_block_def sample_state_def kCoinbaseReward_def wallet_ok_def)
  moreover have "links_to sample_env sample_genesis sample_owned_block"
    using sample_solved[of sample_owned_block]
    by (simp add: links_to_def sample_owned_block_def sample_chain_def)
  ultimately show ?thesis
    by (simp add: sample_genesis_apply mining_init_def sample_owned_def sample_shared_def chain_inv_def rebuild_eq
        sample_chain_def exI[of _ 2] numeral_2_eq_2)
qed

subsection \<open>Properties\<close>

text \<open>
  C7: Mining keeps the books, however many threads there are and however they interleave with each
  other, with submitted transactions and with the user's commands. The chain stays valid, and
  its blocks are exactly those applied to the state, each once and in some order, together with
  those a worker has appended and is about to apply.
\<close>

theorem mining_accounts:
  assumes "reach_from (mining_init E) (mining_step E addr) (pcs, s)"
  shows "valid_chain E (chn_blocks (sh_chain s))
    \<and> (\<exists>applied. mset applied + pending_blocks pcs = mset (chn_blocks (sh_chain s))
         \<and> fold_res (applyBlock E) applied state_empty = Inr (sh_state s))"
  using threads.reach_inv[OF assms] by (auto simp: mining_inv_def chain_inv_def)

theorem mining_accounts_witness:
  "\<exists>s. mining_run sample_env ''m'' (replicate 4 OuterTest, sample_shared) (replicate 4 OuterTest, s)
     \<and> chn_blocks (sh_chain s) = [sample_genesis, sample_round_block]
     \<and> valid_chain sample_env (chn_blocks (sh_chain s))"
proof -
  obtain s where s: "mining_run sample_env ''m'' (replicate 4 OuterTest, sample_shared) (replicate 4 OuterTest, s)"
    "chn_blocks (sh_chain s) = [sample_genesis, sample_round_block]" using sample_round[of 4] by auto
  from mining_accounts[OF sample_reach[OF s(1)]] s show ?thesis by metis
qed

text \<open>
  C12: The supply is what the chain mints. Whenever no worker is between appending and applying, the
  sum of all balances equals the sum of the coinbase amounts on the chain (below \<open>2 ^ 64\<close>), even
  if blocks were applied out of order.
\<close>

theorem mining_supply:
  assumes "reach_from (mining_init E) (mining_step E addr) (pcs, s)" "pending_blocks pcs = {#}"
    and "minted_lines (chain_lines (chn_blocks (sh_chain s))) < 2 ^ 64"
  shows "total_supply (sh_state s) = minted_lines (chain_lines (chn_blocks (sh_chain s)))"
  using threads.reach_inv[OF assms(1)] assms(2,3) by (rule mining_inv_supply)

theorem mining_supply_witness:
  "\<exists>s. mining_run sample_env ''m'' (replicate 2 OuterTest, sample_shared) (replicate 2 OuterTest, s)
     \<and> total_supply (sh_state s) = 50"
proof -
  obtain s where s: "mining_run sample_env ''m'' (replicate 2 OuterTest, sample_shared) (replicate 2 OuterTest, s)"
    "chn_blocks (sh_chain s) = [sample_genesis, sample_round_block]" using sample_round[of 2] by auto
  have "minted_lines (chain_lines (chn_blocks (sh_chain s))) = 50"
  proof -
    have "minted ''genesis'' = 0" by (simp add: minted_def starts_with_def)
    then show ?thesis using s(2) by (simp add: chain_lines_def sample_genesis_def genesis_candidate_def
        sample_round_block_def minted_lines_def kCoinbaseReward_def)
  qed
  with mining_supply[OF sample_reach[OF s(1)]] s(1) show ?thesis by auto
qed

text \<open>
  One worker keeps the ledger. With a single mining thread, whenever it is not between appending
  and applying a block, the node's state is exactly the replay of its chain, as a peer that syncs
  the chain computes it.
\<close>

lemma solo_state_is_replay:
  assumes "reach_from (solo_init E) (mining_step E addr) ([pc], s)" "\<forall>b. pc \<noteq> Apply b"
  shows "rebuildFromBlocks E (chn_blocks (sh_chain s)) st0 = Inr (sh_state s)"
  using solo.reach_inv[OF assms(1)] assms(2) by (rule solo_inv_replay)

lemma solo_state_is_replay_example:
  "\<exists>s. mining_run sample_env ''m'' ([OuterTest], sample_shared) ([OuterTest], s)
     \<and> rebuildFromBlocks sample_env [sample_genesis, sample_round_block] state_empty = Inr (sh_state s)"
proof -
  obtain s where s: "mining_run sample_env ''m'' ([OuterTest], sample_shared) ([OuterTest], s)"
    "chn_blocks (sh_chain s) = [sample_genesis, sample_round_block]" using sample_round[of 1] by auto
  from solo_state_is_replay[OF sample_solo_reach[OF s(1)]] s
  show ?thesis by auto
qed

text \<open>
  C8: A mining round pays. An idle worker of a node that is not stopping, whose mempool holds
  transfers the state can carry out, can run a full round, if its nonce search ends, the miner's
  address holds no bar and the total of balances leaves room for the reward: it appends the block its search finds,
  with the coinbase and the twenty oldest pending transfers; then every address has received and
  sent what those transfers say, the miner's address 50 more, the mempool holds the other
  transfers, and the published height is the chain's.
\<close>

theorem mining_round_pays:
  assumes "i < length pcs" "pcs ! i = OuterTest" "\<not> sh_stopFlag s"
    and "represents (sh_mempool s) txs" "\<forall>tx \<in> set txs. payable E (sh_state s) tx"
    and "state_inv (sh_state s)" "total_supply (sh_state s) + 50 < 2 ^ 64" "CHR ''|'' \<notin> set addr"
    and "mineBlock E (candidate_of E now addr i (map tx_toLine (take 20 txs)) (sh_chain s)) = Some b"
  shows "\<exists>s'. mining_run E addr (pcs, s) (pcs, s')
    \<and> chn_blocks (sh_chain s') = chn_blocks (sh_chain s) @ [b]
    \<and> represents (sh_mempool s') (drop 20 txs)
    \<and> ns_height (sh_status s') = chain_height (sh_chain s')
    \<and> (\<forall>a. unat (getBalance (sh_state s') a) + sent_by a (take 20 txs)
        = unat (getBalance (sh_state s) a) + received_by a (take 20 txs) + (if a = addr then 50 else 0))"
  using assms by (rule round_settles)

theorem mining_round_pays_witness:
  "\<exists>s m s'. mempool_add sample_env sample_state sample_tx mempool_empty = Inr ([], m)
     \<and> s = sample_shared\<lparr>sh_state := sample_state, sh_mempool := m\<rparr>
     \<and> mining_run sample_env ''m'' ([OuterTest], s) ([OuterTest], s')
     \<and> unat (getBalance (sh_state s') ''bob'') = 30"
proof -
  obtain m where m: "mempool_add sample_env sample_state sample_tx mempool_empty = Inr ([], m)"
    using mempool_add_accept[OF sample_admissible] by blast
  have r: "represents m [sample_tx]"
    using mempool_add_represents[OF m represents_empty sample_tx_ok(1)] by simp
  have p: "payable sample_env sample_state sample_tx"
    using admissible_payable[OF sample_admissible] sample_tx_ok(1) sample_address(1)
    by (simp add: sample_tx_fields)
  let ?s = "sample_shared\<lparr>sh_state := sample_state, sh_mempool := m\<rparr>"
  let ?b = "candidate_of sample_env 1700000060 ''m'' 0 [tx_toLine sample_tx] sample_chain"
  have mine: "mineBlock sample_env ?b = Some ?b"
    by (rule sample_mine) (simp add: sample_chain_def)
  have t: "total_supply sample_state + 50 < 2 ^ 64"
    unfolding sample_state_def by (subst total_credit) simp_all
  have "\<exists>s'. mining_run sample_env ''m'' ([OuterTest], ?s) ([OuterTest], s')
    \<and> chn_blocks (sh_chain s') = chn_blocks (sh_chain ?s) @ [?b]
    \<and> represents (sh_mempool s') (drop 20 [sample_tx])
    \<and> ns_height (sh_status s') = chain_height (sh_chain s')
    \<and> (\<forall>a. unat (getBalance (sh_state s') a) + sent_by a (take 20 [sample_tx])
        = unat (getBalance (sh_state ?s) a) + received_by a (take 20 [sample_tx]) + (if a = ''m'' then 50 else 0))"
    by (rule mining_round_pays[of 0])
      (use r p mine t sample_state_inv in \<open>simp_all add: sample_shared_def\<close>)
  then obtain s' where "mining_run sample_env ''m'' ([OuterTest], ?s) ([OuterTest], s')"
    "unat (getBalance (sh_state s') ''bob'') + sent_by ''bob'' [sample_tx]
       = unat (getBalance sample_state ''bob'') + received_by ''bob'' [sample_tx]" by auto
  moreover have "getBalance sample_state ''bob'' = 0"
    using sample_address(2) by (simp add: sample_state_def)
  ultimately show ?thesis using m sample_address(2) by (auto simp: sample_tx_fields)
qed

text \<open>
  C11: Two workers can break the ledger. On a node in step with its chain, difficulty zero, with an
  empty mempool, and for three different receivers without bars, the owner
  submits a payment, the first worker takes it into a block and appends it; before it applies the
  block the owner submits a second payment with the same nonce, which the mempool accepts, and
  the second worker appends it in the next block and applies that block first. The node's
  state has then made the second payment, the replay of the same chain the first one.
\<close>

theorem two_workers_diverge:
  assumes "openssl_ok E" "wallet_ok E w" "mining_init E ([OuterTest, OuterTest], s)"
    and "\<not> sh_stopFlag s" "chn_difficulty (sh_chain s) = 0" "sh_mempool s = mempool_empty"
    and "CHR ''|'' \<notin> set addr" "CHR ''|'' \<notin> set x" "CHR ''|'' \<notin> set y"
    and "x \<notin> {addr, wal_address w, y}" "y \<notin> {addr, wal_address w}"
    and "amount \<le> getBalance (sh_state s) (wal_address w)" "total_supply (sh_state s) + 50 < 2 ^ 64"
  shows "\<exists>s' st'. mining_run E addr ([OuterTest, OuterTest], s) ([OuterTest, OuterTest], s')
    \<and> rebuildFromBlocks E (chn_blocks (sh_chain s')) state_empty = Inr st'
    \<and> getBalance (sh_state s') x = getBalance (sh_state s) x
    \<and> getBalance (sh_state s') y = getBalance (sh_state s) y + amount
    \<and> getBalance st' x = getBalance (sh_state s) x + amount
    \<and> getBalance st' y = getBalance (sh_state s) y"
proof -
  let ?n = "getNonce (sh_state s) (wal_address w)"
  define tx where "tx = createSigned E w x amount ?n 0"
  define ty where "ty = createSigned E w y amount ?n 0"
  have rep: "rebuildFromBlocks E (chn_blocks (sh_chain s)) state_empty = Inr (sh_state s)"
    using assms(3) by (simp add: mining_init_def)
  note signed = signed_payment[OF assms(1,2) _ assms(12) rebuild_inv[OF rep] assms(13)]
  note fx = signed[OF assms(8), where now = 0, folded tx_def]
    and fy = signed[OF assms(9), where now = 0, folded ty_def]
  have add: "\<exists>m'. mempool_add E (sh_state s) t m = Inr ([], m') \<and> represents m' [t]"
    if "t = tx \<or> t = ty" "represents m []" for t m
    using represents_add[OF that(2) assms(1,2,12)] fx(1) fy(1) that(1) unfolding tx_def ty_def by blast
  obtain m h b b' where run: "mining_run E addr ([OuterTest, OuterTest], s) ([Apply b, Apply b'],
      s\<lparr>sh_mempool := m, sh_hashes := h,
        sh_chain := (sh_chain s)\<lparr>chn_blocks := chn_blocks (sh_chain s) @ [b, b']\<rparr>\<rparr>)"
    and txs: "blk_transactions b = [coinbase_line addr kCoinbaseReward, tx_toLine tx]"
      "blk_transactions b' = [coinbase_line addr kCoinbaseReward, tx_toLine ty]"
    using run_interleaved[OF assms(4,5), of E tx ty addr] add assms(6) by auto
  obtain st1 st2 where node: "applyBlock E b' (sh_state s) = Inr st1" "applyBlock E b st1 = Inr st2"
    "getBalance st2 y = getBalance (sh_state s) y + amount" "getBalance st2 x = getBalance (sh_state s) x"
    using second_payment_skipped[OF txs(2,1) fy(2) assms(7)] fx fy assms(10,11) by auto
  obtain st3 st4 where replay: "applyBlock E b (sh_state s) = Inr st3" "applyBlock E b' st3 = Inr st4"
    "getBalance st4 x = getBalance (sh_state s) x + amount" "getBalance st4 y = getBalance (sh_state s) y"
    using second_payment_skipped[OF txs(1,2) fx(2) assms(7)] fx fy assms(10,11) by auto
  have "rebuildFromBlocks E (chn_blocks (sh_chain s) @ [b, b']) state_empty = Inr st4"
    using rep replay(1,2) by (simp add: rebuild_eq fold_res_append)
  moreover obtain s' where "mining_run E addr ([OuterTest, OuterTest], s) ([OuterTest, OuterTest], s')"
      "sh_state s' = st2" "chn_blocks (sh_chain s') = chn_blocks (sh_chain s) @ [b, b']"
    using run_both_apply[OF run _ node(2)] node(1) by auto
  ultimately show ?thesis using node(3,4) replay(3,4) by metis
qed

theorem two_workers_diverge_witness:
  "\<exists>s' st'. mining_run sample_env ''m'' ([OuterTest, OuterTest], sample_owned) ([OuterTest, OuterTest], s')
    \<and> rebuildFromBlocks sample_env (chn_blocks (sh_chain s')) state_empty = Inr st'
    \<and> getBalance (sh_state s') ''x'' = 0 \<and> getBalance st' ''x'' = 30"
proof -
  have a: "length (wal_address sample_wallet) = 44"
    using computeAddress_length[OF sample_env_ok] sample_wallet_ok by (simp add: wallet_ok_def)
  then have "length ''x'' \<noteq> length (wal_address sample_wallet)" "length ''y'' \<noteq> length (wal_address sample_wallet)"
    by simp_all
  then have ne: "''x'' \<noteq> wal_address sample_wallet" "''y'' \<noteq> wal_address sample_wallet" by metis+
  have z: "getBalance sample_state ''x'' = 0" "(30 :: u64) \<le> getBalance sample_state (wal_address sample_wallet)"
    "total_supply sample_state + 50 < 2 ^ 64"
    using ne unfolding sample_state_def by (simp_all add: total_credit)
  show ?thesis
    using two_workers_diverge[OF sample_env_ok sample_wallet_ok sample_owned_init, of "''m''" "''x''" "''y''" 30]
      ne z by (auto simp: sample_owned_def sample_shared_def)
qed

end
