(* ===== verification/Node_Laws.thy ===== *)
theory Node_Laws
  imports Command_Loop Miner_Theorems
begin

text \<open>
  What the node's commands do: the invariant that every command and every step of the other
  threads keeps, the sync with a peer, the submission of a payment, and the command that leaves
  the state behind the chain.
\<close>

subsection \<open>The invariant\<close>

lemma refresh_fields [simp]:
  "sh_chain (refreshHeightStatus s) = sh_chain s" "sh_state (refreshHeightStatus s) = sh_state s"
  "sh_mempool (refreshHeightStatus s) = sh_mempool s"
  "ns_peerCount (sh_status (refreshHeightStatus s)) = ns_peerCount (sh_status s)"
  by (simp_all add: refreshHeightStatus_def)

lemma submit_inv:
  assumes "submit_tx E tx cs nd = Inr (r, nd')" "node_inv E nd"
  shows "node_inv E nd'"
  using assms by (auto simp: submit_tx_def bind_res_Inr_iff Let_def node_inv_def split: if_splits)

lemma doInitNode_cases:
  assumes "doInitNode E nd cs = Inr (r, nd')"
  obtains (kept) "nd' = nd"
  | (kept_local) blocks where "nd' = nd\<lparr>nd_shared := (nd_shared nd)\<lparr>sh_chain :=
      snd (replaceIfLongerAndValid E blocks (sh_chain (nd_shared nd)))\<rparr>\<rparr>"
      "\<not> fst (replaceIfLongerAndValid E blocks (sh_chain (nd_shared nd)))"
  | (synced) blocks st' where "rebuildFromBlocks E blocks (sh_state (nd_shared nd)) = Inr st'"
      "fst (replaceIfLongerAndValid E blocks (sh_chain (nd_shared nd)))"
      "nd' = nd\<lparr>nd_shared := refreshHeightStatus ((nd_shared nd)\<lparr>sh_chain :=
        snd (replaceIfLongerAndValid E blocks (sh_chain (nd_shared nd))), sh_state := st'\<rparr>)\<rparr>"
proof -
  let ?ch = "sh_chain (nd_shared nd)"
  obtain oks cs1 where 1: "announceToAllPeers (wal_address (nd_wallet nd)) (nd_peers nd) cs = (oks, cs1)"
    by (cases "announceToAllPeers (wal_address (nd_wallet nd)) (nd_peers nd) cs")
  obtain bestHeight bestPeer cs2
    where 2: "query_peers (platform E) (nd_peers nd) cs1 (- 1) None = (bestHeight, bestPeer, cs2)"
    by (cases "query_peers (platform E) (nd_peers nd) cs1 (- 1) None") auto
  show thesis
  proof (cases "nd_peers nd = [] \<or> bestPeer = None \<or> bestHeight < 0 \<or> word_of_int bestHeight \<le> chain_height ?ch")
    case True
    with assms 1 2 have "nd' = nd" by (auto simp: doInitNode_def split: if_splits)
    then show thesis by (rule kept)
  next
    case False
    with assms 1 2 obtain blocks where f: "fst (fetchChain (platform E) (fst (next_conn cs2))) = Inr blocks"
      by (auto simp: doInitNode_def bind_res_Inr_iff)
    obtain ok ch' where r: "replaceIfLongerAndValid E blocks ?ch = (ok, ch')"
      by (cases "replaceIfLongerAndValid E blocks ?ch")
    show thesis
    proof (cases ok)
      case True
      with False assms 1 2 f r obtain st' where
        "rebuildFromBlocks E blocks (sh_state (nd_shared nd)) = Inr st'"
        "nd' = nd\<lparr>nd_shared := refreshHeightStatus ((nd_shared nd)\<lparr>sh_chain := ch', sh_state := st'\<rparr>)\<rparr>"
        by (auto simp: doInitNode_def bind_res_Inr_iff Let_def)
      with True r show thesis by (intro synced[of blocks st']) simp_all
    next
      case kl: False
      with False assms 1 2 f r have "nd' = nd\<lparr>nd_shared := (nd_shared nd)\<lparr>sh_chain := ch'\<rparr>\<rparr>"
        by (auto simp: doInitNode_def Let_def)
      with kl r show thesis by (intro kept_local[of blocks]) simp_all
    qed
  qed
qed

lemma doInitNode_inv:
  assumes "doInitNode E nd cs = Inr (r, nd')" "node_inv E nd"
  shows "node_inv E nd'"
  using assms(1)
proof (cases rule: doInitNode_cases)
  case kept
  with assms(2) show ?thesis by simp
next
  case (kept_local blocks)
  then have "snd (replaceIfLongerAndValid E blocks (sh_chain (nd_shared nd))) = sh_chain (nd_shared nd)"
    by (auto simp: replaceIfLongerAndValid_def split: if_splits)
  with kept_local assms(2) show ?thesis by simp
next
  case (synced blocks st')
  have "chain_inv E (snd (replaceIfLongerAndValid E blocks (sh_chain (nd_shared nd))))"
    using assms(2) by (intro replace_inv) (simp add: node_inv_def)
  with synced(3) assms(2) show ?thesis by (simp add: node_inv_def)
qed

lemma cmd_add_inv:
  assumes "cmd_add E now (\<lambda>_ d. d) rest nd = Some (b, nd')" "node_inv E nd"
  shows "node_inv E nd'"
proof -
  obtain tx ch' where a: "addTransactionAndMineSync E now (\<lambda>_ d. d) 0 tx (sh_chain (nd_shared nd)) = Some (b, ch')"
    and nd': "nd' = nd\<lparr>nd_shared := refreshHeightStatus ((nd_shared nd)\<lparr>sh_chain := ch'\<rparr>)\<rparr>"
    using assms(1) by (auto simp: cmd_add_def Let_def)
  have "chain_inv E ch'" using addSync_inv(1)[OF a] assms(2) by (simp add: node_inv_def)
  with nd' assms(2) show ?thesis by (simp add: node_inv_def)
qed

lemma peers_inv:
  assumes "node_inv E nd"
  shows "node_inv E (remember_peer a nd)" "node_inv E (ensureListening l nd)"
    "node_inv E (snd (cmd_listen port l nd))" "node_inv E (snd (cmd_difficulty d nd))"
  using assms
  by (simp_all add: node_inv_def remember_peer_def Let_def ensureListening_def peer_server_start_def
      cmd_listen_def cmd_difficulty_def setDifficulty_def chain_height_def chain_inv_def
      split: option.split)

lemma miner_commands_inv:
  assumes "node_inv E nd"
  shows "node_inv E (cmd_mine n nd)" "node_inv E (cmd_stop_mining nd)"
  using assms
  by (simp_all add: node_inv_def cmd_mine_def cmd_stop_mining_def Let_def
      miner_stop_done_def miner_stop_request_def miner_start_def)

lemma run_command_inv:
  assumes "run_command E i c nd = Continue nd'" "node_inv E nd"
  shows "node_inv E nd'"
proof (cases c)
  case (Send a n)
  with assms show ?thesis
    by (auto simp: of_res_def cmd_send_def Let_def split: sum.splits if_splits intro: submit_inv)
next
  case (RegisterUsername u)
  with assms show ?thesis
    by (auto simp: of_res_def cmd_register_username_def Let_def split: sum.splits if_splits intro: submit_inv)
next
  case InitNode
  with assms show ?thesis by (auto simp: of_res_def split: sum.splits intro: doInitNode_inv)
next
  case (Add rest)
  with assms show ?thesis by (auto split: option.splits intro: cmd_add_inv)
qed (use assms peers_inv[OF assms(2)] in \<open>auto simp: cmd_set_peer_def cmd_join_net_def Let_def
      intro!: peers_inv miner_commands_inv split: option.splits if_splits\<close>)

lemma worker_chain:
  assumes "worker_step E now addr i p s = Inr (p', s')"
  shows "ns_peerCount (sh_status s') = ns_peerCount (sh_status s)
    \<and> (sh_chain s' = sh_chain s \<or> (\<exists>b. sh_chain s' = snd (tryAppendMinedBlock E b (sh_chain s))))"
proof (cases p)
  case (Append b)
  with assms show ?thesis by (auto split: prod.splits) (metis snd_conv)
qed (use assms in \<open>auto simp: bind_res_Inr_iff Let_def\<close>)

lemma threads_inv:
  assumes "mining_step E addr (nd_workers nd, nd_shared nd) (pcs, s)" "node_inv E nd"
  shows "node_inv E (nd\<lparr>nd_workers := pcs, nd_shared := s\<rparr>)"
proof -
  have ch: "chain_inv E (sh_chain (nd_shared nd))" using assms(2) by (simp add: node_inv_def)
  have "chain_inv E (sh_chain s) \<and> ns_peerCount (sh_status s) = ns_peerCount (sh_status (nd_shared nd))"
    using assms(1)
  proof (cases rule: mining_step.cases)
    case (worker i now pc')
    from worker_chain[OF worker(3)] ch tryAppend_inv show ?thesis by auto
  qed (use ch in \<open>auto simp: hashrate_turn_def miner_stop_request_def setDifficulty_def chain_inv_def\<close>)
  with assms(2) show ?thesis by (simp add: node_inv_def)
qed

lemma node_start_inv: "node_init E nd \<Longrightarrow> node_inv E nd"
  by (auto simp: node_init_def node_start_def bind_res_Inr_iff node_inv_def status_new_def
      peer_server_new_def dest: new_chain_inv)

interpretation nodes: invariant_system "node_init E" "node_step E" "node_inv E" for E
  by unfold_locales (auto intro: node_start_inv elim!: node_stepE intro: run_command_inv threads_inv)

end
