(* ===== verification/Node_Theorems.thy ===== *)
theory Node_Theorems
  imports Node_Laws
begin

text \<open>
  The properties of the node's commands: the invariant in every reachable state, the sync with a
  peer, payments sent by the user, the lines the command loop understands, and the command that
  mints money and leaves the state behind the chain.
\<close>

subsection \<open>Heights and lengths\<close>

lemma height_length:
  assumes "heights_count (chn_blocks c)" "chn_blocks c \<noteq> []" "length (chn_blocks c) \<le> 2 ^ 63"
  shows "unat (chain_height c) = length (chn_blocks c) - 1"
proof -
  have "length (chn_blocks c) - 1 < 2 ^ 64" using assms(3) by simp
  then have "unat (word_of_nat (length (chn_blocks c) - 1) :: u64) = length (chn_blocks c) - 1"
    by (simp add: unsigned_of_nat take_bit_nat_eq_self)
  with assms(1,2) show ?thesis
    by (simp add: heights_count_def chain_height_def last_conv_nth)
qed

lemma power_long: "(2::nat) ^ (long_bits dm - 1) \<le> 2 ^ 63"
  by (cases dm) simp_all

subsection \<open>The sync of a node with one peer\<close>

text \<open>
  What the three connections of \<^verbatim>\<open>doInitNode\<close> deliver when the peer's handler answers: any reply to
  the announcement, the height, and the blocks in any chunks.
\<close>

definition peer_answers :: "env \<Rightarrow> chain \<Rightarrow> state_store \<Rightarrow> mempool \<Rightarrow> conns \<Rightarrow> bool" where
  "peer_answers E ch st m cs \<longleftrightarrow> (\<exists>c1 c2 c3 h text.
     cs = [c1, Some c2, Some c3]
     \<and> answer E ch st ''HEIGHT'' m = Inr (Some h, [], m) \<and> cn_recvs c2 = byte_calls h
     \<and> answer E ch st ''GET_CHAIN'' m = Inr (Some text, [], m)
     \<and> chunks_ok (cn_recvs c3) \<and> concat (cn_recvs c3) = text)"

text \<open>
  What the sync does once the peer is chosen: the node takes over a taller chain that arrives whole,
  up to the replay, whatever the replay then does.
\<close>

lemma chain_heights:
  assumes "chain_inv E ch" "heights_count (chn_blocks ch)" "length (chn_blocks ch) \<le> 2 ^ (long_bits dm - 1)"
  shows "unat (chain_height ch) = length (chn_blocks ch) - 1" "unat (chain_height ch) < 2 ^ (long_bits dm - 1)"
proof -
  have ne: "chn_blocks ch \<noteq> []" using assms(1) by (simp add: chain_inv_def)
  show h: "unat (chain_height ch) = length (chn_blocks ch) - 1"
    using height_length[OF assms(2) ne] assms(3) power_long[of dm] le_trans by blast
  show "unat (chain_height ch) < 2 ^ (long_bits dm - 1)"
    using h assms(3) ne by (cases "chn_blocks ch") auto
qed

lemma sync_from_best:
  assumes chosen: "announceToAllPeers (wal_address (nd_wallet nd)) (nd_peers nd) cs = (oks, cs1)"
      "query_peers (platform E) (nd_peers nd) cs1 (- 1) None = (int (unat (chain_height ch)), Some p, c # cs2)"
      "fst (fetchChain (platform E) c) = Inr (chn_blocks ch)"
    and valid: "chain_inv E ch" "heights_count (chn_blocks ch)"
      "length (chn_blocks ch) \<le> 2 ^ (long_bits (platform E) - 1)"
    and own: "chain_inv E (sh_chain (nd_shared nd))" "heights_count (chn_blocks (sh_chain (nd_shared nd)))"
      "length (chn_blocks (sh_chain (nd_shared nd))) < length (chn_blocks ch)"
  shows "doInitNode E nd cs = bind_res (rebuildFromBlocks E (chn_blocks ch) state_empty) (\<lambda>st'.
    Inr (Synced (chain_height ch), nd\<lparr>nd_shared := refreshHeightStatus ((nd_shared nd)\<lparr>sh_chain :=
      \<lparr>chn_blocks = chn_blocks ch, chn_difficulty = blk_difficulty (last (chn_blocks ch))\<rparr>, sh_state := st'\<rparr>)\<rparr>))"
proof -
  let ?ch0 = "sh_chain (nd_shared nd)"
  have ne: "chn_blocks ch \<noteq> []" "chn_blocks ?ch0 \<noteq> []" using valid(1) own(1) by (simp_all add: chain_inv_def)
  have taller: "\<not> chain_height ch \<le> chain_height ?ch0"
    using chain_heights(1)[OF valid] chain_heights(1)[OF own(1,2), of "platform E"] own(3) valid(3) ne
    by (auto simp: word_le_nat_alt) (metis Suc_pred length_greater_0_conv less_Suc_eq_le linorder_not_le)
  have r: "replaceIfLongerAndValid E (chn_blocks ch) ?ch0 =
      (True, \<lparr>chn_blocks = chn_blocks ch, chn_difficulty = blk_difficulty (last (chn_blocks ch))\<rparr>)"
    using valid(1,2) own(3) by (simp add: replace_eq chain_inv_def)
  have "nd_peers nd \<noteq> []" using chosen(2) by auto
  with chosen taller r show ?thesis
    by (simp add: rebuild_eq doInitNode_def Let_def refreshHeightStatus_def chain_height_def)
qed

lemma sync_one_peer_replay:
  assumes peer: "nd_peers nd = [p]" "peer_answers E ch st m cs" "\<forall>b \<in> set (chn_blocks ch). block_wire_ok b"
    and valid: "chain_inv E ch" "heights_count (chn_blocks ch)"
      "length (chn_blocks ch) \<le> 2 ^ (long_bits (platform E) - 1)"
    and own: "chain_inv E (sh_chain (nd_shared nd))" "heights_count (chn_blocks (sh_chain (nd_shared nd)))"
      "length (chn_blocks (sh_chain (nd_shared nd))) < length (chn_blocks ch)"
  shows "doInitNode E nd cs = bind_res (rebuildFromBlocks E (chn_blocks ch) state_empty) (\<lambda>st'.
    Inr (Synced (chain_height ch), nd\<lparr>nd_shared := refreshHeightStatus ((nd_shared nd)\<lparr>sh_chain :=
      \<lparr>chn_blocks = chn_blocks ch, chn_difficulty = blk_difficulty (last (chn_blocks ch))\<rparr>, sh_state := st'\<rparr>)\<rparr>))"
proof -
  obtain c1 c2 c3 h payload where c: "cs = [c1, Some c2, Some c3]" "cn_recvs c2 = byte_calls h"
    and a: "answer E ch st ''HEIGHT'' m = Inr (Some h, [], m)"
      "answer E ch st ''GET_CHAIN'' m = Inr (Some payload, [], m)"
    and ck: "chunks_ok (cn_recvs c3)" "concat (cn_recvs c3) = payload"
    using peer(2) by (auto simp: peer_answers_def)
  have "h = show_u64 (chain_height ch) @ newline" using a(1) by (simp add: answer_height)
  then have q: "fst (queryHeight (platform E) (Some c2)) = int (unat (chain_height ch))"
    using queryHeight_reply[OF chain_heights(2)[OF valid], of "cn_sends c2"] c(2)
    by (metis conn.surjective old.unit.exhaust)
  have f: "fst (fetchChain (platform E) (Some c3)) = Inr (chn_blocks ch)"
    using fetchChain_answer[OF a(2) ck peer(3)] .
  have 1: "announceToAllPeers (wal_address (nd_wallet nd)) (nd_peers nd) cs
      = ([fst (announceWallet (wal_address (nd_wallet nd)) c1)], [Some c2, Some c3])"
    using peer(1) c(1) by simp
  have "- 1 < uint (chain_height ch)" using unsigned_greater_eq[where 'a = int, of "chain_height ch"] by linarith
  then have 2: "query_peers (platform E) (nd_peers nd) [Some c2, Some c3] (- 1) None
      = (int (unat (chain_height ch)), Some p, Some c3 # [])"
    using peer(1) q by (simp add: Let_def)
  show ?thesis by (rule sync_from_best[OF 1 2 f valid own])
qed

lemma sync_one_peer:
  assumes "nd_peers nd = [p]" "peer_answers E ch st m cs" "\<forall>b \<in> set (chn_blocks ch). block_wire_ok b"
    and "chain_inv E ch" "heights_count (chn_blocks ch)"
      "length (chn_blocks ch) \<le> 2 ^ (long_bits (platform E) - 1)"
    and "chain_inv E (sh_chain (nd_shared nd))" "heights_count (chn_blocks (sh_chain (nd_shared nd)))"
      "length (chn_blocks (sh_chain (nd_shared nd))) < length (chn_blocks ch)"
    and ledger: "rebuildFromBlocks E (chn_blocks ch) state_empty = Inr st'"
  shows "\<exists>nd'. doInitNode E nd cs = Inr (Synced (chain_height ch), nd')
    \<and> chn_blocks (sh_chain (nd_shared nd')) = chn_blocks ch \<and> sh_state (nd_shared nd') = st'
    \<and> ns_height (sh_status (nd_shared nd')) = chain_height ch"
  using sync_one_peer_replay[OF assms(1-9)] ledger by (simp add: refreshHeightStatus_def chain_height_def)

subsection \<open>A node with a peer\<close>

definition sample_node :: node where
  "sample_node = \<lparr>nd_shared = sample_shared\<lparr>sh_stopFlag := True,
       sh_status := status_new\<lparr>ns_height := 0, ns_difficulty := 3\<rparr>\<rparr>,
     nd_wallet = sample_wallet, nd_peers = [], nd_server = peer_server_new, nd_listening = False,
     nd_p2pPort = 7777, nd_workers = []\<rparr>"

definition sample_peer :: peer_address where
  "sample_peer = \<lparr>pa_host = ''peer'', pa_port = 7779\<rparr>"

lemma sample_node_init: "node_init sample_env sample_node"
proof -
  have "node_start [] sample_chain sample_wallet = Inr sample_node"
    by (simp add: node_start_def sample_node_def sample_shared_def chain_height_def sample_chain_def
        sample_genesis_def genesis_candidate_def)
  with sample_new_chain show ?thesis by (auto simp: node_init_def)
qed

lemma parse_word:
  assumes "solid c" "solid a"
  shows "stream_tokens (c @ CHR '' '' # a) = [c, a]"
  using stream_tokens_next[OF assms(1)] stream_tokens_last[OF assms(2)] by simp

lemma sample_parse_peer: "parse_command ''set-peer peer:7779'' = SetPeer ''peer:7779''"
proof -
  have "stream_tokens ''set-peer peer:7779'' = [''set-peer'', ''peer:7779'']"
    using parse_word[of "''set-peer''" "''peer:7779''"] by (simp add: solid_def is_space_def)
  then show ?thesis by (simp add: parse_command_def token_arg_def)
qed

lemma sample_add_peer:
  "run_command sample_env \<lparr>in_clock = \<lambda>_. 0, in_conns = [], in_listening = 3\<rparr>
     (parse_command ''set-peer peer:7779'') nd = Continue (remember_peer sample_peer nd)"
proof -
  have t: "peer_toString sample_peer = ''peer:7779''"
    by (simp add: peer_toString_def sample_peer_def show_int_def show_nat.simps digit_char_def char_of_def bit_0)
  have "parsePeerAddress ''peer:7779'' = Some sample_peer"
    using parse_toString[of sample_peer] unfolding t by (simp add: peer_ok_def sample_peer_def)
  then show ?thesis by (simp add: sample_parse_peer cmd_set_peer_def)
qed

lemma addSync_quiet:
  assumes "addTransactionAndMineSync E now (\<lambda>_ d. d) 0 tx c = Some (b, c')"
  shows "c' = c\<lparr>chn_blocks := chn_blocks c @ [b]\<rparr>"
proof -
  obtain c0 where c0: "c' = c0\<lparr>chn_blocks := chn_blocks c0 @ [b]\<rparr>" "(\<lambda>d d'. \<exists>j::nat. d' = d)\<^sup>*\<^sup>* c c0"
    using addSync_result[OF assms] by auto
  from c0(2) have "c0 = c" by (induction rule: rtranclp_induct) auto
  with c0(1) show ?thesis by simp
qed

lemma broadcast_length: "length (fst (broadcast_all l ps cs)) = length ps"
  by (induction ps arbitrary: cs) (auto simp: case_prod_beta)

text \<open>A broadcast asks the peers in order, over one connection attempt each.\<close>

lemma broadcast_all_eq:
  "fst (broadcast_all line ps cs) =
     map (\<lambda>i. fst (broadcastTransaction line (if i < length cs then cs ! i else None))) [0..<length ps]"
proof (induction ps arbitrary: cs)
  case (Cons p ps)
  have up: "map f [0..<Suc n] = f 0 # map (\<lambda>i. f (Suc i)) [0..<n]" for f :: "nat \<Rightarrow> bool" and n
    by (simp add: upt_conv_Cons map_Suc_upt[symmetric] del: upt_Suc)
  show ?case
    by (cases cs) (simp_all add: case_prod_beta Cons.IH up del: upt_Suc)
qed simp

lemma broadcast_accepted:
  "fst (broadcastTransaction line c) \<longleftrightarrow> (\<exists>c'. c = Some c' \<and> fst (recvLine (cn_recvs c')) = ''OK'')"
  by (cases c) (simp_all add: broadcastTransaction_def Let_def)

lemma parse_send: "stream_tokens line = [''send'', a, n] \<Longrightarrow> parse_command line = Send a (read_u64 (Some n))"
  by (simp add: parse_command_def token_arg_def nth_token_def)

lemma parse_difficulty: "stream_tokens line = [''difficulty'', d] \<Longrightarrow> parse_command line = Difficulty (read_u32 (Some d))"
  by (simp add: parse_command_def nth_token_def)

lemma parse_add: "stream_tokens line = ''add'' # ts \<Longrightarrow> parse_command line = Add (after_token line)"
  by (simp add: parse_command_def)

subsection \<open>Properties\<close>

text \<open>
  The node's invariant. After any sequence of commands and steps of the mining and submitting
  threads, the chain passes the node's own validation, the published peer count is the number of
  peers, and the listening flag agrees with the server.
\<close>

lemma node_always_ok:
  assumes "reach_from (node_init E) (node_step E) nd"
  shows "isValid E (sh_chain (nd_shared nd))
    \<and> ns_peerCount (sh_status (nd_shared nd)) = int (length (nd_peers nd))
    \<and> (nd_listening nd \<longleftrightarrow> ps_running (nd_server nd))"
  using nodes.reach_inv[OF assms] by (auto simp: node_inv_def isValid_iff chain_inv_def)

lemma node_always_ok_example:
  "reach_from (node_init sample_env) (node_step sample_env) (remember_peer sample_peer sample_node)
   \<and> ns_peerCount (sh_status (nd_shared (remember_peer sample_peer sample_node))) = 1"
proof -
  have r: "reach_from (node_init sample_env) (node_step sample_env) (remember_peer sample_peer sample_node)"
    by (rule reach_step[of _ _ sample_node])
      (rule reach_init, rule sample_node_init, rule command, rule sample_add_peer)
  from node_always_ok[OF r] r show ?thesis by (simp add: remember_peer_def sample_node_def)
qed

text \<open>
  Sync. A node whose only peer holds a longer valid chain, counted from height zero and made of
  blocks the line format carries, adopts exactly the peer's blocks when the peer's handler
  answers its requests over connections that cut the bytes anywhere; its state is then the
  replay of that chain and it publishes the new height.
\<close>

lemma sync_adopts_peer:
  assumes "nd_peers nd = [p]" "peer_answers E ch st m cs" "\<forall>b \<in> set (chn_blocks ch). block_wire_ok b"
    and "chain_inv E ch" "heights_count (chn_blocks ch)"
    and "length (chn_blocks ch) \<le> 2 ^ (long_bits (platform E) - 1)"
    and "chain_inv E (sh_chain (nd_shared nd))" "heights_count (chn_blocks (sh_chain (nd_shared nd)))"
    and "length (chn_blocks (sh_chain (nd_shared nd))) < length (chn_blocks ch)"
    and "rebuildFromBlocks E (chn_blocks ch) state_empty = Inr st'"
  shows "\<exists>nd'. doInitNode E nd cs = Inr (Synced (chain_height ch), nd')
    \<and> chn_blocks (sh_chain (nd_shared nd')) = chn_blocks ch \<and> sh_state (nd_shared nd') = st'
    \<and> ns_height (sh_status (nd_shared nd')) = chain_height ch"
  using assms by (rule sync_one_peer)

definition sample_peer_chain :: chain where
  "sample_peer_chain = \<lparr>chn_blocks = [sample_genesis, sample_next], chn_difficulty = 3\<rparr>"

lemma sample_peer_replay:
  "rebuildFromBlocks sample_env (chn_blocks sample_peer_chain) state_empty = Inr (credit ''m'' 50 state_empty)"
proof -
  have "''COINBASE|m|50'' = coinbase_line ''m'' 50"
    by (simp add: coinbase_line_def show_u64_def show_nat.simps digit_char_def char_of_def bit_0)
  then have "applyBlock sample_env sample_next state_empty = Inr (credit ''m'' 50 state_empty)"
    using applyLine_coinbase[of "''m''" sample_env 50 state_empty]
    by (simp add: applyBlock_def sample_next_def buildCandidate_def)
  then show ?thesis by (simp add: rebuild_eq sample_peer_chain_def sample_genesis_apply)
qed

lemma sample_round_wire: "block_wire_ok sample_round_block"
  by (auto simp: block_wire_ok_def sample_round_block_def candidate_of_def buildCandidate_def
      coinbase_line_def show_u64_def kCoinbaseReward_def)

lemma sample_round_block_height: "blk_height sample_round_block = 1"
  by (simp add: sample_round_block_def chain_height_def sample_chain_def
      sample_genesis_def genesis_candidate_def)

lemma peer_answers_exists: "\<exists>cs. peer_answers E ch st m cs"
proof -
  let ?c2 = "\<lparr>cn_sends = [], cn_recvs = byte_calls (show_u64 (chain_height ch) @ newline)\<rparr>"
  let ?t = "concat (map (\<lambda>line. line @ newline) (dumpLines ch)) @ ''END'' @ newline"
  let ?c3 = "\<lparr>cn_sends = [], cn_recvs = [?t]\<rparr>"
  have "peer_answers E ch st m [None, Some ?c2, Some ?c3]"
    unfolding peer_answers_def
    by (intro exI conjI, rule refl, rule answer_height, simp, rule answer_chain) (simp_all add: chunks_ok_def)
  then show ?thesis ..
qed

lemma sample_next_wire: "block_wire_ok sample_next"
  by (auto simp: block_wire_ok_def sample_next_def buildCandidate_def)

lemma sync_adopts_peer_example:
  "\<exists>nd'. doInitNode sample_env (remember_peer sample_peer sample_node)
      [None, Some \<lparr>cn_sends = [], cn_recvs = byte_calls (show_u64 1 @ newline)\<rparr>,
       Some \<lparr>cn_sends = [], cn_recvs = [chain_text (chn_blocks sample_peer_chain), ''END'' @ newline]\<rparr>]
     = Inr (Synced 1, nd') \<and> getBalance (sh_state (nd_shared nd')) ''m'' = 50"
proof -
  let ?cs = "[None, Some \<lparr>cn_sends = [], cn_recvs = byte_calls (show_u64 1 @ newline)\<rparr>,
       Some \<lparr>cn_sends = [], cn_recvs = [chain_text (chn_blocks sample_peer_chain), ''END'' @ newline]\<rparr>]"
  have h: "chain_height sample_peer_chain = 1"
    by (simp add: chain_height_def sample_peer_chain_def sample_next_def buildCandidate_def sample_chain_def
        sample_genesis_def genesis_candidate_def)
  have answers: "peer_answers sample_env sample_peer_chain state_empty mempool_empty ?cs"
    unfolding peer_answers_def
    by (intro exI conjI, rule refl, rule answer_height, simp add: h, rule answer_chain)
      (simp_all add: chunks_ok_def chain_text_dump, simp add: sample_peer_chain_def)
  have ps: "nd_peers (remember_peer sample_peer sample_node) = [sample_peer]"
    by (simp add: remember_peer_def sample_node_def)
  have own: "sh_chain (nd_shared (remember_peer sample_peer sample_node)) = sample_chain"
    by (simp add: remember_peer_def sample_node_def sample_shared_def)
  have wire: "\<forall>b \<in> set (chn_blocks sample_peer_chain). block_wire_ok b"
    using sample_chain_wire sample_next_wire by (simp add: sample_peer_chain_def sample_chain_def)
  have inv: "chain_inv sample_env sample_peer_chain" "heights_count (chn_blocks sample_peer_chain)"
    using sample_two_blocks by (simp_all add: chain_inv_def sample_peer_chain_def)
  have len: "length (chn_blocks sample_peer_chain) \<le> 2 ^ (long_bits (platform sample_env) - 1)"
    "length (chn_blocks sample_chain) < length (chn_blocks sample_peer_chain)"
    by (cases "platform sample_env"; simp add: sample_peer_chain_def sample_chain_def)+
  from sync_adopts_peer[OF ps answers wire inv len(1) _ _ _ sample_peer_replay] own len(2) sample_chain_inv h
  show ?thesis by auto
qed

text \<open>
  C29: \<^verbatim>\<open>add\<close> mints any amount and leaves the state behind. When the user adds the text of a coinbase
  line, the node's chain stays valid for itself and every peer, whatever the amount, but its
  state does not change, so it differs from the replay of its own chain by that amount.
\<close>

theorem add_mints:
  assumes "cmd_add E now (\<lambda>_ d. d) (CHR '' '' # coinbase_line addr amount) nd = Some (b, nd')"
    and "chain_inv E (sh_chain (nd_shared nd))" "CHR ''|'' \<notin> set addr"
    and "rebuildFromBlocks E (chn_blocks (sh_chain (nd_shared nd))) state_empty = Inr (sh_state (nd_shared nd))"
  shows "isValid E (sh_chain (nd_shared nd'))
    \<and> sh_state (nd_shared nd') = sh_state (nd_shared nd)
    \<and> rebuildFromBlocks E (chn_blocks (sh_chain (nd_shared nd'))) state_empty
        = Inr (credit addr amount (sh_state (nd_shared nd')))"
proof -
  have l: "substr_from (CHR '' '' # coinbase_line addr amount) 1 = coinbase_line addr amount"
    "coinbase_line addr amount \<noteq> []"
    by (simp_all add: substr_from_def coinbase_line_def)
  obtain ch' where a: "addTransactionAndMineSync E now (\<lambda>_ d. d) 0 (coinbase_line addr amount)
      (sh_chain (nd_shared nd)) = Some (b, ch')"
    and nd': "nd' = nd\<lparr>nd_shared := refreshHeightStatus ((nd_shared nd)\<lparr>sh_chain := ch'\<rparr>)\<rparr>"
    using assms(1) l by (auto simp: cmd_add_def Let_def)
  have "chain_inv E ch'" using addSync_inv(1)[OF a assms(2)] by simp
  moreover have "chn_blocks ch' = chn_blocks (sh_chain (nd_shared nd)) @ [b]"
    "blk_transactions b = [coinbase_line addr amount]"
    using addSync_quiet[OF a] addSync_inv(3)[OF a assms(2)] by simp_all
  ultimately show ?thesis
    using nd' assms(3,4)
    by (simp add: isValid_iff chain_inv_def rebuild_snoc applyBlock_def applyLine_coinbase)
qed

theorem add_mints_witness:
  "\<exists>b nd'. cmd_add sample_env (\<lambda>_. 0) (\<lambda>_ d. d) (CHR '' '' # coinbase_line ''bob'' 1000000) sample_node = Some (b, nd')
    \<and> getBalance (sh_state (nd_shared nd')) ''bob'' = 0
    \<and> (\<exists>st. rebuildFromBlocks sample_env (chn_blocks (sh_chain (nd_shared nd'))) state_empty = Inr st
        \<and> getBalance st ''bob'' = 1000000)"
proof -
  let ?b = "buildCandidate sample_env 0 [coinbase_line ''bob'' 1000000] sample_chain"
  have f: "sh_chain (nd_shared sample_node) = sample_chain" "sh_state (nd_shared sample_node) = state_empty"
    by (simp_all add: sample_node_def sample_shared_def)
  have "mineBlock sample_env ?b = Some ?b"
    by (rule sample_mine) (simp add: buildCandidate_def sample_chain_def)
  then have "addTransactionAndMineSync sample_env (\<lambda>_. 0) (\<lambda>_ d. d) 0 (coinbase_line ''bob'' 1000000) sample_chain
      = Some (?b, sample_chain\<lparr>chn_blocks := chn_blocks sample_chain @ [?b]\<rparr>)"
    by (intro addSync_undisturbed) simp_all
  then have "\<exists>b nd'. cmd_add sample_env (\<lambda>_. 0) (\<lambda>_ d. d) (CHR '' '' # coinbase_line ''bob'' 1000000) sample_node = Some (b, nd')"
    using f(1) by (simp add: cmd_add_def Let_def substr_from_def) (simp add: coinbase_line_def)
  then obtain b nd' where a: "cmd_add sample_env (\<lambda>_. 0) (\<lambda>_ d. d) (CHR '' '' # coinbase_line ''bob'' 1000000)
      sample_node = Some (b, nd')" by blast
  from add_mints[OF a] f sample_chain_inv(1) sample_replay a show ?thesis by auto
qed

text \<open>
  C30: Sending, on every branch. \<^verbatim>\<open>send\<close> prints its usage without a recipient or with amount zero,
  rejects an amount above the wallet's balance, then rejects while the wallet has a transaction pending,
  each time changing nothing; otherwise it appends to the mempool the line of one transfer of that
  amount to that recipient, which is signed by the wallet, verifies and carries the wallet's current
  nonce, marks the wallet's address as pending, changes nothing else of the node, and reports as
  accepting exactly the peers that could be connected to and answered OK. It throws nothing. If the
  recipient holds no bar and the mempool's lines are those of \<open>txs\<close>, the transfer is queued
  behind them and its receiver will be paid.
\<close>

theorem send_queues_payment:
  fixes to :: string and amount :: u64 and now :: i64
  assumes "openssl_ok E" "wallet_ok E (nd_wallet nd)"
  defines "s \<equiv> nd_shared nd"
  defines "m \<equiv> sh_mempool s" and "addr \<equiv> wal_address (nd_wallet nd)"
  defines "tx \<equiv> createSigned E (nd_wallet nd) to amount (getNonce (sh_state s) addr) now"
  shows "cmd_send E now to amount cs nd = Inr
      (if to = [] \<or> amount = 0 then (Usage, nd)
       else if getBalance (sh_state s) addr < amount then (Rejected ''insufficient balance'', nd)
       else if addr \<in> mp_pendingSenders m then (Rejected ''sender already has a pending tx'', nd)
       else (Submitted tx (map (\<lambda>i. i < length cs \<and> (\<exists>c. cs ! i = Some c \<and> fst (recvLine (cn_recvs c)) = ''OK''))
               [0..<length (nd_peers nd)]),
             nd\<lparr>nd_shared := s\<lparr>sh_mempool := \<lparr>mp_pending = mp_pending m @ [tx_toLine tx],
               mp_pendingSenders = insert addr (mp_pendingSenders m)\<rparr>\<rparr>\<rparr>))
    \<and> tx_type tx = ''TRANSFER'' \<and> tx_sender tx = addr \<and> tx_receiver tx = to \<and> tx_amount tx = amount
    \<and> tx_nonce tx = getNonce (sh_state s) addr \<and> tx_verify E tx = Inr True
    \<and> (CHR ''|'' \<notin> set to \<and> represents m txs \<and> cmd_send E now to amount cs nd = Inr (Submitted tx acks, nd') \<longrightarrow>
         payable E (sh_state s) tx \<and> represents (sh_mempool (nd_shared nd')) (txs @ [tx]))"
proof -
  have f: "tx_type tx = ''TRANSFER''" "tx_sender tx = addr" "tx_receiver tx = to" "tx_amount tx = amount"
    "tx_nonce tx = getNonce (sh_state s) addr" "tx_verify E tx = Inr True"
    using createSigned_verifies[OF assms(1,2)] by (simp_all add: tx_def addr_def createSigned_eq)
  have acks: "(fst (broadcastTransaction l (if i < length cs then cs ! i else None)))
      \<longleftrightarrow> i < length cs \<and> (\<exists>c. cs ! i = Some c \<and> fst (recvLine (cn_recvs c)) = ''OK'')" for l i
    by (simp add: broadcast_accepted)
  have run: "cmd_send E now to amount cs nd = Inr
      (if to = [] \<or> amount = 0 then (Usage, nd)
       else if getBalance (sh_state s) addr < amount then (Rejected ''insufficient balance'', nd)
       else if addr \<in> mp_pendingSenders m then (Rejected ''sender already has a pending tx'', nd)
       else (Submitted tx (map (\<lambda>i. i < length cs \<and> (\<exists>c. cs ! i = Some c \<and> fst (recvLine (cn_recvs c)) = ''OK''))
               [0..<length (nd_peers nd)]),
             nd\<lparr>nd_shared := s\<lparr>sh_mempool := \<lparr>mp_pending = mp_pending m @ [tx_toLine tx],
               mp_pendingSenders = insert addr (mp_pendingSenders m)\<rparr>\<rparr>\<rparr>))"
    using f by (simp add: cmd_send_def Let_def submit_tx_def mempool_add_def broadcast_all_eq acks
        s_def[symmetric] addr_def[symmetric] tx_def[symmetric] m_def[symmetric])
  have "payable E (sh_state s) tx \<and> represents (sh_mempool (nd_shared nd')) (txs @ [tx])"
    if "CHR ''|'' \<notin> set to" "represents m txs" "cmd_send E now to amount cs nd = Inr (Submitted tx acks, nd')"
  proof -
    have b: "bar_free tx" "tx_sender tx \<noteq> []"
      using assms(1,2) that(1) f(2) by (simp_all add: tx_def addr_def createSigned_eq sign_with_bar_free wallet_ok_def)
    have "\<not> getBalance (sh_state s) addr < amount" "addr \<notin> mp_pendingSenders m"
      "sh_mempool (nd_shared nd') = \<lparr>mp_pending = mp_pending m @ [tx_toLine tx], mp_pendingSenders = insert addr (mp_pendingSenders m)\<rparr>"
      using that(3) unfolding run by (auto split: if_splits)
    moreover from this have "admissible E (sh_state s) tx m" using f by (simp add: admissible_def not_less)
    ultimately show ?thesis
      using admissible_payable[OF _ f(1) b] that(2) b(1) f(2) by (auto simp: represents_def)
  qed
  with run f show ?thesis by blast
qed

theorem send_queues_payment_witness:
  "\<exists>nd'. cmd_send sample_env 1700000000 ''bob'' 30 []
      (sample_node\<lparr>nd_shared := (nd_shared sample_node)\<lparr>sh_state := sample_state\<rparr>\<rparr>)
      = Inr (Submitted sample_tx [], nd') \<and> represents (sh_mempool (nd_shared nd')) [sample_tx]"
proof -
  let ?nd = "sample_node\<lparr>nd_shared := (nd_shared sample_node)\<lparr>sh_state := sample_state\<rparr>\<rparr>"
  have f: "sh_mempool (nd_shared ?nd) = mempool_empty" "nd_wallet ?nd = sample_wallet" "nd_peers ?nd = []"
    "sh_state (nd_shared ?nd) = sample_state"
    by (simp_all add: sample_node_def sample_shared_def)
  have n: "createSigned sample_env sample_wallet ''bob'' 30 (getNonce sample_state (wal_address sample_wallet)) 1700000000 = sample_tx"
    by (simp add: sample_state_def sample_tx_def)
  have a: "\<not> getBalance sample_state (wal_address sample_wallet) < 30" "wal_address sample_wallet \<notin> mp_pendingSenders mempool_empty"
    by (simp_all add: sample_state_def mempool_empty_def)
  have sample_receiver: "CHR ''|'' \<notin> set ''bob''" by simp
  have w: "wallet_ok sample_env (nd_wallet ?nd)" using sample_wallet_ok by (simp add: f)
  note send = send_queues_payment[OF sample_env_ok w, of 1700000000 "''bob''" 30 "[]", unfolded f n]
  obtain nd' where nd': "cmd_send sample_env 1700000000 ''bob'' 30 [] ?nd = Inr (Submitted sample_tx [], nd')"
    using conjunct1[OF send] a by auto
  have "represents (sh_mempool (nd_shared nd')) ([] @ [sample_tx])"
    using send[where nd' = nd' and acks = "[]" and txs = "[]"] represents_empty nd' by (metis (no_types) sample_receiver)
  with nd' show ?thesis by auto
qed

text \<open>
  What the user types. For a recipient text without white space, the line that names it and
  an amount in decimal is read as the command to send exactly that amount to it, whatever the
  64-bit amount; a decimal difficulty is read as itself; and the rest of an \<^verbatim>\<open>add\<close> line, spaces
  included, is the text to add.
\<close>

lemma command_lines:
  assumes "solid to"
  shows "parse_command (''send '' @ to @ '' '' @ show_u64 amount) = Send to amount
    \<and> parse_command (''difficulty '' @ show_u32 d) = Difficulty (Some d)
    \<and> parse_command (''add '' @ rest) = Add (CHR '' '' # rest)"
proof -
  have "stream_tokens (''send '' @ to @ '' '' @ show_u64 amount) = [''send'', to, show_u64 amount]"
    using stream_tokens_join[of "[''send'', to, show_u64 amount]"] assms
    by (simp add: solid_word is_space_def)
  moreover have "read_u64 (Some (show_u64 amount)) = amount"
    using unsigned_less[where 'a = nat, of amount]
    by (simp add: read_u64_def show_u64_def scan_int_show_nat not_le)
  moreover have "stream_tokens (''difficulty '' @ show_u32 d) = [''difficulty'', show_u32 d]"
    using stream_tokens_join[of "[''difficulty'', show_u32 d]"] by (simp add: solid_word is_space_def)
  moreover have "read_u32 (Some (show_u32 d)) = Some d"
    using unsigned_less[where 'a = nat, of d]
    by (simp add: read_u32_def show_u32_def scan_int_show_nat not_le)
  moreover have "\<exists>ts. stream_tokens (''add '' @ rest) = ''add'' # ts"
    using stream_tokens_next[of "''add''" rest] by (simp add: solid_word is_space_def)
  moreover have "after_token (''add '' @ rest) = CHR '' '' # rest"
    by (simp add: after_token_def is_space_def)
  ultimately show ?thesis using parse_send parse_difficulty parse_add by metis
qed

lemma command_lines_example: "parse_command ''send bob 5'' = Send ''bob'' 5"
proof -
  have "''send '' @ ''bob'' @ '' '' @ show_u64 5 = ''send bob 5''"
    by (simp add: show_u64_def show_nat.simps digit_char_def char_of_def bit_0)
  with command_lines[of "''bob''" 5 0 "[]"] show ?thesis by (simp add: solid_word is_space_def)
qed

end
