(* ===== verification/Takeover.thy ===== *)
theory Takeover
  imports Node_Theorems
begin

text \<open>
  What a peer can do to a node that syncs with it. Fork choice counts blocks and takes each block's
  difficulty from the block itself (\<^verbatim>\<open>replaceIfLongerAndValid\<close> in \<^verbatim>\<open>src/blockchain/chain.hpp\<close>), and the
  replay believes every coinbase line (\<^verbatim>\<open>applyCoinbaseLocked\<close> in \<^verbatim>\<open>src/state/account.hpp\<close>). A peer
  can therefore build, without searching a single nonce, a chain that every node takes over and
  that says what the peer likes. The peer's answers are those of an unmodified node that holds
  this chain.
\<close>

subsection \<open>A chain without work\<close>

text \<open>Blocks that the code's own \<open>buildCandidate\<close> makes at difficulty zero, none of them mined.\<close>

fun extend_free :: "env \<Rightarrow> string list list \<Rightarrow> block list \<Rightarrow> block list" where
  "extend_free E [] bs = bs"
| "extend_free E (txs # rest) bs =
     extend_free E rest (bs @ [buildCandidate E 0 txs \<lparr>chn_blocks = bs, chn_difficulty = 0\<rparr>])"

definition free_genesis :: block where
  "free_genesis = (genesis_candidate 0)\<lparr>blk_difficulty := 0\<rparr>"

text \<open>\<open>n\<close> blocks after the first, the last with the given lines and the others empty.\<close>

definition free_chain :: "env \<Rightarrow> nat \<Rightarrow> string list \<Rightarrow> chain" where
  "free_chain E n ls =
     \<lparr>chn_blocks = extend_free E (replicate (n - 1) [] @ [ls]) [free_genesis], chn_difficulty = 0\<rparr>"

definition workless :: "block \<Rightarrow> bool" where
  "workless b \<longleftrightarrow> blk_nonce b = 0 \<and> blk_difficulty b = 0"

definition lines_wire_ok :: "string list \<Rightarrow> bool" where
  "lines_wire_ok ls \<longleftrightarrow> (\<forall>l \<in> set ls. CHR '','' \<notin> set l \<and> CHR 0x0A \<notin> set l) \<and> ls \<noteq> [[]]"

lemma extend_free_chain:
  assumes "bs \<noteq> []" "valid_chain E bs" "heights_count bs" "\<forall>b \<in> set bs. workless b \<and> block_wire_ok b"
    and "\<forall>ls \<in> set txss. lines_wire_ok ls"
  shows "extend_free E txss bs \<noteq> [] \<and> valid_chain E (extend_free E txss bs) \<and> heights_count (extend_free E txss bs)
    \<and> (\<forall>b \<in> set (extend_free E txss bs). workless b \<and> block_wire_ok b)
    \<and> length (extend_free E txss bs) = length bs + length txss
    \<and> concat (map blk_transactions (extend_free E txss bs)) = concat (map blk_transactions bs) @ concat txss"
  using assms
proof (induction txss arbitrary: bs)
  case (Cons txs rest)
  let ?b = "buildCandidate E 0 txs \<lparr>chn_blocks = bs, chn_difficulty = 0\<rparr>"
  have b: "blk_height ?b = blk_height (last bs) + 1" "blk_difficulty ?b = 0" "blk_nonce ?b = 0"
    "blk_previousHash ?b = computeHash E (last bs)" "blk_transactions ?b = txs"
    by (simp_all add: buildCandidate_def)
  have "Suc (length bs - 1) = length bs" using Cons.prems(1) by (cases bs) simp_all
  then have "blk_height ?b = word_of_nat (length bs)"
    using heights_count_last[OF Cons.prems(3,1)] b(1) by (metis add.commute of_nat_Suc)
  moreover have "links_to E (last bs) ?b" using b by (simp add: links_to_def)
  moreover have "workless ?b \<and> block_wire_ok ?b"
    using b Cons.prems(5) by (simp add: workless_def block_wire_ok_def lines_wire_ok_def)
  ultimately have "bs @ [?b] \<noteq> []" "valid_chain E (bs @ [?b])" "heights_count (bs @ [?b])"
    "\<forall>b \<in> set (bs @ [?b]). workless b \<and> block_wire_ok b" "\<forall>ls \<in> set rest. lines_wire_ok ls"
    using Cons.prems by (auto simp: valid_chain_snoc heights_count_snoc)
  from Cons.IH[OF this] b(5) show ?case by simp
qed simp

lemma free_chain_ok:
  assumes "lines_wire_ok ls" "0 < n"
  shows "chain_inv E (free_chain E n ls)" "heights_count (chn_blocks (free_chain E n ls))"
    "\<forall>b \<in> set (chn_blocks (free_chain E n ls)). workless b \<and> block_wire_ok b"
    "length (chn_blocks (free_chain E n ls)) = Suc n"
    "concat (map blk_transactions (chn_blocks (free_chain E n ls))) = ''genesis'' # ls"
proof -
  have g: "[free_genesis] \<noteq> []" "valid_chain E [free_genesis]" "heights_count [free_genesis]"
    "\<forall>b \<in> set [free_genesis]. workless b \<and> block_wire_ok b"
    by (simp_all add: free_genesis_def genesis_candidate_def workless_def block_wire_ok_def heights_count_def)
  have l: "\<forall>x \<in> set (replicate (n - 1) [] @ [ls]). lines_wire_ok x" using assms(1) by (auto simp: lines_wire_ok_def)
  note e = extend_free_chain[OF g l]
  show "chain_inv E (free_chain E n ls)" "heights_count (chn_blocks (free_chain E n ls))"
    "\<forall>b \<in> set (chn_blocks (free_chain E n ls)). workless b \<and> block_wire_ok b"
    "length (chn_blocks (free_chain E n ls)) = Suc n"
    "concat (map blk_transactions (chn_blocks (free_chain E n ls))) = ''genesis'' # ls"
    using e assms(2) by (simp_all add: free_chain_def chain_inv_def free_genesis_def genesis_candidate_def)
qed

lemma free_chain_replay:
  assumes "lines_wire_ok ls" "0 < n"
  shows "rebuildFromBlocks E (chn_blocks (free_chain E n ls)) st = fold_res (applyLine E) ls state_empty"
proof -
  have "applyLine E ''genesis'' state_empty = Inr state_empty"
    by (simp add: applyLine_def starts_with_def find_char_def)
  then show ?thesis
    unfolding rebuild_eq fold_blocks_eq free_chain_ok(5)[OF assms] by simp
qed

subsection \<open>The sync with such a peer\<close>

text \<open>The node replays whatever lines the peer has chosen.\<close>

lemma takeover:
  assumes "chain_inv E (sh_chain (nd_shared nd))" "heights_count (chn_blocks (sh_chain (nd_shared nd)))"
    and "length (chn_blocks (sh_chain (nd_shared nd))) < 2 ^ (long_bits (platform E) - 1)"
    and "nd_peers nd = [p]" "lines_wire_ok ls"
    and "peer_answers E (free_chain E (length (chn_blocks (sh_chain (nd_shared nd)))) ls) st m cs"
  defines "evil \<equiv> free_chain E (length (chn_blocks (sh_chain (nd_shared nd)))) ls"
  shows "doInitNode E nd cs = bind_res (fold_res (applyLine E) ls state_empty) (\<lambda>st'.
    Inr (Synced (chain_height evil), nd\<lparr>nd_shared := refreshHeightStatus ((nd_shared nd)\<lparr>sh_chain :=
      \<lparr>chn_blocks = chn_blocks evil, chn_difficulty = 0\<rparr>, sh_state := st'\<rparr>)\<rparr>))"
proof -
  let ?n = "length (chn_blocks (sh_chain (nd_shared nd)))"
  have n: "0 < ?n" using assms(1) by (simp add: chain_inv_def)
  note ok = free_chain_ok[OF assms(5) n, of E, folded evil_def]
  have "blk_difficulty (last (chn_blocks evil)) = 0"
    using ok(1,3) by (simp add: chain_inv_def workless_def)
  with sync_one_peer_replay[OF assms(4) assms(6)[folded evil_def] _ ok(1,2) _ assms(1,2)] ok(3,4) assms(3)
    free_chain_replay[OF assms(5) n, of E, folded evil_def]
  show ?thesis by simp
qed

text \<open>A line that the replay cannot read ends the process of the node that syncs.\<close>

lemma takeover_crash:
  assumes "chain_inv E (sh_chain (nd_shared nd))" "heights_count (chn_blocks (sh_chain (nd_shared nd)))"
    and "length (chn_blocks (sh_chain (nd_shared nd))) < 2 ^ (long_bits (platform E) - 1)"
    and "nd_peers nd = [p]"
    and "peer_answers E (free_chain E (length (chn_blocks (sh_chain (nd_shared nd)))) [''COINBASE||'']) st m (in_conns i)"
  shows "run_command E i InitNode nd = Crashed InvalidArgument"
proof -
  have "applyLine E ''COINBASE||'' state_empty = Inl InvalidArgument"
    by (simp add: applyLine_def starts_with_def applyCoinbaseLocked_def find_char_def substr_def substr_from_def
        stoull_def strtou_def scan_int_def scan_sign_def skip_0x_def digits_value_def Let_def)
  with takeover[OF assms(1-4) _ assms(5)] show ?thesis by (simp add: lines_wire_ok_def of_res_def)
qed

subsection \<open>Properties\<close>

text \<open>
  C10: A chain that cost nothing replaces any other. Whatever blocks and balances a node with one peer
  holds and however hard its blocks were to mine, that peer, if it serves one more block than the node has, all
  of difficulty zero and nonce zero, as the code itself builds them without mining, takes the
  node over when it syncs: its chain becomes the peer's, its difficulty zero, the address the
  peer has chosen has the amount it has chosen, and every other balance and every nonce is zero.
\<close>

theorem work_free_takeover:
  assumes "chain_inv E (sh_chain (nd_shared nd))" "heights_count (chn_blocks (sh_chain (nd_shared nd)))"
    and "length (chn_blocks (sh_chain (nd_shared nd))) < 2 ^ (long_bits (platform E) - 1)"
    and "nd_peers nd = [p]"
    and "CHR ''|'' \<notin> set addr" "CHR '','' \<notin> set addr" "CHR 0x0A \<notin> set addr"
    and "peer_answers E (free_chain E (length (chn_blocks (sh_chain (nd_shared nd)))) [coinbase_line addr amount]) st m cs"
  defines "evil \<equiv> free_chain E (length (chn_blocks (sh_chain (nd_shared nd)))) [coinbase_line addr amount]"
  shows "(\<forall>b \<in> set (chn_blocks evil). workless b)
    \<and> length (chn_blocks evil) = Suc (length (chn_blocks (sh_chain (nd_shared nd))))
    \<and> (\<exists>nd'. doInitNode E nd cs = Inr (Synced (chain_height evil), nd')
        \<and> chn_blocks (sh_chain (nd_shared nd')) = chn_blocks evil
        \<and> chn_difficulty (sh_chain (nd_shared nd')) = 0
        \<and> getBalance (sh_state (nd_shared nd')) = (\<lambda>a. if a = addr then amount else 0)
        \<and> getNonce (sh_state (nd_shared nd')) = (\<lambda>a. 0))"
proof -
  have l: "lines_wire_ok [coinbase_line addr amount]"
    using assms(5-7) by (auto simp: lines_wire_ok_def coinbase_line_def)
  have n: "0 < length (chn_blocks (sh_chain (nd_shared nd)))" using assms(1) by (simp add: chain_inv_def)
  have "applyLine E (coinbase_line addr amount) state_empty = Inr (credit addr amount state_empty)"
    using assms(5) by (rule applyLine_coinbase)
  moreover have "getBalance (credit addr amount state_empty) = (\<lambda>a. if a = addr then amount else 0)"
    "getNonce (credit addr amount state_empty) = (\<lambda>a. 0)" by (auto simp: fun_eq_iff)
  ultimately show ?thesis
    using takeover[OF assms(1-4) l assms(8)] free_chain_ok(3,4)[OF l n, of E] unfolding evil_def by simp
qed

text \<open>The sample node, at difficulty three, loses its chain to a block that pays the peer.\<close>

theorem work_free_takeover_witness:
  "\<exists>cs nd'. doInitNode sample_env (remember_peer sample_peer sample_node) cs
      = Inr (Synced (chain_height (free_chain sample_env 1 [coinbase_line ''eve'' (2 ^ 63)])), nd')
    \<and> chn_difficulty (sh_chain (nd_shared sample_node)) = 3 \<and> chn_difficulty (sh_chain (nd_shared nd')) = 0
    \<and> getBalance (sh_state (nd_shared nd')) ''eve'' = 2 ^ 63"
proof -
  have f: "nd_peers (remember_peer sample_peer sample_node) = [sample_peer]"
    "sh_chain (nd_shared (remember_peer sample_peer sample_node)) = sample_chain"
    "sh_chain (nd_shared sample_node) = sample_chain"
    by (simp_all add: remember_peer_def sample_node_def sample_shared_def)
  have n: "length (chn_blocks sample_chain) = 1" "chn_difficulty sample_chain = 3"
    by (simp_all add: sample_chain_def)
  obtain cs where cs: "peer_answers sample_env (free_chain sample_env 1 [coinbase_line ''eve'' (2 ^ 63)]) state_empty mempool_empty cs"
    using peer_answers_exists by blast
  have len: "(1::nat) < 2 ^ (long_bits (platform sample_env) - 1)" by (cases "platform sample_env") simp_all
  note takeover = work_free_takeover[of sample_env "remember_peer sample_peer sample_node" sample_peer "''eve''" "2 ^ 63"
      state_empty mempool_empty cs, unfolded f n]
  obtain nd' where "doInitNode sample_env (remember_peer sample_peer sample_node) cs
      = Inr (Synced (chain_height (free_chain sample_env 1 [coinbase_line ''eve'' (2 ^ 63)])), nd')"
    "chn_difficulty (sh_chain (nd_shared nd')) = 0"
    "getBalance (sh_state (nd_shared nd')) = (\<lambda>a. if a = ''eve'' then 2 ^ 63 else 0)"
    using takeover[OF sample_chain_inv len refl _ _ _ cs] by auto
  then show ?thesis using f(3) n(2) by (intro exI[of _ cs] exI[of _ nd']) simp
qed

end
