(* ===== verification/Main_Program.thy ===== *)
theory Main_Program
  imports Node
begin

text \<open>
  The frame of \<^verbatim>\<open>main\<close> in \<^verbatim>\<open>src/node/main.cpp\<close>: the choice between the monitor and the node, the start-up
  of the node with what it prints, and the shutdown. What the system and OpenSSL return at
  start-up is one record; the genesis block has been mined, the wallet file is text.
\<close>

text \<open>\<^verbatim>\<open>getExePath\<close>: on Windows \<^verbatim>\<open>GetModuleFileNameA\<close> returns a length and fills a buffer of \<^verbatim>\<open>MAX_PATH\<close>.\<close>

definition getExePath :: "os \<Rightarrow> nat \<times> string \<Rightarrow> string option \<Rightarrow> string" where
  "getExePath sys modname argv0 =
     (if sys = Windows \<and> 0 < fst modname \<and> fst modname < 260 then take (fst modname) (snd modname)
      else (case argv0 of Some a \<Rightarrow> a | None \<Rightarrow> ''megabyte_node''))"

text \<open>The sub-mode test; \<open>argv\<close> is without the program's name. A port that is no number throws.\<close>

datatype mode = MonitorMode int | NodeMode

definition main_mode :: "string list \<Rightarrow> mode res" where
  "main_mode argv =
     (case argv of
        a # v # _ \<Rightarrow> (if a = ''--monitor'' then bind_res (stoi v) (\<lambda>p. Inr (MonitorMode p)) else Inr NodeMode)
      | _ \<Rightarrow> Inr NodeMode)"

record machine =
  mc_os :: os
  mc_wsa :: int
  mc_module :: "nat \<times> string"
  mc_argv0 :: "string option"
  mc_key :: bytes
  mc_canWrite :: bool
  mc_files :: files
  mc_statusListen :: int

text \<open>The process after start-up: the node and what is around it.\<close>

record process =
  pr_node :: node
  pr_os :: os
  pr_exePath :: string
  pr_files :: files
  pr_statusPort :: int
  pr_statusServer :: status_server

datatype start = Monitoring int | NoNetwork | Started process

definition wallet_text :: "bool \<Rightarrow> wallet \<Rightarrow> string" where
  "wallet_text existed w =
     (if \<not> existed
      then ''No wallet found '' @
        [CHR 0xC3, CHR 0xA2, CHR 0xE2, CHR 0x82, CHR 0xAC, CHR 0xE2, CHR 0x80, CHR 0x9D] @
        '' created a new one.'' @ newline
      else ''Loaded existing wallet.'' @ newline) @
     ''Wallet address: '' @ wal_address w @ ''  (WARNING: wallet.dat is unencrypted, prototype-only)'' @
     newline @ newline"

definition greeting :: string where
  "greeting = ''MegaByte prototype node (TUI)'' @ newline @
     ''Genesis mined. Type '' @ [CHR 0x27] @ ''help'' @ [CHR 0x27] @ '' for commands.'' @ newline @ newline"

text \<open>
  \<^verbatim>\<open>main\<close> up to the command loop. The result of starting the status server is not looked at. The
  failure of the network is reported on the error stream.
\<close>

definition main_start :: "env \<Rightarrow> machine \<Rightarrow> string list \<Rightarrow> chain \<Rightarrow> (start \<times> string) res" where
  "main_start E mc argv ch =
     bind_res (main_mode argv) (\<lambda>mode.
       case mode of
         MonitorMode p \<Rightarrow> Inr (Monitoring p, [])
       | NodeMode \<Rightarrow>
           if \<not> initSockets (mc_os mc) (mc_wsa mc)
           then Inr (NoNetwork, ''Failed to initialize networking.'' @ newline)
           else
             bind_res (port_args argv 7777) (\<lambda>p2pPort.
             bind_res (wallet_startup E (mc_key mc) (mc_canWrite mc) (mc_files mc)) (\<lambda>(w, fs).
             bind_res (node_start argv ch w) (\<lambda>nd.
               Inr (Started \<lparr>pr_node = nd, pr_os = mc_os mc,
                      pr_exePath = getExePath (mc_os mc) (mc_module mc) (mc_argv0 mc),
                      pr_files = fs, pr_statusPort = p2pPort + 1,
                      pr_statusServer = snd (status_server_start (mc_statusListen mc) (p2pPort + 1) status_server_new)\<rparr>,
                    wallet_text (wallet_exists ''wallet.dat'' (mc_files mc)) w @ greeting)))))"

text \<open>The end of \<^verbatim>\<open>main\<close>.\<close>

definition main_shutdown :: "process \<Rightarrow> process \<times> string" where
  "main_shutdown pr =
     (pr\<lparr>pr_node := node_shutdown (pr_node pr), pr_statusServer := status_server_stop (pr_statusServer pr)\<rparr>,
      ''Shutting down.'' @ newline)"

subsection \<open>The two processes\<close>

text \<open>The arguments that \<^verbatim>\<open>launchMonitorWindow\<close> passes put the new process in the monitor mode on that port.\<close>

lemma main_mode_monitor:
  assumes "- (2 ^ 31) \<le> p" "p < 2 ^ 31" "solid exe"
  shows "main_mode (tl (stream_tokens (exe @ monitor_args p))) = Inr (MonitorMode p)"
proof -
  have eq: "exe @ monitor_args p = join_with (CHR '' '') [exe, ''--monitor'', show_int p]"
    by (simp add: monitor_args_def)
  have "stream_tokens (exe @ monitor_args p) = [exe, ''--monitor'', show_int p]"
    unfolding eq using assms(3) by (intro stream_tokens_join) (simp add: solid_word is_space_def)
  then show ?thesis using stoi_show_int[OF assms(1,2)] by (simp add: main_mode_def)
qed

lemma main_mode_node: "argv = [] \<or> hd argv \<noteq> ''--monitor'' \<Longrightarrow> main_mode argv = Inr NodeMode"
  by (auto simp: main_mode_def split: list.splits)

text \<open>The port after the largest one wraps: \<^verbatim>\<open>--port 65535\<close> asks for a status server on port zero.\<close>

lemma status_port_wraps: "sin_port (65535 + 1) = 0"
  by (simp add: sin_port_def)

lemma main_start_node:
  assumes "main_start E mc argv ch = Inr (Started pr, out)"
  obtains p w fs where "port_args argv 7777 = Inr p"
    "wallet_startup E (mc_key mc) (mc_canWrite mc) (mc_files mc) = Inr (w, fs)"
    "node_start argv ch w = Inr (pr_node pr)" "pr_files pr = fs" "pr_statusPort pr = p + 1"
    "out = wallet_text (wallet_exists ''wallet.dat'' (mc_files mc)) w @ greeting" "nd_wallet (pr_node pr) = w"
proof -
  obtain p w fs nd where "port_args argv 7777 = Inr p"
    "wallet_startup E (mc_key mc) (mc_canWrite mc) (mc_files mc) = Inr (w, fs)" "node_start argv ch w = Inr nd"
    "pr_node pr = nd" "pr_files pr = fs" "pr_statusPort pr = p + 1"
    "out = wallet_text (wallet_exists ''wallet.dat'' (mc_files mc)) w @ greeting"
  proof -
    obtain m where m: "main_mode argv = Inr m" using assms by (auto simp: main_start_def bind_res_Inr_iff)
    show thesis using assms that
      by (cases m) (auto simp: main_start_def m bind_res_Inr_iff split: if_splits)
  qed
  moreover have "nd_wallet nd = w" using calculation(3) by (auto simp: node_start_def bind_res_Inr_iff)
  ultimately show thesis by (intro that) simp_all
qed

lemma node_start_total: "port_args argv 7777 = Inr p \<Longrightarrow> \<exists>nd. node_start argv ch w = Inr nd"
  by (simp add: node_start_def)

subsection \<open>Properties\<close>

definition sample_machine :: "files \<Rightarrow> machine" where
  "sample_machine fs = \<lparr>mc_os = Posix, mc_wsa = 0, mc_module = (0, []), mc_argv0 = Some ''./megabyte_node'',
     mc_key = sample_key, mc_canWrite = True, mc_files = fs, mc_statusListen = 4\<rparr>"

text \<open>
  C38: Restarting a node keeps its wallet. When a node has started in a directory without a wallet file
  that it could write to, every later start as a node, with whatever arguments, on whatever
  system, whatever key the generator would draw and whether or not the directory is still
  writable, has the same wallet, leaves the files alone, and says so.
\<close>

theorem node_restart:
  assumes "main_start E mc argv ch = Inr (Started pr, out)"
    and "mc_files mc ''wallet.dat'' = None" "mc_canWrite mc" "length (mc_key mc) = 32"
    and "main_mode argv' = Inr NodeMode" "port_args argv' 7777 = Inr p"
    and "initSockets (mc_os mc') (mc_wsa mc')" "mc_files mc' = pr_files pr"
  shows "\<exists>pr'. main_start E mc' argv' ch' = Inr (Started pr', wallet_text True (nd_wallet (pr_node pr)) @ greeting)
    \<and> nd_wallet (pr_node pr') = nd_wallet (pr_node pr) \<and> wallet_ok E (nd_wallet (pr_node pr))
    \<and> pr_files pr' = pr_files pr"
proof -
  obtain w fs where w: "wallet_startup E (mc_key mc) True (mc_files mc) = Inr (w, fs)"
    "pr_files pr = fs" "nd_wallet (pr_node pr) = w"
    using main_start_node[OF assms(1)] assms(3) by metis
  have again: "wallet_startup E (mc_key mc') (mc_canWrite mc') fs = Inr (w, fs)" and ok: "wallet_ok E w"
    using startup_idempotent[OF assms(4,2) w(1)] by simp_all
  have ex: "wallet_exists ''wallet.dat'' fs"
    using w(1) assms(2) by (auto simp: wallet_startup_def wallet_exists_def wallet_save_def)
  obtain nd where nd: "node_start argv' ch' w = Inr nd" using node_start_total[OF assms(6)] by blast
  moreover have "nd_wallet nd = w" using nd by (auto simp: node_start_def bind_res_Inr_iff)
  ultimately show ?thesis
    using again ok ex w(2,3) assms(5-8) by (simp add: main_start_def)
qed

theorem node_restart_witness:
  "\<exists>pr out pr'. main_start sample_env (sample_machine Map.empty) [] sample_chain = Inr (Started pr, out)
    \<and> main_start sample_env (sample_machine (pr_files pr)) [''--port'', ''9000''] sample_chain
        = Inr (Started pr', wallet_text True sample_wallet @ greeting)
    \<and> nd_wallet (pr_node pr') = sample_wallet"
proof -
  have "wallet_startup sample_env sample_key True Map.empty
      = Inr (sample_wallet, snd (wallet_save True ''wallet.dat'' sample_wallet Map.empty))"
    by (simp add: wallet_startup_def wallet_exists_def sample_wallet_def)
  then obtain pr out where pr: "main_start sample_env (sample_machine Map.empty) [] sample_chain = Inr (Started pr, out)"
    "nd_wallet (pr_node pr) = sample_wallet"
    by (simp add: main_start_def main_mode_def sample_machine_def initSockets_def node_start_def)
  have p: "port_args [''--port'', ''9000''] 7777 = Inr 9000"
    by (simp add: stoi_def strtos_def scan_int_def scan_sign_def skip_0x_def is_space_def is_digit_def
        digit_val_def digits_value_def Let_def)
  have m: "main_mode [''--port'', ''9000''] = Inr NodeMode" by (rule main_mode_node) simp
  have "\<exists>pr'. main_start sample_env (sample_machine (pr_files pr)) [''--port'', ''9000''] sample_chain
        = Inr (Started pr', wallet_text True (nd_wallet (pr_node pr)) @ greeting)
      \<and> nd_wallet (pr_node pr') = nd_wallet (pr_node pr) \<and> wallet_ok sample_env (nd_wallet (pr_node pr))
      \<and> pr_files pr' = pr_files pr"
    by (rule node_restart[OF pr(1) _ _ _ m p]) (simp_all add: sample_machine_def initSockets_def sample_key_def)
  with pr show ?thesis by auto
qed

end
