(* ===== verification/Console.thy ===== *)
theory Console
  imports Command_Loop Main_Program
begin

text \<open>
  What the commands of \<^verbatim>\<open>src/node/main.cpp\<close> print. Each text is built from the same values as the
  command's effect: a text function takes the node before the command and what the command's
  handler reports. The last part is the session: the commands, the other threads and the
  requests of peers, with everything written to the console in order.
\<close>

subsection \<open>Peers\<close>

definition announce_text :: "string \<Rightarrow> peer_address list \<Rightarrow> bool list \<Rightarrow> string" where
  "announce_text address peers oks =
     (if peers = [] then []
      else ''Announcing wallet '' @ address @ '' to '' @ show_nat (length peers) @ '' peer(s)...'' @ newline @
        concat (map (\<lambda>(p, ok). ''  '' @ peer_toString p @ (if ok then '' acked'' else '' unreachable'') @ newline)
          (zip peers oks)))"

text \<open>The heights that the loop of \<^verbatim>\<open>doInitNode\<close> finds, in the order of the peers.\<close>

fun peer_heights :: "data_model \<Rightarrow> peer_address list \<Rightarrow> conns \<Rightarrow> int list \<times> conns" where
  "peer_heights dm [] cs = ([], cs)"
| "peer_heights dm (p # ps) cs =
     (case next_conn cs of (c, cs') \<Rightarrow>
        (case peer_heights dm ps cs' of (hs, cs'') \<Rightarrow> (fst (queryHeight dm c) # hs, cs'')))"

definition heights_text :: "peer_address list \<Rightarrow> int list \<Rightarrow> string" where
  "heights_text peers hs =
     concat (map (\<lambda>(p, h). ''  '' @ peer_toString p @ '' -> height '' @
         (if h < 0 then ''unreachable'' else show_int h) @ newline) (zip peers hs))"

definition sync_text :: "node \<Rightarrow> sync_report \<Rightarrow> string" where
  "sync_text nd r =
     (case r of
        NoKnownPeers \<Rightarrow> ''No known peers. Use set-peer <host:port> or join-net <host:port> first.'' @ newline
      | NoReachablePeers \<Rightarrow> ''No reachable peers.'' @ newline
      | AlreadyAsTall \<Rightarrow> ''Local chain already at least as tall ('' @
          show_u64 (chain_height (sh_chain (nd_shared nd))) @ ''). Nothing to do.'' @ newline
      | Synced h \<Rightarrow> ''Synced. New height: '' @ show_u64 h @ newline
      | KeptLocal \<Rightarrow> ''Peer'' @ [CHR 0x27] @ ''s chain was not longer/valid '' @
          [CHR 0xC3, CHR 0xA2, CHR 0xE2, CHR 0x82, CHR 0xAC, CHR 0xE2, CHR 0x80, CHR 0x9D] @
          '' kept local chain.'' @ newline)"

text \<open>
  \<^verbatim>\<open>doInitNode\<close>: the announcements, the heights, the transfer if there is one, and the result;
  an exception of the transfer or of the replay ends the text after the line that announces it.
\<close>

definition init_node_text :: "env \<Rightarrow> node \<Rightarrow> conns \<Rightarrow> string" where
  "init_node_text E nd cs =
     (case announceToAllPeers (wal_address (nd_wallet nd)) (nd_peers nd) cs of (oks, cs1) \<Rightarrow>
        announce_text (wal_address (nd_wallet nd)) (nd_peers nd) oks @
        heights_text (nd_peers nd) (fst (peer_heights (platform E) (nd_peers nd) cs1)) @
        (case query_peers (platform E) (nd_peers nd) cs1 (- 1) None of (bestHeight, bestPeer, _) \<Rightarrow>
           (case bestPeer of
              None \<Rightarrow> []
            | Some p \<Rightarrow>
                if bestHeight < 0 \<or> word_of_int bestHeight \<le> chain_height (sh_chain (nd_shared nd)) then []
                else ''Fetching chain from '' @ peer_toString p @ ''...'' @ newline)) @
        (case doInitNode E nd cs of Inl _ \<Rightarrow> [] | Inr (r, _) \<Rightarrow> sync_text nd r))"

definition set_peer_text :: "string \<Rightarrow> string" where
  "set_peer_text addrStr =
     (case parsePeerAddress addrStr of
        None \<Rightarrow> ''Usage: set-peer <host:port>'' @ newline
      | Some a \<Rightarrow> ''Added peer '' @ peer_toString a @ newline)"

definition peers_text :: "node \<Rightarrow> string" where
  "peers_text nd =
     (if nd_peers nd = [] then ''(no known peers)'' @ newline else []) @
     concat (map (\<lambda>p. ''  '' @ peer_toString p @ newline) (nd_peers nd))"

text \<open>\<^verbatim>\<open>ensureListening\<close>: it prints only when the node was not listening.\<close>

definition listening_text :: "int \<Rightarrow> node \<Rightarrow> string" where
  "listening_text listening nd =
     (if nd_listening nd then []
      else if nd_listening (ensureListening listening nd)
      then ''Listening for peers on port '' @ show_int (nd_p2pPort nd) @ newline
      else ''Failed to start P2P listener (port in use?)'' @ newline)"

definition join_text :: "env \<Rightarrow> string \<Rightarrow> conns \<Rightarrow> int \<Rightarrow> node \<Rightarrow> string" where
  "join_text E addrStr cs listening nd =
     (case parsePeerAddress addrStr of
        None \<Rightarrow> ''Usage: join-net <host:port>'' @ newline
      | Some a \<Rightarrow>
          (case fst (cmd_join_net E addrStr cs listening nd) of
             Joined h \<Rightarrow> ''Connected. Peer height: '' @ show_int h @ newline @ listening_text listening nd @
               ''Announced wallet '' @ wal_address (nd_wallet nd) @ '' to '' @ peer_toString a @ newline
           | _ \<Rightarrow> ''Could not reach '' @ peer_toString a @ newline))"

definition listen_text :: "int \<Rightarrow> int \<Rightarrow> node \<Rightarrow> string" where
  "listen_text port listening nd =
     (if nd_listening nd then ''Already listening on port '' @ show_int (ps_port (nd_server nd)) @ newline
      else if fst (cmd_listen port listening nd) then ''Listening on port '' @ show_int port @ newline
      else ''Failed to listen on port '' @ show_int port @ newline)"

subsection \<open>Transactions, the wallet and the state\<close>

definition broadcast_text :: "peer_address list \<Rightarrow> bool list \<Rightarrow> string" where
  "broadcast_text peers oks =
     concat (map (\<lambda>(p, ok). ''  -> '' @ peer_toString p @
         (if ok then '' accepted'' else '' rejected/unreachable'') @ newline) (zip peers oks))"

definition send_text :: "node \<Rightarrow> submit_report \<Rightarrow> string" where
  "send_text nd r =
     (case r of
        Usage \<Rightarrow> ''Usage: send <address> <amount>'' @ newline
      | Rejected err \<Rightarrow> ''Rejected locally: '' @ err @ newline
      | Submitted tx oks \<Rightarrow>
          ''Signed tx: '' @ substr (tx_sender tx) 0 12 @ ''... -> '' @ substr (tx_receiver tx) 0 12 @
          ''... amount='' @ show_u64 (tx_amount tx) @ newline @
          ''Added to local mempool (will be mined into a block by any miner, including this node).'' @ newline @
          broadcast_text (nd_peers nd) oks)"

definition register_text :: "node \<Rightarrow> submit_report \<Rightarrow> string" where
  "register_text nd r =
     (case r of
        Usage \<Rightarrow> ''Usage: register-username <name>'' @ newline
      | Rejected err \<Rightarrow> ''Rejected locally: '' @ err @ newline
      | Submitted tx oks \<Rightarrow>
          ''Registration submitted to local mempool (will be mined into a block).'' @ newline @
          broadcast_text (nd_peers nd) oks)"

text \<open>A handler that throws has printed nothing.\<close>

definition report_text :: "('r \<Rightarrow> string) \<Rightarrow> ('r \<times> node) res \<Rightarrow> string" where
  "report_text f r = (case r of Inl _ \<Rightarrow> [] | Inr (rep, _) \<Rightarrow> f rep)"

definition show_wallet_text :: "node \<Rightarrow> string" where
  "show_wallet_text nd =
     (let addr = wal_address (nd_wallet nd); st = sh_state (nd_shared nd); uname = usernameOf st addr
      in ''Address:    '' @ addr @ newline @ ''Public key: '' @ publicKeyHex (nd_wallet nd) @ newline @
         (if uname \<noteq> [] then ''Username:   '' @ uname @ newline else []) @
         ''Balance:    '' @ show_u64 (getBalance st addr) @ newline)"

definition balance_text :: "string \<Rightarrow> node \<Rightarrow> string" where
  "balance_text arg nd =
     (let addr = (if arg = [] then wal_address (nd_wallet nd) else arg)
      in addr @ '' -> '' @ show_u64 (getBalance (sh_state (nd_shared nd)) addr) @ newline)"

definition whois_text :: "string \<Rightarrow> node \<Rightarrow> string" where
  "whois_text username nd =
     (case resolveUsername (sh_state (nd_shared nd)) username of
        Some addr \<Rightarrow> username @ '' -> '' @ addr @ newline
      | None \<Rightarrow> ''No such username (locally known state only).'' @ newline)"

definition mempool_text :: "node \<Rightarrow> string" where
  "mempool_text nd =
     show_nat (mempool_size (sh_mempool (nd_shared nd))) @ '' pending transaction(s) in local mempool.'' @ newline"

subsection \<open>Mining and the chain\<close>

text \<open>The announcements come first; the rest only when the old workers have been joined.\<close>

definition mine_text :: "int \<Rightarrow> conns \<Rightarrow> node \<Rightarrow> string" where
  "mine_text threads cs nd =
     announce_text (wal_address (nd_wallet nd)) (nd_peers nd)
       (fst (announceToAllPeers (wal_address (nd_wallet nd)) (nd_peers nd) cs)) @
     (if joined nd
      then ''Mining started with '' @ show_int (if threads < 1 then 1 else threads) @
        '' thread(s). Try '' @ [CHR 0x27] @ ''monitor'' @ [CHR 0x27] @ '' or '' @
        [CHR 0x27] @ ''status'' @ [CHR 0x27] @ ''.'' @ newline
      else [])"

definition monitor_text :: "bool \<Rightarrow> string" where
  "monitor_text ok =
     (if ok then ''Monitor window launched.'' @ newline
      else ''Could not launch monitor window on this platform.'' @ newline)"

definition add_text :: "(block \<times> node) option \<Rightarrow> string" where
  "add_text r =
     ''Mining single block synchronously...'' @ newline @
     (case r of
        None \<Rightarrow> []
      | Some (b, _) \<Rightarrow>
          ''Mined block #'' @ show_u64 (blk_height b) @ '' nonce='' @ show_u64 (blk_nonce b) @ newline)"

definition validate_text :: "env \<Rightarrow> node \<Rightarrow> string" where
  "validate_text E nd =
     (if isValid E (sh_chain (nd_shared nd)) then ''Chain is valid.'' @ newline else ''Chain is INVALID.'' @ newline)"

definition difficulty_text :: "u32 option \<Rightarrow> string" where
  "difficulty_text d =
     (case d of
        Some d \<Rightarrow> ''Difficulty set to '' @ show_u32 d @ newline
      | None \<Rightarrow> ''Usage: difficulty <n>'' @ newline)"

definition help_text :: string where
  "help_text = concat (map (\<lambda>l. l @ newline)
    [''  wallet                show this node'' @ [CHR 0x27] @ ''s address/pubkey/username/balance'',
     ''  balance [addr]        show balance (defaults to own wallet)'',
     ''  send <addr> <amount>  sign + mempool + broadcast a transaction'',
     ''  register-username <n> claim a username for this wallet'',
     ''  whois <username>      resolve a username to an address (local state)'',
     ''  mempool               show pending transaction count'',
     ''  init-node             download tallest chain from known peers'',
     ''  set-peer <host:port>  remember a peer'',
     ''  peers                 list known peers'',
     ''  join-net <host:port>  connect + remember peer, start listening'',
     ''  listen [port]         start accepting inbound peers (default 7777)'',
     ''  sync                  re-run init-node'',
     ''  mine -threads <n>     start mining with n threads'',
     ''  stop-mining           stop mining'',
     ''  monitor               open live dashboard in a new window'',
     ''  status                print current stats here'',
     ''  add <text>            synchronous single-block mine+append'',
     ''  print | validate | height | difficulty <n> | exit''])"

subsection \<open>The text of a command\<close>

text \<open>\<open>rc\<close> is what starting the monitor's process returns.\<close>

fun command_text :: "env \<Rightarrow> process \<Rightarrow> inputs \<Rightarrow> int \<Rightarrow> command \<Rightarrow> string" where
  "command_text E pr i rc Exit = (if joined (pr_node pr) then snd (main_shutdown pr) else [])"
| "command_text E pr i rc Help = help_text"
| "command_text E pr i rc (SetPeer a) = set_peer_text a"
| "command_text E pr i rc Peers = peers_text (pr_node pr)"
| "command_text E pr i rc (JoinNet a) = join_text E a (in_conns i) (in_listening i) (pr_node pr)"
| "command_text E pr i rc (Listen p) =
     listen_text (read_i32 (nd_p2pPort (pr_node pr)) p) (in_listening i) (pr_node pr)"
| "command_text E pr i rc InitNode = init_node_text E (pr_node pr) (in_conns i)"
| "command_text E pr i rc (Mine threads) = mine_text threads (in_conns i) (pr_node pr)"
| "command_text E pr i rc StopMining = (if joined (pr_node pr) then ''Mining stopped.'' @ newline else [])"
| "command_text E pr i rc Monitor =
     monitor_text (fst (launchMonitorWindow (pr_os pr) (pr_exePath pr) (pr_statusPort pr) rc))"
| "command_text E pr i rc ShowStatus = snapshot (sh_status (nd_shared (pr_node pr))) @ newline"
| "command_text E pr i rc ShowWallet = show_wallet_text (pr_node pr)"
| "command_text E pr i rc (Balance a) = balance_text a (pr_node pr)"
| "command_text E pr i rc (RegisterUsername u) =
     report_text (register_text (pr_node pr)) (cmd_register_username E (in_clock i 0) u (in_conns i) (pr_node pr))"
| "command_text E pr i rc (Whois u) = whois_text u (pr_node pr)"
| "command_text E pr i rc ShowMempool = mempool_text (pr_node pr)"
| "command_text E pr i rc (Send a n) =
     report_text (send_text (pr_node pr)) (cmd_send E (in_clock i 0) a n (in_conns i) (pr_node pr))"
| "command_text E pr i rc (Add rest) = add_text (cmd_add E (in_clock i) (\<lambda>_ d. d) rest (pr_node pr))"
| "command_text E pr i rc Print = chain_print E (sh_chain (nd_shared (pr_node pr)))"
| "command_text E pr i rc Validate = validate_text E (pr_node pr)"
| "command_text E pr i rc Height =
     ''Height: '' @ show_u64 (chain_height (sh_chain (nd_shared (pr_node pr)))) @ newline"
| "command_text E pr i rc (Difficulty d) = difficulty_text d"
| "command_text E pr i rc Unknown = ''Unknown command. Type '' @ [CHR 0x27] @ ''help'' @ [CHR 0x27] @ ''.'' @ newline"
| "command_text E pr i rc Nothing = []"

end
