(* ===== verification/Status_History.thy ===== *)
theory Status_History
  imports Node_Theorems
begin

text \<open>
  What the published height and difficulty mean. A worker loads each of them from the chain and
  stores it later, and another thread may move the chain and publish in between; the counters
  therefore tell what the chain was at some moment of the node's history, and without mining
  what it is. The last part is a run of two workers that leaves an old height published while
  nobody is about to publish another.
\<close>

subsection \<open>Counters that come from the history\<close>

definition height_of :: "node \<Rightarrow> u64" where
  "height_of nd = chain_height (sh_chain (nd_shared nd))"

definition difficulty_of :: "node \<Rightarrow> u32" where
  "difficulty_of nd = chn_difficulty (sh_chain (nd_shared nd))"

text \<open>A worker holds a value it has loaded and not yet stored.\<close>

fun loaded_from :: "u64 set \<Rightarrow> u32 set \<Rightarrow> pc \<Rightarrow> bool" where
  "loaded_from H D (StoreHeight h) \<longleftrightarrow> h \<in> H"
| "loaded_from H D (StoreDifficulty d) \<longleftrightarrow> d \<in> D"
| "loaded_from H D _ \<longleftrightarrow> True"

definition shown_from :: "u64 set \<Rightarrow> u32 set \<Rightarrow> pc list \<Rightarrow> shared \<Rightarrow> bool" where
  "shown_from H D pcs s \<longleftrightarrow> ns_height (sh_status s) \<in> H \<and> ns_difficulty (sh_status s) \<in> D
     \<and> (\<forall>p \<in> set pcs. loaded_from H D p)"

definition node_shows :: "node list \<Rightarrow> node \<Rightarrow> bool" where
  "node_shows past nd \<longleftrightarrow> shown_from (height_of ` set past) (difficulty_of ` set past) (nd_workers nd) (nd_shared nd)"

lemma loaded_mono: "loaded_from H D p \<Longrightarrow> H \<subseteq> H' \<Longrightarrow> D \<subseteq> D' \<Longrightarrow> loaded_from H' D' p"
  by (cases p) auto

lemma shown_mono:
  assumes "shown_from H D pcs s" "H \<subseteq> H'" "D \<subseteq> D'"
  shows "shown_from H' D' pcs s"
  using assms(1) loaded_mono[OF _ assms(2,3)] assms(2,3) by (auto simp: shown_from_def)

lemma shown_refresh:
  assumes "shown_from H D pcs s" "chain_height (sh_chain s') \<in> H" "chn_difficulty (sh_chain s') \<in> D"
  shows "shown_from H D pcs (refreshHeightStatus s')"
  using assms by (simp add: shown_from_def refreshHeightStatus_def)

text \<open>A step of a worker loads from the chain it finds.\<close>

lemma shown_worker:
  assumes "worker_step E now addr i (pcs ! i) s = Inr (p', s')" "i < length pcs"
    and "shown_from H D pcs s" "chain_height (sh_chain s) \<in> H" "chn_difficulty (sh_chain s) \<in> D"
  shows "shown_from H D (pcs[i := p']) s'"
proof -
  have p: "loaded_from H D (pcs ! i)" using assms(2,3) by (simp add: shown_from_def)
  have "loaded_from H D p' \<and> ns_height (sh_status s') \<in> H \<and> ns_difficulty (sh_status s') \<in> D"
    using assms(1,3-5) p
    by (cases "pcs ! i") (auto simp: shown_from_def bind_res_Inr_iff Let_def split: prod.splits if_splits)
  with assms(3) show ?thesis
    by (auto simp: shown_from_def dest!: set_update_subset_insert[THEN subsetD])
qed

lemma shown_mining:
  assumes "mining_step E addr (pcs, s) (pcs', s')" "shown_from H D pcs s"
    and "chain_height (sh_chain s) \<in> H" "chn_difficulty (sh_chain s) \<in> D" "chn_difficulty (sh_chain s') \<in> D"
  shows "shown_from H D pcs' s'"
  using assms(1)
proof (cases rule: mining_step.cases)
  case (worker i now pc')
  from shown_worker[OF worker(3,2) assms(2-4)] worker(1) show ?thesis by simp
qed (use assms(2,5) in \<open>auto simp: shown_from_def hashrate_turn_def miner_stop_request_def setDifficulty_def\<close>)

text \<open>A command keeps the workers' loads, or has joined the workers; what it publishes is the chain's.\<close>

lemma shown_command:
  assumes "run_command E i c nd = Continue nd'" "shown_from H D (nd_workers nd) (nd_shared nd)"
    and "height_of nd' \<in> H" "difficulty_of nd' \<in> D"
  shows "shown_from H D (nd_workers nd') (nd_shared nd')"
proof (cases c)
  case InitNode
  with assms(1) obtain r where "doInitNode E nd (in_conns i) = Inr (r, nd')"
    by (auto simp: of_res_def split: sum.splits)
  then show ?thesis
  proof (cases rule: doInitNode_cases)
    case (synced blocks st')
    with assms(2-4) show ?thesis by (auto simp: height_of_def difficulty_of_def intro!: shown_refresh)
  qed (use assms(2) in \<open>simp_all add: shown_from_def\<close>)
next
  case (Send a n)
  with assms(1,2) show ?thesis
    by (auto simp: of_res_def cmd_send_def submit_tx_def bind_res_Inr_iff shown_from_def Let_def split: sum.splits if_splits)
next
  case (RegisterUsername u)
  with assms(1,2) show ?thesis
    by (auto simp: of_res_def cmd_register_username_def submit_tx_def bind_res_Inr_iff shown_from_def Let_def
        split: sum.splits if_splits)
next
  case (Add rest)
  with assms(1) obtain b where "cmd_add E (in_clock i) (\<lambda>_ d. d) rest nd = Some (b, nd')"
    by (auto split: option.splits)
  with assms(2-4) show ?thesis
    by (auto simp: cmd_add_def Let_def height_of_def difficulty_of_def intro!: shown_refresh)
next
  case (Difficulty d)
  with assms show ?thesis
    by (auto simp: cmd_difficulty_def shown_from_def difficulty_of_def setDifficulty_def split: option.splits)
qed (use assms(1,2) in \<open>auto simp: shown_from_def cmd_set_peer_def cmd_join_net_def remember_peer_def ensureListening_def
      cmd_listen_def cmd_mine_def cmd_stop_mining_def miner_start_def miner_stop_done_def miner_stop_request_def Let_def
      split: option.splits if_splits prod.splits\<close>)

lemma shown_step:
  assumes "node_step E nd nd'" "node_shows past nd" "nd \<in> set past"
  shows "node_shows (nd' # past) nd'"
proof -
  let ?H = "height_of ` set (nd' # past)" and ?D = "difficulty_of ` set (nd' # past)"
  have old: "shown_from ?H ?D (nd_workers nd) (nd_shared nd)"
    using assms(2) unfolding node_shows_def by (rule shown_mono) auto
  have mem: "height_of nd \<in> ?H" "difficulty_of nd \<in> ?D" "height_of nd' \<in> ?H" "difficulty_of nd' \<in> ?D"
    using assms(3) by auto
  from assms(1) show ?thesis
  proof cases
    case (command i line)
    from shown_command[OF this old mem(3,4)] show ?thesis unfolding node_shows_def .
  next
    case (threads pcs s)
    from shown_mining[OF threads(2) old] mem threads(1)
    show ?thesis unfolding node_shows_def by (simp add: height_of_def difficulty_of_def)
  qed
qed

lemma shown_start: "node_init E nd \<Longrightarrow> node_shows [nd] nd"
  by (auto simp: node_init_def node_start_def bind_res_Inr_iff node_shows_def shown_from_def
      height_of_def difficulty_of_def)

subsection \<open>Without workers\<close>

definition shows_exactly :: "node \<Rightarrow> bool" where
  "shows_exactly nd \<longleftrightarrow> ns_height (sh_status (nd_shared nd)) = height_of nd
     \<and> ns_difficulty (sh_status (nd_shared nd)) = difficulty_of nd"

lemma exact_start: "node_init E nd \<Longrightarrow> shows_exactly nd"
  using shown_start[of E nd] by (simp add: shows_exactly_def node_shows_def shown_from_def)

lemma exact_command:
  assumes "run_command E i c nd = Continue nd'" "shows_exactly nd"
  shows "shows_exactly nd'"
proof (cases c)
  case InitNode
  with assms(1) obtain r where "doInitNode E nd (in_conns i) = Inr (r, nd')"
    by (auto simp: of_res_def split: sum.splits)
  then show ?thesis
  proof (cases rule: doInitNode_cases)
    case (kept_local blocks)
    then have "snd (replaceIfLongerAndValid E blocks (sh_chain (nd_shared nd))) = sh_chain (nd_shared nd)"
      by (auto simp: replaceIfLongerAndValid_def split: if_splits)
    with kept_local assms(2) show ?thesis by simp
  qed (use assms(2) in \<open>simp_all add: shows_exactly_def height_of_def difficulty_of_def refreshHeightStatus_def\<close>)
next
  case (Send a n)
  with assms show ?thesis
    by (auto simp: of_res_def cmd_send_def submit_tx_def bind_res_Inr_iff shows_exactly_def height_of_def
        difficulty_of_def Let_def split: sum.splits if_splits)
next
  case (RegisterUsername u)
  with assms show ?thesis
    by (auto simp: of_res_def cmd_register_username_def submit_tx_def bind_res_Inr_iff shows_exactly_def height_of_def
        difficulty_of_def Let_def split: sum.splits if_splits)
next
  case (Add rest)
  with assms(1) obtain b where "cmd_add E (in_clock i) (\<lambda>_ d. d) rest nd = Some (b, nd')"
    by (auto split: option.splits)
  then show ?thesis
    by (auto simp: cmd_add_def Let_def shows_exactly_def height_of_def difficulty_of_def refreshHeightStatus_def)
qed (use assms in \<open>auto simp: shows_exactly_def height_of_def difficulty_of_def cmd_set_peer_def cmd_join_net_def
      remember_peer_def ensureListening_def cmd_listen_def cmd_mine_def cmd_stop_mining_def miner_start_def
      miner_stop_done_def miner_stop_request_def cmd_difficulty_def setDifficulty_def chain_height_def Let_def
      split: option.splits if_splits prod.splits\<close>)

lemma exact_step:
  assumes "node_step E nd nd'" "nd_workers nd = []" "shows_exactly nd"
  shows "shows_exactly nd'"
  using assms(1)
proof cases
  case (command i line)
  with assms(3) exact_command show ?thesis by blast
next
  case (threads pcs s)
  from threads(2) show ?thesis
    by (cases rule: mining_step.cases)
      (use threads(1) assms(2,3) in \<open>auto simp: shows_exactly_def height_of_def difficulty_of_def hashrate_turn_def
        miner_stop_request_def setDifficulty_def chain_height_def\<close>)
qed

subsection \<open>Histories\<close>

lemma history_shows:
  assumes "trace_from (node_init E) (node_step E) (nd # past)"
  shows "node_shows (nd # past) nd \<and> ((\<forall>old \<in> set past. nd_workers old = []) \<longrightarrow> shows_exactly nd)"
proof -
  have "node_shows nds (hd nds) \<and> ((\<forall>old \<in> set (tl nds). nd_workers old = []) \<longrightarrow> shows_exactly (hd nds))
      \<and> hd nds \<in> set nds" if "trace_from (node_init E) (node_step E) nds" for nds
    using that
  proof (induction rule: trace_from.induct)
    case (trace_init nd)
    with shown_start exact_start show ?case by auto
  next
    case (trace_step nd past nd')
    from shown_step[OF trace_step(2), of "nd # past"] exact_step[OF trace_step(2)] trace_step(3)
    show ?case by auto
  qed
  from this[OF assms] show ?thesis by simp
qed

subsection \<open>A height that stays behind\<close>

text \<open>
  The first worker has loaded the height and not stored it when the second appends, applies and
  publishes its block; the first then stores the old height, and no worker is about to publish.
\<close>

lemma status_goes_stale:
  assumes "links_to E (last (chn_blocks (sh_chain s))) b" "applyBlock E b (sh_state s) = Inr st'"
  shows "\<exists>s'. mining_run E addr ([PubHeight, Append b], s) ([OuterTest, OuterTest], s')
    \<and> chn_blocks (sh_chain s') = chn_blocks (sh_chain s) @ [b]
    \<and> chain_height (sh_chain s') = blk_height b
    \<and> ns_height (sh_status s') = chain_height (sh_chain s)"
proof -
  let ?h = "chain_height (sh_chain s)"
  let ?s1 = "s\<lparr>sh_chain := (sh_chain s)\<lparr>chn_blocks := chn_blocks (sh_chain s) @ [b]\<rparr>\<rparr>"
  let ?s2 = "?s1\<lparr>sh_state := st', sh_status := (sh_status ?s1)\<lparr>ns_height := chain_height (sh_chain ?s1),
        ns_difficulty := chn_difficulty (sh_chain ?s1)\<rparr>\<rparr>"
  let ?s3 = "?s2\<lparr>sh_status := (sh_status ?s2)\<lparr>ns_height := ?h\<rparr>\<rparr>"
  let ?s4 = "?s3\<lparr>sh_status := (sh_status ?s3)\<lparr>ns_difficulty := chn_difficulty (sh_chain ?s3)\<rparr>\<rparr>"
  have "mining_run E addr ([PubHeight, Append b], s) ([StoreHeight ?h, Append b], s)"
    using run_worker[of E 0 addr 0 PubHeight s "StoreHeight ?h" s "[PubHeight, Append b]"] by simp
  moreover have "mining_run E addr ([StoreHeight ?h, Append b], s) ([StoreHeight ?h, Apply b], ?s1)"
    using run_append[OF assms(1), of 1 "[StoreHeight ?h, Append b]" addr] by simp
  moreover have "mining_run E addr ([StoreHeight ?h, Apply b], ?s1) ([StoreHeight ?h, OuterTest], ?s2)"
    using run_apply[of E b ?s1 st' 1 "[StoreHeight ?h, Apply b]" addr] assms(2) by simp
  moreover have "mining_run E addr ([StoreHeight ?h, OuterTest], ?s2) ([PubDifficulty, OuterTest], ?s3)"
    using run_worker[of E 0 addr 0 "StoreHeight ?h" ?s2 PubDifficulty ?s3 "[StoreHeight ?h, OuterTest]"] by simp
  moreover have "mining_run E addr ([PubDifficulty, OuterTest], ?s3) ([StoreDifficulty (chn_difficulty (sh_chain ?s3)), OuterTest], ?s3)"
    using run_worker[of E 0 addr 0 PubDifficulty ?s3 _ ?s3 "[PubDifficulty, OuterTest]"] by simp
  moreover have "mining_run E addr ([StoreDifficulty (chn_difficulty (sh_chain ?s3)), OuterTest], ?s3) ([OuterTest, OuterTest], ?s4)"
    using run_worker[of E 0 addr 0 "StoreDifficulty (chn_difficulty (sh_chain ?s3))" ?s3 OuterTest ?s4
        "[StoreDifficulty (chn_difficulty (sh_chain ?s3)), OuterTest]"] by simp
  ultimately have "mining_run E addr ([PubHeight, Append b], s) ([OuterTest, OuterTest], ?s4)"
    by (meson rtranclp_trans)
  then show ?thesis by (intro exI[of _ ?s4]) (simp add: chain_height_def)
qed

end
