(* ===== verification/Console_Laws.thy ===== *)
theory Console_Laws
  imports Console Status_History
begin

text \<open>
  The whole process as a transition system with its console: commands with the text they print,
  steps of the mining threads, and requests of peers with the lines their handler prints. Every
  step of it is a step of the node, or leaves the node alone, so the node's invariant holds in
  every session; what the console says about the node is then true, where it shows the published
  counters true of some moment of the session.
\<close>

subsection \<open>Sessions\<close>

text \<open>The prompt is printed before a line is read; the handler of a peer's request prints it again.\<close>

inductive console_step :: "env \<Rightarrow> process \<times> string \<Rightarrow> process \<times> string \<Rightarrow> bool" for E :: env where
  command: "run_command E i (parse_command line) (pr_node pr) = Continue nd' \<Longrightarrow>
    console_step E (pr, out)
      (pr\<lparr>pr_node := nd'\<rparr>, out @ command_text E pr i rc (parse_command line) @ ''mbc> '')"
| threads: "mining_step E (wal_address (nd_wallet (pr_node pr))) (nd_workers (pr_node pr), nd_shared (pr_node pr)) (pcs, s) \<Longrightarrow>
    console_step E (pr, out) (pr\<lparr>pr_node := (pr_node pr)\<lparr>nd_workers := pcs, nd_shared := s\<rparr>\<rparr>, out)"
| peer: "nd_shared (pr_node pr) = s \<Longrightarrow> nd_listening (pr_node pr) \<Longrightarrow>
    handleClient E (sh_chain s) (sh_state s) c (sh_mempool s) = Inr (wire, console, m') \<Longrightarrow>
    console_step E (pr, out) (pr\<lparr>pr_node := (pr_node pr)\<lparr>nd_shared := s\<lparr>sh_mempool := m'\<rparr>\<rparr>\<rparr>, out @ console)"

definition console_init :: "env \<Rightarrow> process \<times> string \<Rightarrow> bool" where
  "console_init E po \<longleftrightarrow> (\<exists>mc argv now ch text. new_chain E now = Some ch
     \<and> main_start E mc argv ch = Inr (Started (fst po), text) \<and> snd po = text @ ''mbc> '')"

lemma console_init_node: "console_init E (pr, out) \<Longrightarrow> node_init E (pr_node pr)"
  by (auto simp: console_init_def node_init_def elim!: main_start_node)

lemma handleClient_mempool:
  assumes "handleClient E ch st c m = Inr (wire, console, m')"
  shows "m' = m \<or> (\<exists>tx err. mempool_add E st tx m = Inr (err, m'))"
  using assms
  by (auto simp: handleClient_def answer_def bind_res_Inr_iff Let_def split: if_splits option.splits)

text \<open>A step of the session is a step of the node.\<close>

lemma console_step_node:
  assumes "console_step E po po'"
  shows "node_step E (pr_node (fst po)) (pr_node (fst po')) \<or> pr_node (fst po') = pr_node (fst po)"
  using assms
proof cases
  case (command i line pr nd' out rc)
  from command(3) have "node_step E (pr_node pr) nd'" by (rule node_step.command)
  with command show ?thesis by simp
next
  case (threads pr pcs s out)
  from threads(3) have "node_step E (pr_node pr) ((pr_node pr)\<lparr>nd_workers := pcs, nd_shared := s\<rparr>)"
    by (rule node_step.threads)
  with threads show ?thesis by simp
next
  case (peer pr s c wire console m' out)
  from handleClient_mempool[OF peer(5)] show ?thesis
  proof
    assume "m' = sh_mempool s"
    with peer show ?thesis by simp
  next
    assume "\<exists>tx err. mempool_add E (sh_state s) tx (sh_mempool s) = Inr (err, m')"
    then obtain tx err where "mempool_add E (sh_state s) tx (sh_mempool s) = Inr (err, m')" by blast
    from mining_step.submit[OF this, of "wal_address (nd_wallet (pr_node pr))" "nd_workers (pr_node pr)"]
    have "node_step E (pr_node pr) ((pr_node pr)\<lparr>nd_workers := nd_workers (pr_node pr), nd_shared := s\<lparr>sh_mempool := m'\<rparr>\<rparr>)"
      using peer(3) by (intro node_step.threads) simp
    with peer show ?thesis by simp
  qed
qed

interpretation session_node: refining_system "console_init E" "console_step E" "node_init E" "node_step E" "\<lambda>po. pr_node (fst po)"
  for E
proof unfold_locales
  show "console_init E po \<Longrightarrow> node_init E (pr_node (fst po))" for po
    by (cases po) (auto intro: console_init_node)
  show "console_step E po po' \<Longrightarrow> (node_step E)\<^sup>*\<^sup>* (pr_node (fst po)) (pr_node (fst po'))" for po po'
    using console_step_node[of E po po'] by auto
qed

text \<open>The console's own invariant: it waits at a prompt.\<close>

definition at_prompt :: "string \<Rightarrow> bool" where
  "at_prompt out \<longleftrightarrow> (\<exists>out0. out = out0 @ ''mbc> '')"

definition console_inv :: "env \<Rightarrow> process \<times> string \<Rightarrow> bool" where
  "console_inv E po \<longleftrightarrow> node_inv E (pr_node (fst po)) \<and> at_prompt (snd po)"

lemma at_prompt_append [simp]: "at_prompt (x @ ''mbc> '')"
  by (auto simp: at_prompt_def)

lemma handleClient_console:
  assumes "handleClient E ch st c m = Inr (wire, console, m')"
  shows "console = [] \<or> at_prompt console"
  using assms
  by (auto simp: handleClient_def answer_def bind_res_Inr_iff Let_def at_prompt_def split: if_splits option.splits)

lemma console_step_prompt:
  assumes "console_step E po po'" "at_prompt (snd po)"
  shows "at_prompt (snd po')"
  using assms(1)
proof cases
  case (command i line pr nd' out rc)
  then show ?thesis using at_prompt_append[of "out @ command_text E pr i rc (parse_command line)"] by simp
next
  case (peer pr s c wire console m' out)
  with handleClient_console[OF peer(5)] assms(2) show ?thesis by (auto simp: at_prompt_def)
qed (use assms(2) in simp)

lemma console_step_inv: "console_step E po po' \<Longrightarrow> console_inv E po \<Longrightarrow> console_inv E po'"
  using console_step_node[of E po po'] console_step_prompt[of E po po'] nodes.inv_step
  by (auto simp: console_inv_def)

lemma console_init_inv: "console_init E po \<Longrightarrow> console_inv E po"
  using console_init_node nodes.inv_init
  by (cases po) (auto simp: console_inv_def console_init_def at_prompt_def)

interpretation sessions: invariant_system "console_init E" "console_step E" "console_inv E" for E
  by unfold_locales (auto intro: console_init_inv console_step_inv)

subsection \<open>What a session shows\<close>

text \<open>The nodes of a session, as a history in which some steps leave the node alone.\<close>

lemma session_trace:
  assumes "trace_from (console_init E) (console_step E) pos"
  shows "node_shows (map (\<lambda>po. pr_node (fst po)) pos) (pr_node (fst (hd pos)))
    \<and> ((\<forall>nd \<in> set (map (\<lambda>po. pr_node (fst po)) (tl pos)). nd_workers nd = []) \<longrightarrow> shows_exactly (pr_node (fst (hd pos))))
    \<and> hd pos \<in> set pos"
  using assms
proof (induction rule: trace_from.induct)
  case (trace_init po)
  have "node_init E (pr_node (fst po))" using console_init_node trace_init by (cases po) simp
  with shown_start exact_start show ?case by auto
next
  case (trace_step po past po')
  let ?past = "map (\<lambda>po. pr_node (fst po)) (po # past)" and ?nd = "pr_node (fst po)" and ?nd' = "pr_node (fst po')"
  have IH: "node_shows ?past ?nd" "(\<forall>nd \<in> set (map (\<lambda>po. pr_node (fst po)) past). nd_workers nd = []) \<longrightarrow> shows_exactly ?nd"
    using trace_step(3) by simp_all
  have "node_shows (?nd' # ?past) ?nd' \<and> (nd_workers ?nd = [] \<longrightarrow> shows_exactly ?nd \<longrightarrow> shows_exactly ?nd')"
    using console_step_node[OF trace_step(2)]
  proof
    assume "node_step E ?nd ?nd'"
    from shown_step[OF this IH(1)] exact_step[OF this] show ?thesis by simp
  next
    assume same: "?nd' = ?nd"
    with IH(1) show ?thesis unfolding node_shows_def same by (auto elim!: shown_mono)
  qed
  with IH(2) show ?case by auto
qed

lemma session_shows:
  assumes "trace_from (console_init E) (console_step E) ((pr, out) # past)"
  shows "(\<exists>(old, _) \<in> set ((pr, out) # past). ns_height (sh_status (nd_shared (pr_node pr))) = height_of (pr_node old))
    \<and> (\<exists>(old, _) \<in> set ((pr, out) # past). ns_difficulty (sh_status (nd_shared (pr_node pr))) = difficulty_of (pr_node old))
    \<and> ((\<forall>(old, _) \<in> set past. nd_workers (pr_node old) = []) \<longrightarrow> shows_exactly (pr_node pr))"
  using session_trace[OF assms] by (fastforce simp: node_shows_def shown_from_def)

subsection \<open>Refusals\<close>

definition refusal :: "string \<Rightarrow> bool" where
  "refusal t \<longleftrightarrow> starts_with t ''Usage: '' \<or> starts_with t ''Rejected locally: ''
     \<or> starts_with t ''Could not reach '' \<or> starts_with t ''Unknown command''"

lemma refusal_start: "refusal t \<Longrightarrow> take 3 t \<in> {''Usa'', ''Rej'', ''Cou'', ''Unk''}"
  by (auto simp: refusal_def starts_with_iff)

lemma submit_refused:
  assumes "submit_tx E tx cs nd = Inr (r, nd')" "\<forall>t oks. r \<noteq> Submitted t oks"
  shows "nd' = nd"
  using assms by (auto simp: submit_tx_def bind_res_Inr_iff Let_def elim!: mempool_add_cases split: if_splits)

lemma send_refused:
  assumes "of_res (cmd_send E now a n cs nd) = Continue nd'" "refusal (report_text (send_text nd) (cmd_send E now a n cs nd))"
  shows "nd' = nd"
proof -
  obtain r where r: "cmd_send E now a n cs nd = Inr (r, nd')"
    using assms(1) by (auto simp: of_res_def split: sum.splits prod.splits)
  show ?thesis
  proof (cases r)
    case (Submitted t oks)
    with r assms(2) show ?thesis by (auto dest!: refusal_start simp: report_text_def send_text_def)
  qed (use r in \<open>auto simp: cmd_send_def Let_def split: if_splits intro: submit_refused\<close>)
qed

lemma register_refused:
  assumes "of_res (cmd_register_username E now u cs nd) = Continue nd'"
    "refusal (report_text (register_text nd) (cmd_register_username E now u cs nd))"
  shows "nd' = nd"
proof -
  obtain r where r: "cmd_register_username E now u cs nd = Inr (r, nd')"
    using assms(1) by (auto simp: of_res_def split: sum.splits prod.splits)
  show ?thesis
  proof (cases r)
    case (Submitted t oks)
    with r assms(2) show ?thesis by (auto dest!: refusal_start simp: report_text_def register_text_def)
  qed (use r in \<open>auto simp: cmd_register_username_def Let_def split: if_splits intro: submit_refused\<close>)
qed

lemma join_refused:
  "refusal (join_text E a cs l nd) \<Longrightarrow> snd (cmd_join_net E a cs l nd) = nd"
  by (auto simp: join_text_def cmd_join_net_def Let_def dest!: refusal_start split: option.splits if_splits)

lemma init_node_refused:
  assumes "refusal (init_node_text E nd cs)" "doInitNode E nd cs = Inr (r, nd')"
  shows "nd' = nd"
proof (cases "nd_peers nd")
  case Nil
  with assms(2) show ?thesis by (simp add: doInitNode_def)
next
  case (Cons p ps)
  then have "\<exists>t. init_node_text E nd cs = ''Announcing wallet '' @ t"
    by (simp add: init_node_text_def announce_text_def split: prod.splits)
  with assms(1) show ?thesis by (auto dest!: refusal_start)
qed

lemma refusal_keeps:
  assumes "refusal (command_text E pr i rc c)" "run_command E i c (pr_node pr) = Continue nd'"
  shows "nd' = pr_node pr"
proof (cases c)
  case (SetPeer a)
  with assms show ?thesis
    by (auto simp: set_peer_text_def cmd_set_peer_def dest!: refusal_start split: option.splits)
next
  case (JoinNet a)
  with assms join_refused show ?thesis by simp
next
  case (Listen p)
  with assms(1) show ?thesis by (auto simp: listen_text_def dest!: refusal_start split: if_splits)
next
  case InitNode
  with assms init_node_refused show ?thesis by (auto simp: of_res_def split: sum.splits)
next
  case (Mine n)
  with assms show ?thesis
    by (auto simp: mine_text_def announce_text_def dest!: refusal_start split: if_splits)
next
  case StopMining
  with assms show ?thesis by (auto dest!: refusal_start split: if_splits)
next
  case (RegisterUsername u)
  with assms register_refused show ?thesis by simp
next
  case (Send a n)
  with assms send_refused show ?thesis by simp
next
  case (Add rest)
  with assms(1) show ?thesis by (auto simp: add_text_def dest!: refusal_start)
next
  case (Difficulty d)
  with assms show ?thesis
    by (auto simp: difficulty_text_def cmd_difficulty_def dest!: refusal_start split: option.splits)
qed (use assms in \<open>auto split: if_splits\<close>)

subsection \<open>The tallest peer\<close>

text \<open>The loop of \<^verbatim>\<open>doInitNode\<close> as a reference: the first peer whose height no other exceeds.\<close>

fun best_of :: "(peer_address \<times> int) list \<Rightarrow> int \<Rightarrow> peer_address option \<Rightarrow> int \<times> peer_address option" where
  "best_of [] b bp = (b, bp)"
| "best_of ((p, h) # phs) b bp = (if b < h then best_of phs h (Some p) else best_of phs b bp)"

lemma query_peers_best:
  "query_peers dm ps cs b bp =
     (case peer_heights dm ps cs of (hs, cs') \<Rightarrow> (case best_of (zip ps hs) b bp of (h, q) \<Rightarrow> (h, q, cs')))"
  by (induction dm ps cs b bp rule: query_peers.induct) (auto simp: Let_def split: prod.splits)

lemma peer_heights_length: "length (fst (peer_heights dm ps cs)) = length ps"
  by (induction dm ps cs rule: peer_heights.induct) (auto split: prod.splits)

lemma best_of_spec:
  "best_of phs b bp = (h, q) \<Longrightarrow>
     (q = bp \<and> h = b \<and> (\<forall>(p, k) \<in> set phs. k \<le> b))
   \<or> (\<exists>i < length phs. q = Some (fst (phs ! i)) \<and> h = snd (phs ! i) \<and> b < h
        \<and> (\<forall>(p, k) \<in> set phs. k \<le> h) \<and> (\<forall>j < i. snd (phs ! j) < h))"
proof (induction phs arbitrary: b bp)
  case (Cons ph phs)
  obtain p k where ph: "ph = (p, k)" by (cases ph)
  show ?case
  proof (cases "b < k")
    case True
    with Cons.prems ph have "best_of phs k (Some p) = (h, q)" by simp
    from Cons.IH[OF this] show ?thesis
    proof
      assume "q = Some p \<and> h = k \<and> (\<forall>(p, k') \<in> set phs. k' \<le> k)"
      with True ph show ?thesis by (intro disjI2 exI[of _ 0]) auto
    next
      assume "\<exists>i < length phs. q = Some (fst (phs ! i)) \<and> h = snd (phs ! i) \<and> k < h
        \<and> (\<forall>(p, k) \<in> set phs. k \<le> h) \<and> (\<forall>j < i. snd (phs ! j) < h)"
      then obtain i where i: "i < length phs" "q = Some (fst (phs ! i))" "h = snd (phs ! i)" "k < h"
        "\<forall>(p, k) \<in> set phs. k \<le> h" "\<forall>j < i. snd (phs ! j) < h" by blast
      then have "\<forall>j < Suc i. snd ((ph # phs) ! j) < h" using ph by (auto simp: less_Suc_eq_0_disj)
      with i True ph show ?thesis by (intro disjI2 exI[of _ "Suc i"]) auto
    qed
  next
    case False
    with Cons.prems ph have "best_of phs b bp = (h, q)" by simp
    from Cons.IH[OF this] show ?thesis
    proof
      assume "\<exists>i < length phs. q = Some (fst (phs ! i)) \<and> h = snd (phs ! i) \<and> b < h
        \<and> (\<forall>(p, k) \<in> set phs. k \<le> h) \<and> (\<forall>j < i. snd (phs ! j) < h)"
      then obtain i where i: "i < length phs" "q = Some (fst (phs ! i))" "h = snd (phs ! i)" "b < h"
        "\<forall>(p, k) \<in> set phs. k \<le> h" "\<forall>j < i. snd (phs ! j) < h" by blast
      moreover have "\<forall>j < Suc i. snd ((ph # phs) ! j) < h"
        using i ph False by (auto simp: less_Suc_eq_0_disj)
      ultimately show ?thesis using False ph by (intro disjI2 exI[of _ "Suc i"]) auto
    qed (use False ph in auto)
  qed
qed simp

subsection \<open>Properties\<close>

text \<open>
  C25: What a node prints about itself is true. In every session, whatever was typed, mined and sent
  by peers before: the console waits at its prompt, the node is one that the commands and threads
  reach, \<^verbatim>\<open>validate\<close> calls the chain valid, \<^verbatim>\<open>status\<close> shows the number of known peers and a height
  and a difficulty that the chain had at some moment of the session, those it has as long as
  nothing was mined, and \<^verbatim>\<open>listen\<close> says that the node is already listening exactly when its server
  runs.
\<close>

theorem console_truthful:
  assumes "trace_from (console_init E) (console_step E) ((pr, out) # past)"
  shows "at_prompt out \<and> reach_from (node_init E) (node_step E) (pr_node pr)
    \<and> command_text E pr i rc Validate = ''Chain is valid.'' @ newline
    \<and> (\<exists>height difficulty middle. command_text E pr i rc ShowStatus =
          ''height='' @ show_u64 height @ '' difficulty='' @ show_u32 difficulty @
          middle @ '' peers='' @ show_int (int (length (nd_peers (pr_node pr)))) @ newline
        \<and> (\<exists>(old, _) \<in> set ((pr, out) # past). height = height_of (pr_node old))
        \<and> (\<exists>(old, _) \<in> set ((pr, out) # past). difficulty = difficulty_of (pr_node old))
        \<and> ((\<forall>(old, _) \<in> set past. nd_workers (pr_node old) = []) \<longrightarrow>
             height = height_of (pr_node pr) \<and> difficulty = difficulty_of (pr_node pr)))
    \<and> (starts_with (command_text E pr i rc (Listen port)) ''Already listening'' \<longleftrightarrow> ps_running (nd_server (pr_node pr)))"
proof -
  let ?nd = "pr_node pr"
  let ?st = "sh_status (nd_shared ?nd)"
  have reach: "reach_from (console_init E) (console_step E) (pr, out)" using trace_reach[OF assms] by simp
  have inv: "node_inv E ?nd" "at_prompt out" using sessions.reach_inv[OF reach] by (simp_all add: console_inv_def)
  have valid: "isValid E (sh_chain (nd_shared ?nd))"
    using inv(1) by (simp add: node_inv_def chain_inv_def isValid_iff)
  have "starts_with (listen_text q l ?nd) ''Already listening'' \<longleftrightarrow> nd_listening ?nd" for q l
    by (simp add: listen_text_def starts_with_def)
  moreover have "nd_listening ?nd \<longleftrightarrow> ps_running (nd_server ?nd)" using inv(1) by (simp add: node_inv_def)
  moreover obtain middle where middle: "command_text E pr i rc ShowStatus = ''height='' @ show_u64 (ns_height ?st) @
      '' difficulty='' @ show_u32 (ns_difficulty ?st) @ middle @ '' peers='' @ show_int (int (length (nd_peers ?nd))) @ newline"
  proof
    show "command_text E pr i rc ShowStatus = ''height='' @ show_u64 (ns_height ?st) @
      '' difficulty='' @ show_u32 (ns_difficulty ?st) @ ('' mining='' @ show_bool (ns_mining ?st) @ '' threads='' @
      show_int (ns_miningThreads ?st) @ '' hashrate='' @ show_u64 (ns_hashesLastSecond ?st) @ ''H/s'') @ '' peers='' @
      show_int (int (length (nd_peers ?nd))) @ newline"
      using inv(1) by (simp add: snapshot_def node_inv_def)
  qed
  have "\<exists>height difficulty middle. command_text E pr i rc ShowStatus =
          ''height='' @ show_u64 height @ '' difficulty='' @ show_u32 difficulty @
          middle @ '' peers='' @ show_int (int (length (nd_peers (pr_node pr)))) @ newline
        \<and> (\<exists>(old, _) \<in> set ((pr, out) # past). height = height_of (pr_node old))
        \<and> (\<exists>(old, _) \<in> set ((pr, out) # past). difficulty = difficulty_of (pr_node old))
        \<and> ((\<forall>(old, _) \<in> set past. nd_workers (pr_node old) = []) \<longrightarrow>
             height = height_of (pr_node pr) \<and> difficulty = difficulty_of (pr_node pr))"
    using session_shows[OF assms] unfolding shows_exactly_def
    by (intro exI[of _ "ns_height ?st"] exI[of _ "ns_difficulty ?st"] exI[of _ middle] conjI[OF middle])
  ultimately show ?thesis
    using inv(2) valid session_node.abs_reach[OF reach] by (simp add: validate_text_def)
qed

definition sample_inputs :: inputs where
  "sample_inputs = \<lparr>in_clock = \<lambda>_. 0, in_conns = [], in_listening = 3\<rparr>"

definition sample_process :: process where
  "sample_process = \<lparr>pr_node = sample_node, pr_os = Posix, pr_exePath = ''./megabyte_node'',
     pr_files = snd (wallet_save True ''wallet.dat'' sample_wallet Map.empty), pr_statusPort = 7778,
     pr_statusServer = snd (status_server_start 4 7778 status_server_new)\<rparr>"

lemma sample_main_start:
  "main_start sample_env (sample_machine Map.empty) [] sample_chain
     = Inr (Started sample_process, wallet_text False sample_wallet @ greeting)"
proof -
  have "wallet_startup sample_env sample_key True Map.empty
      = Inr (sample_wallet, snd (wallet_save True ''wallet.dat'' sample_wallet Map.empty))"
    by (simp add: wallet_startup_def wallet_exists_def sample_wallet_def)
  moreover have "node_start [] sample_chain sample_wallet = Inr sample_node"
    by (simp add: node_start_def sample_node_def sample_shared_def chain_height_def sample_chain_def
        sample_genesis_def genesis_candidate_def)
  ultimately show ?thesis
    by (simp add: main_start_def main_mode_def sample_machine_def initSockets_def sample_process_def
        getExePath_def wallet_exists_def)
qed

lemma sample_console_init:
  "console_init sample_env (sample_process, (wallet_text False sample_wallet @ greeting) @ ''mbc> '')"
  using sample_new_chain sample_main_start unfolding console_init_def fst_conv snd_conv by blast

theorem console_truthful_witness:
  "\<exists>out. reach_from (console_init sample_env) (console_step sample_env) (sample_process, out)
    \<and> command_text sample_env sample_process sample_inputs 1 Validate = ''Chain is valid.'' @ newline"
proof -
  have "reach_from (console_init sample_env) (console_step sample_env)
    (sample_process, (wallet_text False sample_wallet @ greeting) @ ''mbc> '')"
    by (rule reach_init[of "console_init sample_env", OF sample_console_init])
  moreover have "trace_from (console_init sample_env) (console_step sample_env)
    [(sample_process, (wallet_text False sample_wallet @ greeting) @ ''mbc> '')]"
    by (rule trace_init[of "console_init sample_env", OF sample_console_init])
  ultimately show ?thesis using console_truthful by blast
qed

text \<open>
  A refused command changes nothing. When what a command prints begins with its usage, with a local
  rejection, with an unreachable peer or with an unknown command, and it returns, the node is the
  one it was, down to its mempool and its peers.
\<close>

lemma refusals_change_nothing:
  assumes "refusal (command_text E pr i rc (parse_command line))"
    and "run_command E i (parse_command line) (pr_node pr) = Continue nd'"
  shows "nd' = pr_node pr"
  using assms by (rule refusal_keeps)

lemma refusals_change_nothing_example:
  "refusal (command_text sample_env sample_process sample_inputs 1 (parse_command ''difficulty easy''))
   \<and> (\<exists>nd'. run_command sample_env sample_inputs (parse_command ''difficulty easy'') sample_node = Continue nd' \<and> nd' = sample_node)"
proof -
  have "stream_tokens ''difficulty easy'' = [''difficulty'', ''easy'']"
    using parse_word[of "''difficulty''" "''easy''"] by (simp add: solid_word is_space_def)
  then have p: "parse_command ''difficulty easy'' = Difficulty (read_u32 (Some ''easy''))"
    using parse_difficulty by simp
  have "read_u32 (Some ''easy'') = None"
    by (simp add: read_u32_def scan_int_def scan_sign_def skip_0x_def is_space_def is_digit_def digit_val_def)
  with p have r: "refusal (command_text sample_env sample_process sample_inputs 1 (parse_command ''difficulty easy''))"
    by (simp add: difficulty_text_def refusal_def starts_with_def)
  obtain nd' where "run_command sample_env sample_inputs (parse_command ''difficulty easy'') (pr_node sample_process) = Continue nd'"
    by (simp add: p)
  with refusals_change_nothing[OF r this] r show ?thesis by (simp add: sample_process_def)
qed

text \<open>
  The sync asks the tallest peer. Over whatever connections, the peer that \<^verbatim>\<open>doInitNode\<close> chooses is
  the first of the known peers whose printed height no other peer exceeds; it chooses none
  exactly when no height is above -1, which is when every peer is printed as unreachable.
\<close>

lemma tallest_peer:
  "case query_peers dm ps cs (- 1) None of (h, best, cs') \<Rightarrow>
     (let hs = fst (peer_heights dm ps cs)
      in length hs = length ps
       \<and> (case best of
            None \<Rightarrow> h = - 1 \<and> (\<forall>k \<in> set hs. k < 0)
          | Some p \<Rightarrow> (\<exists>i < length ps. p = ps ! i \<and> h = hs ! i \<and> 0 \<le> h
              \<and> (\<forall>j < length ps. hs ! j \<le> h) \<and> (\<forall>j < i. hs ! j < h))))"
proof -
  obtain hs cs' where hs: "peer_heights dm ps cs = (hs, cs')" by (cases "peer_heights dm ps cs")
  then have len: "length hs = length ps" using peer_heights_length[of dm ps cs] by simp
  obtain h best where b: "best_of (zip ps hs) (- 1) None = (h, best)"
    by (cases "best_of (zip ps hs) (- 1) None")
  have set: "(\<forall>(p, k) \<in> set (zip ps hs). k \<le> m) \<longleftrightarrow> (\<forall>j < length ps. hs ! j \<le> m)" for m
    using len by (auto simp: set_zip)
  have neg: "(\<forall>j < length ps. hs ! j \<le> - 1) \<Longrightarrow> k \<in> set hs \<Longrightarrow> k < 0" for k
    using len by (auto simp: in_set_conv_nth)
  from best_of_spec[OF b] len show ?thesis
    unfolding query_peers_best hs prod.case b fst_conv set
    by (auto simp: Let_def dest: neg)
qed

definition sample_peers :: "peer_address list" where
  "sample_peers = [sample_peer, sample_peer\<lparr>pa_port := 7780\<rparr>, sample_peer\<lparr>pa_port := 7781\<rparr>]"

lemma tallest_peer_example:
  "\<exists>c. fst (peer_heights LP64 sample_peers [None, Some c, Some c]) = [- 1, 5, 5]
    \<and> fst (snd (query_peers LP64 sample_peers [None, Some c, Some c] (- 1) None)) = Some (sample_peer\<lparr>pa_port := 7780\<rparr>)"
proof -
  let ?c = "\<lparr>cn_sends = [], cn_recvs = byte_calls (show_u64 5 @ newline)\<rparr>"
  let ?cs = "[None, Some ?c, Some ?c]"
  have "fst (queryHeight LP64 (Some ?c)) = 5" using queryHeight_reply[of 5 LP64 "[]"] by simp
  moreover have "fst (queryHeight LP64 None) = - 1" by (simp add: queryHeight_def)
  ultimately have hs: "fst (peer_heights LP64 sample_peers ?cs) = [- 1, 5, 5]"
    by (simp add: sample_peers_def split: prod.splits)
  obtain h best cs' where q: "query_peers LP64 sample_peers ?cs (- 1) None = (h, best, cs')"
    by (cases "query_peers LP64 sample_peers ?cs (- 1) None")
  have len: "length sample_peers = 3" by (simp add: sample_peers_def)
  obtain i where i: "i < 3" "best = Some (sample_peers ! i)" "h = [- 1, 5, 5] ! i"
    "\<forall>j < 3. [- 1, 5, 5] ! j \<le> h" "\<forall>j < i. [- 1, 5, 5] ! j < h"
  proof (cases best)
    case None
    with tallest_peer[of LP64 sample_peers ?cs, unfolded q hs prod.case Let_def len] show thesis by simp
  next
    case (Some p)
    from tallest_peer[of LP64 sample_peers ?cs, unfolded q hs prod.case Let_def len Some option.case] Some
    show thesis by (metis that)
  qed
  have "h \<ge> 5" using i(4)[rule_format, of 1] by simp
  then have "i \<noteq> 0" using i(3) by (cases i) auto
  moreover have "i \<noteq> 2" using i(3) i(5)[rule_format, of 1] by auto
  ultimately have "i = 1" using i(1) by auto
  with i(2) q hs show ?thesis by (auto simp: sample_peers_def)
qed

end
