(* ===== verification/Registration.thy ===== *)
theory Registration
  imports Console_Laws
begin

text \<open>
  A user name from the command that registers it to the command that resolves it: \<^verbatim>\<open>register-username\<close>
  queues a signed transaction, a mining round puts it into a block and applies it, \<^verbatim>\<open>whois\<close>
  prints what the state then holds. The mempool does not look at the name, so a name that is
  taken is queued and mined too; the state then ignores it.
\<close>

subsection \<open>A registration in a block\<close>

lemma applyLine_registration:
  assumes "is_registration tx" "bar_free tx"
  shows "applyLine E (tx_toLine tx) st = applyTxLocked E tx st"
proof -
  have "\<not> starts_with (tx_toLine tx) ''COINBASE|''"
    using assms(1) by (simp add: is_registration_def starts_with_def tx_toLine_def)
  moreover have "find_char (tx_toLine tx) (CHR ''|'') 0 \<noteq> None"
    by (simp add: find_char_0_None tx_toLine_def)
  ultimately show ?thesis using assms(2) by (simp add: applyLine_def txc.dec_enc)
qed

lemma registration_fields:
  fixes nonce :: u64 and now :: i64
  assumes "openssl_ok E" "wallet_ok E w" "CHR ''|'' \<notin> set name"
  defines "tx \<equiv> createUsernameRegistration E w name nonce now"
  shows "is_registration tx" "bar_free tx" "tx_verify E tx = Inr True" "tx_sender tx = wal_address w"
    "tx_receiver tx = name" "tx_nonce tx = nonce"
  using assms createUsernameRegistration_verifies[OF assms(1,2)]
  by (simp_all add: tx_def wallet_ok_def)
    (simp_all add: createUsernameRegistration_eq is_registration_def sign_with_bar_free tx_default_def)

text \<open>The block of a round whose only transaction is a registration.\<close>

lemma registration_block:
  assumes "blk_transactions b = [coinbase_line addr kCoinbaseReward, tx_toLine tx]" "CHR ''|'' \<notin> set addr"
    and tx: "is_registration tx" "bar_free tx" "tx_verify E tx = Inr True" "tx_sender tx \<noteq> []"
      "tx_nonce tx = getNonce st (tx_sender tx)" "tx_receiver tx \<noteq> []"
    and "state_inv st"
  shows "\<exists>st'. applyBlock E b st = Inr st'
    \<and> (if resolveUsername st (tx_receiver tx) = None
       then resolveUsername st' (tx_receiver tx) = Some (tx_sender tx)
         \<and> usernameOf st' (tx_sender tx) = tx_receiver tx
         \<and> getNonce st' (tx_sender tx) = getNonce st (tx_sender tx) + 1
       else st_usernames st' = st_usernames st \<and> getNonce st' = getNonce st)"
proof -
  let ?st = "credit addr kCoinbaseReward st"
  obtain st' where st': "applyTxLocked E tx ?st = Inr st'" using applyTx_returns[OF tx(3)] by blast
  have "applyBlock E b st = Inr st'"
    using assms(1) applyLine_coinbase[OF assms(2)] applyLine_registration[OF tx(1,2)] st'
    by (simp add: applyBlock_def)
  moreover have "tx_executes E tx ?st \<longleftrightarrow> resolveUsername st (tx_receiver tx) = None"
    using tx by (simp add: tx_executes_def resolveUsername_def)
  moreover have "acc_address (fst (getOrCreateLocked (tx_sender tx) ?st)) = tx_sender tx"
    using state_inv_credit[OF assms(9)] by (rule getOrCreate_address)
  ultimately show ?thesis
    using applyTx_register[OF st' _ tx(1)] applyTx_skip[OF st']
    by (auto simp: resolveUsername_def same_view_def)
qed

lemma submit_accepted:
  assumes "submit_tx E t cs nd = Inr (Submitted tx acks, nd')"
  shows "\<exists>m'. mempool_add E (sh_state (nd_shared nd)) t (sh_mempool (nd_shared nd)) = Inr ([], m')
    \<and> tx = t \<and> nd' = nd\<lparr>nd_shared := (nd_shared nd)\<lparr>sh_mempool := m'\<rparr>\<rparr>"
  using assms by (auto simp: submit_tx_def bind_res_Inr_iff Let_def split: if_splits)

lemma register_submits:
  assumes "cmd_register_username E now name cs nd = Inr (Submitted tx acks, nd')"
    and "openssl_ok E" "wallet_ok E (nd_wallet nd)" "CHR ''|'' \<notin> set name"
    and "represents (sh_mempool (nd_shared nd)) []"
  shows "tx = createUsernameRegistration E (nd_wallet nd) name
      (getNonce (sh_state (nd_shared nd)) (wal_address (nd_wallet nd))) now"
    and "represents (sh_mempool (nd_shared nd')) [tx]" "name \<noteq> []"
    and "\<exists>m'. nd' = nd\<lparr>nd_shared := (nd_shared nd)\<lparr>sh_mempool := m'\<rparr>\<rparr>"
proof -
  let ?tx = "createUsernameRegistration E (nd_wallet nd) name
      (getNonce (sh_state (nd_shared nd)) (wal_address (nd_wallet nd))) now"
  show name: "name \<noteq> []" using assms(1) by (auto simp: cmd_register_username_def)
  with assms(1) have "submit_tx E ?tx cs nd = Inr (Submitted tx acks, nd')"
    by (simp add: cmd_register_username_def Let_def)
  from submit_accepted[OF this] obtain m'
    where m: "mempool_add E (sh_state (nd_shared nd)) ?tx (sh_mempool (nd_shared nd)) = Inr ([], m')"
      "tx = ?tx" "nd' = nd\<lparr>nd_shared := (nd_shared nd)\<lparr>sh_mempool := m'\<rparr>\<rparr>" by blast
  show "tx = ?tx" by (rule m(2))
  show "represents (sh_mempool (nd_shared nd')) [tx]"
    using mempool_add_represents[OF m(1) assms(5)] registration_fields(2)[OF assms(2,3,4)] m(2,3) by simp
  show "\<exists>m'. nd' = nd\<lparr>nd_shared := (nd_shared nd)\<lparr>sh_mempool := m'\<rparr>\<rparr>" using m(3) by blast
qed

subsection \<open>Properties\<close>

text \<open>
  C28: Registering a user name. For a name without a bar: when \<^verbatim>\<open>register-username\<close> reports that the registration was submitted on a
  node with an empty mempool, one round of an idle worker whose nonce search ends settles it: if nobody had the name,
  \<^verbatim>\<open>whois\<close> then prints the wallet's address for it and the wallet has that name; if somebody had
  it, the round changes no user name and not the wallet's nonce, though it was reported as
  submitted.
\<close>

theorem registration_settles:
  assumes "cmd_register_username E now name cs nd = Inr (Submitted tx acks, nd')"
    and "openssl_ok E" "wallet_ok E (nd_wallet nd)" "CHR ''|'' \<notin> set name"
    and "represents (sh_mempool (nd_shared nd)) []" "state_inv (sh_state (nd_shared nd))"
    and "i < length pcs" "pcs ! i = OuterTest" "\<not> sh_stopFlag (nd_shared nd)"
    and "mineBlock E (candidate_of E t (wal_address (nd_wallet nd)) i [tx_toLine tx] (sh_chain (nd_shared nd))) = Some b"
  shows "\<exists>s'. mining_run E (wal_address (nd_wallet nd)) (pcs, nd_shared nd') (pcs, s')
    \<and> (if resolveUsername (sh_state (nd_shared nd)) name = None
       then whois_text name (nd'\<lparr>nd_shared := s'\<rparr>) = name @ '' -> '' @ wal_address (nd_wallet nd) @ newline
         \<and> usernameOf (sh_state s') (wal_address (nd_wallet nd)) = name
       else st_usernames (sh_state s') = st_usernames (sh_state (nd_shared nd))
         \<and> getNonce (sh_state s') = getNonce (sh_state (nd_shared nd)))"
proof -
  let ?addr = "wal_address (nd_wallet nd)" and ?st = "sh_state (nd_shared nd)"
  note sub = register_submits[OF assms(1-5)]
  note fx = registration_fields[OF assms(2,3,4), where nonce = "getNonce ?st ?addr" and now = now, folded sub(1)]
  obtain m' where nd': "nd' = nd\<lparr>nd_shared := (nd_shared nd)\<lparr>sh_mempool := m'\<rparr>\<rparr>" using sub(4) by blast
  obtain m2 where take: "mempool_take kMaxTxPerBlock (sh_mempool (nd_shared nd')) = Inr ([tx_toLine tx], m2)"
    using mempool_take_represents[OF sub(2), of 20] by (auto simp: kMaxTxPerBlock_def)
  have sep: "CHR ''|'' \<notin> set ?addr" and ne: "?addr \<noteq> []" using assms(2,3) by (simp_all add: wallet_ok_def)
  have "blk_transactions b = [coinbase_line ?addr kCoinbaseReward, tx_toLine tx]"
    using mineBlock_frame(5)[OF assms(10)] by simp
  from registration_block[OF this sep fx(1-3) _ _ _ assms(6), unfolded fx(4,5,6)] sub(3) ne
  obtain st' where st': "applyBlock E b ?st = Inr st'"
    "if resolveUsername ?st name = None
     then resolveUsername st' name = Some ?addr \<and> usernameOf st' ?addr = name \<and> getNonce st' ?addr = getNonce ?st ?addr + 1
     else st_usernames st' = st_usernames ?st \<and> getNonce st' = getNonce ?st" by blast
  have "\<not> sh_stopFlag (nd_shared nd')"
    "mineBlock E (candidate_of E t ?addr i [tx_toLine tx] (sh_chain (nd_shared nd'))) = Some b"
    "applyBlock E b (sh_state (nd_shared nd')) = Inr st'"
    using assms(9,10) st'(1) nd' by simp_all
  from round_runs[OF assms(7,8) this(1) take this(2,3)] st'(2) show ?thesis by (fastforce simp: whois_text_def)
qed

lemma sample_register:
  "\<exists>tx nd'. cmd_register_username sample_env 0 ''neo'' [] (sample_node\<lparr>nd_shared := sample_shared\<rparr>) = Inr (Submitted tx [], nd')"
proof -
  let ?tx = "createUsernameRegistration sample_env sample_wallet ''neo'' 0 0"
  note f = registration_fields[OF sample_env_ok sample_wallet_ok, where name = "''neo''" and nonce = 0 and now = 0]
  have ty: "tx_type ?tx = ''REGISTER_USERNAME''" using f(1) by (simp add: is_registration_def)
  have "admissible sample_env state_empty ?tx mempool_empty"
    unfolding admissible_def ty using f by (simp add: mempool_empty_def)
  from mempool_add_accept[OF this] show ?thesis
    by (simp add: cmd_register_username_def submit_tx_def Let_def sample_node_def sample_shared_def)
qed

theorem registration_settles_witness:
  "\<exists>tx nd' s'. cmd_register_username sample_env 0 ''neo'' [] (sample_node\<lparr>nd_shared := sample_shared\<rparr>) = Inr (Submitted tx [], nd')
    \<and> mining_run sample_env (wal_address sample_wallet) ([OuterTest], nd_shared nd') ([OuterTest], s')
    \<and> whois_text ''neo'' (nd'\<lparr>nd_shared := s'\<rparr>) = ''neo -> '' @ wal_address sample_wallet @ newline"
proof -
  let ?nd = "sample_node\<lparr>nd_shared := sample_shared\<rparr>"
  obtain tx nd' where r: "cmd_register_username sample_env 0 ''neo'' [] ?nd = Inr (Submitted tx [], nd')"
    using sample_register by blast
  have w: "nd_wallet ?nd = sample_wallet" by (simp add: sample_node_def)
  let ?b = "candidate_of sample_env 0 (wal_address (nd_wallet ?nd)) 0 [tx_toLine tx] (sh_chain (nd_shared ?nd))"
  have mine: "mineBlock sample_env ?b = Some ?b"
    by (rule sample_mine) (simp add: sample_shared_def sample_chain_def)
  have "\<exists>s'. mining_run sample_env (wal_address (nd_wallet ?nd)) ([OuterTest], nd_shared nd') ([OuterTest], s')
    \<and> (if resolveUsername (sh_state (nd_shared ?nd)) ''neo'' = None
       then whois_text ''neo'' (nd'\<lparr>nd_shared := s'\<rparr>) = ''neo'' @ '' -> '' @ wal_address (nd_wallet ?nd) @ newline
         \<and> usernameOf (sh_state s') (wal_address (nd_wallet ?nd)) = ''neo''
       else st_usernames (sh_state s') = st_usernames (sh_state (nd_shared ?nd))
         \<and> getNonce (sh_state s') = getNonce (sh_state (nd_shared ?nd)))"
    by (rule registration_settles[OF r sample_env_ok _ _ _ _ _ _ _ mine])
      (use sample_wallet_ok w in \<open>simp_all add: sample_shared_def\<close>)
  moreover have "resolveUsername (sh_state (nd_shared ?nd)) ''neo'' = None"
    by (simp add: sample_shared_def resolveUsername_def state_empty_def)
  ultimately show ?thesis using r w by auto
qed

end
