(* ===== verification/Network.thy ===== *)
theory Network
  imports Registration
begin

text \<open>
  Two nodes on a network: a payment from the command that makes it, over the connection to a peer
  that mines, back to the node that made it; and what is left behind in that node's own mempool.
\<close>

subsection \<open>A connection between two nodes\<close>

text \<open>
  A broadcast and its answer on one connection: the client's request reaches the server's
  handler, the handler's answer reaches the client, and the server's mempool afterwards.
\<close>

definition tx_exchange ::
  "env \<Rightarrow> chain \<Rightarrow> state_store \<Rightarrow> mempool \<Rightarrow> string \<Rightarrow> conn \<Rightarrow> conn \<Rightarrow> mempool \<Rightarrow> bool" where
  "tx_exchange E ch st m line c srv m' \<longleftrightarrow>
     (let request = ''TX '' @ line @ newline
      in sendAll (cn_sends c) request = (True, request) \<and> cn_recvs srv = byte_calls request
         \<and> (\<exists>reply console. answer E ch st (fst (recvLine (cn_recvs srv))) m = Inr (Some reply, console, m')
              \<and> sendAll (cn_sends srv) reply = (True, reply) \<and> cn_recvs c = byte_calls reply))"

text \<open>The exchange is the client's operation and the server's handler on the two ends.\<close>

lemma tx_exchange_ends:
  assumes "tx_exchange E ch st m line c srv m'"
  shows "\<exists>reply console. handleClient E ch st srv m = Inr (reply, console, m') \<and> cn_recvs c = byte_calls reply
    \<and> snd (broadcastTransaction line (Some c)) = ''TX '' @ line @ newline"
  using assms
  by (auto simp: tx_exchange_def Let_def handleClient_def broadcastTransaction_def)

lemma tx_exchange_result:
  assumes "tx_exchange E ch st m (tx_toLine tx) c srv m'" "tx_wire_ok tx"
    and "mempool_add E st tx m = Inr (err, m1)"
  shows "m' = m1" "fst (broadcastTransaction (tx_toLine tx) (Some c)) \<longleftrightarrow> err = []"
proof -
  have nl: "CHR 0x0A \<notin> set (tx_toLine tx)" using txl.enc_no_newline[OF assms(2)] .
  obtain reply console where e: "cn_recvs srv = byte_calls (''TX '' @ tx_toLine tx @ newline)"
    "answer E ch st (fst (recvLine (cn_recvs srv))) m = Inr (Some reply, console, m')"
    "cn_recvs c = byte_calls reply"
    using assms(1) by (auto simp: tx_exchange_def Let_def)
  then have "answer E ch st (''TX '' @ tx_toLine tx) m = Inr (Some reply, console, m')"
    using request_lines(4)[OF nl] by simp
  moreover have "bar_free tx" using assms(2) by (simp add: tx_wire_ok_def)
  ultimately have r: "m' = m1" "reply = (if err = [] then ''OK'' @ newline else ''REJECTED'' @ newline)"
    using answer_tx[OF _ assms(3), of ch] by auto
  show "m' = m1" by (rule r(1))
  show "fst (broadcastTransaction (tx_toLine tx) (Some c)) \<longleftrightarrow> err = []"
    using broadcast_reply[of "tx_toLine tx" "cn_sends c" "err = []"] r e(3) by (cases c) simp
qed

text \<open>A block line can carry what a wallet signs for a plain address.\<close>

definition plain_text :: "string \<Rightarrow> bool" where
  "plain_text a \<longleftrightarrow> CHR ''|'' \<notin> set a \<and> CHR '','' \<notin> set a \<and> CHR 0x0A \<notin> set a"

lemma createSigned_wire:
  assumes "openssl_ok E" "wallet_ok E w" "plain_text to"
  shows "tx_wire_ok (createSigned E w to amount nonce now)"
    "CHR '','' \<notin> set (tx_toLine (createSigned E w to amount nonce now))"
  using assms
  by (auto simp: plain_text_def wallet_ok_def createSigned_eq tx_wire_ok_def bar_free_def newline_free_def
      sign_with_def tx_default_def tx_toLine_def)

lemma candidate_wire:
  assumes "mineBlock E (candidate_of E now addr i (map tx_toLine txs) ch) = Some b" "plain_text addr"
    and "\<forall>tx \<in> set txs. tx_wire_ok tx \<and> CHR '','' \<notin> set (tx_toLine tx)"
  shows "block_wire_ok b"
proof -
  have "\<forall>tx \<in> set txs. CHR 0x0A \<notin> set (tx_toLine tx)" using assms(3) txl.enc_no_newline by blast
  then show ?thesis
    using mineBlock_frame[OF assms(1)] assms(2,3)
    by (auto simp: block_wire_ok_def plain_text_def coinbase_line_def)
qed

subsection \<open>Nodes in step\<close>

text \<open>
  A node and a peer that hold the same chain and the same ledger, the replay of that chain, which the
  line format carries and whose height a peer can send.
\<close>

definition in_step :: "env \<Rightarrow> shared \<Rightarrow> shared \<Rightarrow> bool" where
  "in_step E a b \<longleftrightarrow> chn_blocks (sh_chain a) = chn_blocks (sh_chain b) \<and> sh_state a = sh_state b
     \<and> chain_inv E (sh_chain b) \<and> heights_count (chn_blocks (sh_chain b))
     \<and> (\<forall>x \<in> set (chn_blocks (sh_chain b)). block_wire_ok x)
     \<and> rebuildFromBlocks E (chn_blocks (sh_chain b)) state_empty = Inr (sh_state b)"

lemma in_step_inv: "in_step E a b \<Longrightarrow> chain_inv E (sh_chain a) \<and> heights_count (chn_blocks (sh_chain a))"
  by (simp add: in_step_def chain_inv_def)

text \<open>The sender's part: the payment is queued in both mempools and the peer says so.\<close>

lemma send_to_peer:
  assumes "openssl_ok E" "wallet_ok E (nd_wallet nd)" "plain_text to" "to \<noteq> []" "amount \<noteq> 0"
    and "amount \<le> getBalance (sh_state (nd_shared nd)) (wal_address (nd_wallet nd))"
    and "nd_peers nd = [p]" "represents (sh_mempool (nd_shared nd)) []" "represents m []"
    and "tx_exchange E ch (sh_state (nd_shared nd)) m (tx_toLine tx) c srv m'"
    and tx: "tx = createSigned E (nd_wallet nd) to amount
      (getNonce (sh_state (nd_shared nd)) (wal_address (nd_wallet nd))) now"
  shows "represents m' [tx]"
    and "\<exists>q. cmd_send E now to amount [Some c] nd = Inr (Submitted tx [True],
      nd\<lparr>nd_shared := (nd_shared nd)\<lparr>sh_mempool := q\<rparr>\<rparr>) \<and> represents q [tx]"
proof -
  have ok: "tx_wire_ok tx" unfolding tx by (rule createSigned_wire) fact+
  then have bf: "bar_free tx" by (simp add: tx_wire_ok_def)
  note add = represents_add[OF _ assms(1,2,6), of _ to now, folded tx, OF _ bf]
  obtain q where q: "mempool_add E (sh_state (nd_shared nd)) tx (sh_mempool (nd_shared nd)) = Inr ([], q)"
    "represents q [tx]" using add[OF assms(8)] by blast
  obtain m1 where m1: "mempool_add E (sh_state (nd_shared nd)) tx m = Inr ([], m1)" "represents m1 [tx]"
    using add[OF assms(9)] by blast
  note r = tx_exchange_result[OF assms(10) ok m1(1)]
  show "represents m' [tx]" using r(1) m1(2) by simp
  have "cmd_send E now to amount [Some c] nd = submit_tx E tx [Some c] nd"
    using assms(4,5) by (simp add: cmd_send_def Let_def tx)
  also have "\<dots> = Inr (Submitted tx [True], nd\<lparr>nd_shared := (nd_shared nd)\<lparr>sh_mempool := q\<rparr>\<rparr>)"
    using q(1) assms(7) r(2) by (simp add: submit_tx_def Let_def)
  finally show "\<exists>q. cmd_send E now to amount [Some c] nd = Inr (Submitted tx [True],
      nd\<lparr>nd_shared := (nd_shared nd)\<lparr>sh_mempool := q\<rparr>\<rparr>) \<and> represents q [tx]" using q(2) by blast
qed

text \<open>The peer's part: one round of its worker settles the payment on a chain that can be sent.\<close>

lemma round_settles_one:
  assumes "in_step E a s" "represents (sh_mempool s) [tx]" "\<not> sh_stopFlag s" "plain_text addr"
    and "payable E (sh_state s) tx" "tx_wire_ok tx" "CHR '','' \<notin> set (tx_toLine tx)"
    and "total_supply (sh_state s) + 50 < 2 ^ 64"
    and mine: "mineBlock E (candidate_of E now addr 0 [tx_toLine tx] (sh_chain s)) = Some b"
  shows "\<exists>s'. mining_run E addr ([OuterTest], s) ([OuterTest], s') \<and> in_step E s' s'
    \<and> length (chn_blocks (sh_chain s')) = Suc (length (chn_blocks (sh_chain s)))
    \<and> (\<forall>x. unat (getBalance (sh_state s') x) + sent_by x [tx]
          = unat (getBalance (sh_state s) x) + received_by x [tx] + (if x = addr then 50 else 0)
        \<and> getNonce (sh_state s') x = getNonce (sh_state s) x + (if x = tx_sender tx then 1 else 0))"
proof -
  obtain m' where take: "mempool_take kMaxTxPerBlock (sh_mempool s) = Inr ([tx_toLine tx], m')"
    using mempool_take_represents[OF assms(2), of 20] by (auto simp: kMaxTxPerBlock_def)
  have rep: "rebuildFromBlocks E (chn_blocks (sh_chain s)) state_empty = Inr (sh_state s)"
    and ch: "chain_inv E (sh_chain s)" "heights_count (chn_blocks (sh_chain s))"
      "\<forall>x \<in> set (chn_blocks (sh_chain s)). block_wire_ok x"
    using assms(1) by (simp_all add: in_step_def)
  have "blk_transactions b = coinbase_line addr kCoinbaseReward # map tx_toLine [tx]"
    using mineBlock_frame(5)[OF mine] by simp
  moreover have "CHR ''|'' \<notin> set addr" using assms(4) by (simp add: plain_text_def)
  ultimately obtain st' where st': "applyBlock E b (sh_state s) = Inr st'"
    "\<forall>x. unat (getBalance st' x) + sent_by x [tx]
        = unat (getBalance (sh_state s) x) + received_by x [tx] + (if x = addr then 50 else 0)
      \<and> getNonce st' x = getNonce (sh_state s) x + (if x \<in> set (map tx_sender [tx]) then 1 else 0)"
    using coinbase_block_settles[of b addr "[tx]" "sh_state s" E] rebuild_inv[OF rep] assms(5,8) by auto
  obtain s' where s': "mining_run E addr ([OuterTest], s) ([OuterTest], s')"
    "sh_chain s' = (sh_chain s)\<lparr>chn_blocks := chn_blocks (sh_chain s) @ [b]\<rparr>" "sh_state s' = st'"
    using round_runs[of 0 "[OuterTest]", OF _ _ assms(3) take mine st'(1)] by auto
  have "links_to E (last (chn_blocks (sh_chain s))) b"
    using mineBlock_frame(4)[OF mine] mineBlock_solved[OF mine] by (simp add: links_to_def)
  moreover have "blk_height b = word_of_nat (length (chn_blocks (sh_chain s)))"
  proof -
    have ne: "chn_blocks (sh_chain s) \<noteq> []" using ch(1) by (simp add: chain_inv_def)
    then have "Suc (length (chn_blocks (sh_chain s)) - 1) = length (chn_blocks (sh_chain s))"
      by (cases "chn_blocks (sh_chain s)") simp_all
    moreover have "blk_height b = blk_height (last (chn_blocks (sh_chain s))) + 1"
      using mineBlock_frame(1)[OF mine] by (simp add: chain_height_def)
    ultimately show ?thesis
      using heights_count_last[OF ch(2) ne] by (metis add.commute of_nat_Suc)
  qed
  moreover have "block_wire_ok b"
    using candidate_wire[of E now addr 0 "[tx]"] mine assms(4,6,7) by simp
  ultimately have "in_step E s' s'"
    using s'(2,3) ch rep st'(1)
    by (simp add: in_step_def chain_inv_def valid_chain_snoc heights_count_snoc rebuild_snoc)
  moreover have "length (chn_blocks (sh_chain s')) = Suc (length (chn_blocks (sh_chain s)))" using s'(2) by simp
  moreover have "\<forall>x. unat (getBalance (sh_state s') x) + sent_by x [tx]
      = unat (getBalance (sh_state s) x) + received_by x [tx] + (if x = addr then 50 else 0)
    \<and> getNonce (sh_state s') x = getNonce (sh_state s) x + (if x = tx_sender tx then 1 else 0)"
    using st'(2) unfolding s'(3) by simp
  ultimately show ?thesis using s'(1) by blast
qed

text \<open>The way back: the sender takes over the peer's chain; its own mempool is as before.\<close>

lemma sync_in_step:
  assumes "in_step E (nd_shared nd) s" "in_step E s' s'" "nd_peers nd = [p]"
    and "length (chn_blocks (sh_chain s')) = Suc (length (chn_blocks (sh_chain s)))"
    and "length (chn_blocks (sh_chain s)) < 2 ^ (long_bits (platform E) - 1)"
    and "peer_answers E (sh_chain s') (sh_state s') (sh_mempool s') cs"
  shows "\<exists>nd'. doInitNode E nd cs = Inr (Synced (chain_height (sh_chain s')), nd')
    \<and> in_step E (nd_shared nd') s' \<and> nd_wallet nd' = nd_wallet nd \<and> nd_peers nd' = nd_peers nd
    \<and> sh_mempool (nd_shared nd') = sh_mempool (nd_shared nd)"
proof -
  have own: "chain_inv E (sh_chain (nd_shared nd))" "heights_count (chn_blocks (sh_chain (nd_shared nd)))"
    "length (chn_blocks (sh_chain (nd_shared nd))) < length (chn_blocks (sh_chain s'))"
    using in_step_inv[OF assms(1)] assms(1,4) by (simp_all add: in_step_def)
  have new: "\<forall>b \<in> set (chn_blocks (sh_chain s')). block_wire_ok b" "chain_inv E (sh_chain s')"
    "heights_count (chn_blocks (sh_chain s'))"
    "rebuildFromBlocks E (chn_blocks (sh_chain s')) state_empty = Inr (sh_state s')"
    using assms(2) by (simp_all add: in_step_def)
  have len: "length (chn_blocks (sh_chain s')) \<le> 2 ^ (long_bits (platform E) - 1)" using assms(4,5) by simp
  show ?thesis
    using sync_one_peer_replay[OF assms(3,6) new(1-3) len own] new(4) assms(2) by (simp add: in_step_def)
qed

subsection \<open>A node that does not mine\<close>

text \<open>Steps of a node without workers. Nothing but a worker takes transactions out of the mempool.\<close>

definition idle_step :: "env \<Rightarrow> node \<Rightarrow> node \<Rightarrow> bool" where
  "idle_step E nd nd' \<longleftrightarrow> node_step E nd nd' \<and> nd_workers nd = [] \<and> nd_workers nd' = []"

definition keeps_pending :: "node \<Rightarrow> node \<Rightarrow> bool" where
  "keeps_pending nd nd' \<longleftrightarrow> nd_wallet nd' = nd_wallet nd
     \<and> mp_pendingSenders (sh_mempool (nd_shared nd)) \<subseteq> mp_pendingSenders (sh_mempool (nd_shared nd'))"

lemma keeps_pending_refl [simp]: "keeps_pending nd nd"
  by (simp add: keeps_pending_def)

lemma keeps_pending_trans: "keeps_pending a b \<Longrightarrow> keeps_pending b c \<Longrightarrow> keeps_pending a c"
  by (auto simp: keeps_pending_def)

lemma mempool_add_senders:
  "mempool_add E st tx m = Inr (err, m') \<Longrightarrow> mp_pendingSenders m \<subseteq> mp_pendingSenders m'"
  by (erule mempool_add_cases) auto

lemma submit_keeps_pending: "submit_tx E tx cs nd = Inr (r, nd') \<Longrightarrow> keeps_pending nd nd'"
  by (auto simp: submit_tx_def bind_res_Inr_iff Let_def keeps_pending_def dest!: mempool_add_senders split: if_splits)

lemma doInitNode_keeps_pending: "doInitNode E nd cs = Inr (r, nd') \<Longrightarrow> keeps_pending nd nd'"
  by (erule doInitNode_cases) (simp_all add: keeps_pending_def)

lemma peers_keep_pending:
  "keeps_pending nd (remember_peer a nd)" "keeps_pending nd (ensureListening l nd)"
  "keeps_pending nd (snd (cmd_listen port l nd))" "keeps_pending nd (snd (cmd_difficulty d nd))"
  "keeps_pending nd (cmd_stop_mining nd)"
  by (simp_all add: keeps_pending_def remember_peer_def Let_def ensureListening_def cmd_listen_def
      cmd_difficulty_def cmd_stop_mining_def miner_stop_done_def miner_stop_request_def
      split: option.split prod.split)

lemma mine_has_workers: "nd_workers (cmd_mine n nd) \<noteq> []"
  by (simp add: cmd_mine_def Let_def miner_start_def)

lemma command_keeps_pending:
  assumes "run_command E i c nd = Continue nd'" "nd_workers nd' = []"
  shows "keeps_pending nd nd'"
proof (cases c)
  case (Send a n)
  with assms show ?thesis
    by (auto simp: of_res_def cmd_send_def Let_def split: sum.splits if_splits intro: submit_keeps_pending)
next
  case (RegisterUsername u)
  with assms show ?thesis
    by (auto simp: of_res_def cmd_register_username_def Let_def split: sum.splits if_splits
        intro: submit_keeps_pending)
next
  case InitNode
  with assms show ?thesis by (auto simp: of_res_def split: sum.splits intro: doInitNode_keeps_pending)
next
  case (Add rest)
  with assms show ?thesis by (auto simp: cmd_add_def Let_def keeps_pending_def split: option.splits)
next
  case (Mine n)
  with assms mine_has_workers[of n nd] show ?thesis by (auto split: if_splits)
next
  case (JoinNet a)
  with assms show ?thesis
    by (auto simp: cmd_join_net_def Let_def split: option.splits if_splits
        intro: keeps_pending_trans peers_keep_pending)
qed (use assms peers_keep_pending in \<open>auto simp: cmd_set_peer_def split: option.splits if_splits\<close>)

lemma idle_keeps_pending:
  assumes "(idle_step E)\<^sup>*\<^sup>* nd nd'"
  shows "keeps_pending nd nd'"
  using assms
proof (induction rule: rtranclp_induct)
  case (step nd1 nd2)
  have "keeps_pending nd1 nd2"
    using step(2) unfolding idle_step_def
  proof (elim conjE node_stepE)
    fix i line
    assume "run_command E i (parse_command line) nd1 = Continue nd2" "nd_workers nd2 = []"
    then show ?thesis by (rule command_keeps_pending)
  next
    fix pcs s
    assume t: "mining_step E (wal_address (nd_wallet nd1)) (nd_workers nd1, nd_shared nd1) (pcs, s)"
      "nd_workers nd1 = []" "nd2 = nd1\<lparr>nd_workers := pcs, nd_shared := s\<rparr>"
    from t(1) show ?thesis
      by (cases rule: mining_step.cases)
        (use t(2,3) in \<open>auto simp: keeps_pending_def hashrate_turn_def miner_stop_request_def dest: mempool_add_senders\<close>)
  qed
  with step.IH show ?case by (rule keeps_pending_trans)
qed simp

subsection \<open>Properties\<close>

text \<open>
  C2: A payment crosses the network. Two nodes are in step; the first, whose only peer is the second,
  sends a payment its balance covers, to a receiver text without bar, comma or newline, over a
  connection that carries the request and the answer; mempools are empty, the total of balances
  leaves room for the reward, and the nonce search ends. The second
  reports its acceptance, a round of its worker settles it, and when the first then syncs, both are in step again:
  on either node the receiver has the amount, the sender is short of it and its nonce is one
  higher, the miner has 50 more, and no other balance has changed. The payment stays in the
  first node's own mempool.
\<close>

theorem payment_crosses_network:
  assumes "openssl_ok E" "wallet_ok E (nd_wallet nd)" "plain_text to" "to \<noteq> []" "amount \<noteq> 0"
    and "amount \<le> getBalance (sh_state s) (wal_address (nd_wallet nd))"
    and "total_supply (sh_state s) + 50 < 2 ^ 64"
    and "in_step E (nd_shared nd) s" "nd_peers nd = [p]" "represents (sh_mempool (nd_shared nd)) []"
    and "represents (sh_mempool s) []" "\<not> sh_stopFlag s" "plain_text addr"
    and "length (chn_blocks (sh_chain s)) < 2 ^ (long_bits (platform E) - 1)"
    and tx: "tx = createSigned E (nd_wallet nd) to amount (getNonce (sh_state s) (wal_address (nd_wallet nd))) now"
    and "tx_exchange E (sh_chain s) (sh_state s) (sh_mempool s) (tx_toLine tx) c srv m'"
    and "mineBlock E (candidate_of E now' addr 0 [tx_toLine tx] (sh_chain s)) = Some b"
  shows "\<exists>nd1 s'. cmd_send E now to amount [Some c] nd = Inr (Submitted tx [True], nd1)
    \<and> mining_run E addr ([OuterTest], s\<lparr>sh_mempool := m'\<rparr>) ([OuterTest], s')
    \<and> (\<forall>cs. peer_answers E (sh_chain s') (sh_state s') (sh_mempool s') cs \<longrightarrow>
        (\<exists>nd2. doInitNode E nd1 cs = Inr (Synced (chain_height (sh_chain s')), nd2)
          \<and> in_step E (nd_shared nd2) s' \<and> represents (sh_mempool (nd_shared nd2)) [tx]))
    \<and> (\<forall>a. unat (getBalance (sh_state s') a) + (if a = wal_address (nd_wallet nd) then unat amount else 0)
          = unat (getBalance (sh_state s) a) + (if a = to then unat amount else 0) + (if a = addr then 50 else 0)
        \<and> getNonce (sh_state s') a = getNonce (sh_state s) a + (if a = wal_address (nd_wallet nd) then 1 else 0))"
proof -
  have st: "sh_state (nd_shared nd) = sh_state s" using assms(8) by (simp add: in_step_def)
  note send = send_to_peer[OF assms(1-5) _ assms(9-11), unfolded st, OF assms(6,16) tx]
  obtain q where q: "cmd_send E now to amount [Some c] nd = Inr (Submitted tx [True],
      nd\<lparr>nd_shared := (nd_shared nd)\<lparr>sh_mempool := q\<rparr>\<rparr>)" "represents q [tx]" using send(2) by blast
  let ?nd1 = "nd\<lparr>nd_shared := (nd_shared nd)\<lparr>sh_mempool := q\<rparr>\<rparr>" and ?s1 = "s\<lparr>sh_mempool := m'\<rparr>"
  have inv: "state_inv (sh_state s)" using assms(8) by (auto simp: in_step_def dest: rebuild_inv)
  have bar: "CHR ''|'' \<notin> set to" using assms(3) by (simp add: plain_text_def)
  note fx = signed_payment[OF assms(1,2) bar assms(6) inv assms(7), where now = now, folded tx]
  note wire = createSigned_wire[OF assms(1-3), of amount "getNonce (sh_state s) (wal_address (nd_wallet nd))" now,
      folded tx]
  have "in_step E (nd_shared nd) ?s1" using assms(8) by (simp add: in_step_def)
  from round_settles_one[OF this _ _ assms(13) _ wire] send(1) fx(9) assms(7,12,17)
  obtain s' where s': "mining_run E addr ([OuterTest], ?s1) ([OuterTest], s')" "in_step E s' s'"
    "length (chn_blocks (sh_chain s')) = Suc (length (chn_blocks (sh_chain s)))"
    "\<forall>x. unat (getBalance (sh_state s') x) + sent_by x [tx]
          = unat (getBalance (sh_state s) x) + received_by x [tx] + (if x = addr then 50 else 0)
        \<and> getNonce (sh_state s') x = getNonce (sh_state s) x + (if x = tx_sender tx then 1 else 0)"
    by fastforce
  have "in_step E (nd_shared ?nd1) s" "nd_peers ?nd1 = [p]" using assms(8,9) by (simp_all add: in_step_def)
  note sync = sync_in_step[OF this(1) s'(2) this(2) s'(3) assms(14)]
  have "\<exists>nd2. doInitNode E ?nd1 cs = Inr (Synced (chain_height (sh_chain s')), nd2)
      \<and> in_step E (nd_shared nd2) s' \<and> represents (sh_mempool (nd_shared nd2)) [tx]"
    if "peer_answers E (sh_chain s') (sh_state s') (sh_mempool s') cs" for cs
    using sync[OF that] q(2) by auto
  moreover have "unat (getBalance (sh_state s') a) + (if a = wal_address (nd_wallet nd) then unat amount else 0)
        = unat (getBalance (sh_state s) a) + (if a = to then unat amount else 0) + (if a = addr then 50 else 0)
      \<and> getNonce (sh_state s') a = getNonce (sh_state s) a + (if a = wal_address (nd_wallet nd) then 1 else 0)" for a
    using s'(4)[rule_format, of a] fx(5-7) by (auto split: if_splits)
  ultimately show ?thesis using q(1) s'(1) by blast
qed

lemma sendAll_whole: "x \<noteq> [] \<Longrightarrow> sendAll [int (length x)] x = (True, x)"
  by (simp add: sendAll_def)

lemma tx_exchange_exists:
  assumes "tx_wire_ok tx" "mempool_add E st tx m = Inr (err, m')"
  shows "\<exists>c srv. tx_exchange E ch st m (tx_toLine tx) c srv m'"
proof -
  let ?req = "''TX '' @ tx_toLine tx @ newline"
  let ?reply = "if err = [] then ''OK'' @ newline else ''REJECTED'' @ newline"
  have nl: "CHR 0x0A \<notin> set (tx_toLine tx)" using txl.enc_no_newline[OF assms(1)] .
  have ok: "bar_free tx" using assms(1) by (simp add: tx_wire_ok_def)
  have r: "?reply \<noteq> []" by simp
  have "tx_exchange E ch st m (tx_toLine tx) \<lparr>cn_sends = [int (length ?req)], cn_recvs = byte_calls ?reply\<rparr>
      \<lparr>cn_sends = [int (length ?reply)], cn_recvs = byte_calls ?req\<rparr> m'"
    unfolding tx_exchange_def Let_def conn.simps request_lines(4)[OF nl]
    using answer_tx[OF ok assms(2), of ch] sendAll_whole[OF r] sendAll_whole[of ?req] by auto
  then show ?thesis by blast
qed

lemma sample_owned_step: "in_step sample_env sample_owned sample_owned"
proof -
  have b: "block_wire_ok sample_owned_block"
    using sample_wallet_ok
    by (simp add: sample_owned_block_def block_wire_ok_def wallet_ok_def coinbase_line_def sample_env_ok)
  have h: "heights_count [sample_genesis, sample_owned_block]"
    using heights_count_snoc[of "[sample_genesis]" sample_owned_block] sample_chain_inv(2)
    by (simp add: sample_chain_def sample_owned_block_def chain_height_def sample_genesis_def genesis_candidate_def)
  show ?thesis
    using sample_owned_init b h sample_chain_wire
    by (simp add: in_step_def mining_init_def sample_owned_def sample_chain_def)
qed

theorem payment_crosses_network_witness:
  "\<exists>nd tx c srv m' nd1 s' cs nd2. tx_exchange sample_env (sh_chain sample_owned) (sh_state sample_owned)
      (sh_mempool sample_owned) (tx_toLine tx) c srv m'
    \<and> cmd_send sample_env 0 ''bob'' 30 [Some c] nd = Inr (Submitted tx [True], nd1)
    \<and> mining_run sample_env ''m'' ([OuterTest], sample_owned\<lparr>sh_mempool := m'\<rparr>) ([OuterTest], s')
    \<and> doInitNode sample_env nd1 cs = Inr (Synced (chain_height (sh_chain s')), nd2)
    \<and> unat (getBalance (sh_state (nd_shared nd2)) ''bob'') = 30"
proof -
  define nd where "nd = sample_node\<lparr>nd_shared := sample_owned, nd_peers := [sample_peer]\<rparr>"
  have n: "nd_shared nd = sample_owned" "nd_wallet nd = sample_wallet" "nd_peers nd = [sample_peer]"
    by (simp_all add: nd_def sample_node_def)
  have o: "sh_state sample_owned = sample_state" "sh_mempool sample_owned = mempool_empty"
    "\<not> sh_stopFlag sample_owned" "chn_difficulty (sh_chain sample_owned) = 0"
    by (simp_all add: sample_owned_def sample_shared_def)
  define tx where "tx = createSigned sample_env sample_wallet ''bob'' 30
      (getNonce sample_state (wal_address sample_wallet)) 0"
  have p: "plain_text ''bob''" "plain_text ''m''" by (simp_all add: plain_text_def)
  have bal: "(30 :: u64) \<le> getBalance sample_state (wal_address sample_wallet)" by (simp add: sample_state_def)
  have t: "total_supply sample_state + 50 < 2 ^ 64" unfolding sample_state_def by (subst total_credit) simp_all
  have wire: "tx_wire_ok tx" unfolding tx_def by (rule createSigned_wire[OF sample_env_ok sample_wallet_ok p(1)])
  then have "bar_free tx" by (simp add: tx_wire_ok_def)
  then obtain m' where "mempool_add sample_env sample_state tx mempool_empty = Inr ([], m')"
    using represents_add[OF represents_empty sample_env_ok sample_wallet_ok bal, of "''bob''" 0]
    unfolding tx_def by blast
  then obtain c srv where ex: "tx_exchange sample_env (sh_chain sample_owned) sample_state mempool_empty (tx_toLine tx) c srv m'"
    using tx_exchange_exists[OF wire] by blast
  let ?b = "candidate_of sample_env 0 ''m'' 0 [tx_toLine tx] (sh_chain sample_owned)"
  have mine: "mineBlock sample_env ?b = Some ?b" using o(4) by (intro mineBlock_immediate solved_zero) simp
  have len: "length (chn_blocks (sh_chain sample_owned)) < 2 ^ (long_bits (platform sample_env) - 1)"
    by (cases "platform sample_env") (simp_all add: sample_owned_def)
  note paid = payment_crosses_network[of sample_env nd "''bob''" 30 sample_owned sample_peer "''m''" tx 0 c srv m' 0 ?b,
      unfolded n o(1,2), OF sample_env_ok sample_wallet_ok p(1) _ _ bal t sample_owned_step refl
        represents_empty represents_empty o(3) p(2) len tx_def ex mine]
  obtain nd1 s' where r: "cmd_send sample_env 0 ''bob'' 30 [Some c] nd = Inr (Submitted tx [True], nd1)"
    "mining_run sample_env ''m'' ([OuterTest], sample_owned\<lparr>sh_mempool := m'\<rparr>) ([OuterTest], s')"
    "\<forall>cs. peer_answers sample_env (sh_chain s') (sh_state s') (sh_mempool s') cs \<longrightarrow>
       (\<exists>nd2. doInitNode sample_env nd1 cs = Inr (Synced (chain_height (sh_chain s')), nd2)
         \<and> in_step sample_env (nd_shared nd2) s' \<and> represents (sh_mempool (nd_shared nd2)) [tx])"
    "\<forall>a. unat (getBalance (sh_state s') a) + (if a = wal_address sample_wallet then unat (30 :: u64) else 0)
       = unat (getBalance sample_state a) + (if a = ''bob'' then unat (30 :: u64) else 0) + (if a = ''m'' then 50 else 0)
      \<and> getNonce (sh_state s') a = getNonce sample_state a + (if a = wal_address sample_wallet then 1 else 0)"
    using paid by auto
  have "getBalance sample_state ''bob'' = 0" "''bob'' \<noteq> wal_address sample_wallet"
    using sample_address(2) by (auto simp: sample_state_def)
  with r(4)[rule_format, of "''bob''"] have bob: "unat (getBalance (sh_state s') ''bob'') = 30" by simp
  obtain cs where "peer_answers sample_env (sh_chain s') (sh_state s') (sh_mempool s') cs"
    using peer_answers_exists by blast
  with r(3) obtain nd2 where nd2: "doInitNode sample_env nd1 cs = Inr (Synced (chain_height (sh_chain s')), nd2)"
    "in_step sample_env (nd_shared nd2) s'" by blast
  then have "unat (getBalance (sh_state (nd_shared nd2)) ''bob'') = 30" using bob by (simp add: in_step_def)
  with ex r(1,2) nd2(1) show ?thesis unfolding o(1,2) by blast
qed

text \<open>
  C23: A node that does not mine sends one payment. Once its mempool has accepted a payment of its
  wallet, every later \<^verbatim>\<open>send\<close> is rejected, whatever commands, syncs and submissions come in
  between, also when the first payment has long been settled on the node's chain: only the
  node's own workers take it out of the mempool.
\<close>

theorem idle_node_sends_once:
  assumes "cmd_send E now to amount cs nd = Inr (Submitted tx acks, nd1)"
    and "(idle_step E)\<^sup>*\<^sup>* nd1 nd2" "openssl_ok E" "wallet_ok E (nd_wallet nd)"
    and "to' \<noteq> []" "amount' \<noteq> 0"
  shows "cmd_send E now' to' amount' cs' nd2 = Inr (Rejected (
    if getBalance (sh_state (nd_shared nd2)) (wal_address (nd_wallet nd2)) < amount' then ''insufficient balance''
    else ''sender already has a pending tx''), nd2)"
proof -
  have "to \<noteq> [] \<and> amount \<noteq> 0" using assms(1) by (auto simp: cmd_send_def)
  then have "submit_tx E (createSigned E (nd_wallet nd) to amount
      (getNonce (sh_state (nd_shared nd)) (wal_address (nd_wallet nd))) now) cs nd = Inr (Submitted tx acks, nd1)"
    using assms(1) by (simp add: cmd_send_def Let_def)
  from submit_accepted[OF this] obtain m'
    where m: "mempool_add E (sh_state (nd_shared nd)) tx (sh_mempool (nd_shared nd)) = Inr ([], m')"
      "tx = createSigned E (nd_wallet nd) to amount
        (getNonce (sh_state (nd_shared nd)) (wal_address (nd_wallet nd))) now"
      "nd1 = nd\<lparr>nd_shared := (nd_shared nd)\<lparr>sh_mempool := m'\<rparr>\<rparr>" by blast
  have "tx_sender tx \<in> mp_pendingSenders m'" using m(1) by (cases rule: mempool_add_cases) auto
  moreover have w: "nd_wallet nd1 = nd_wallet nd" using m(3) by simp
  moreover have "tx_sender tx = wal_address (nd_wallet nd)" using m(2) by (simp add: createSigned_eq)
  ultimately have pend: "wal_address (nd_wallet nd2) \<in> mp_pendingSenders (sh_mempool (nd_shared nd2))"
    and w2: "nd_wallet nd2 = nd_wallet nd"
    using idle_keeps_pending[OF assms(2)] m(3) by (auto simp: keeps_pending_def)
  let ?tx = "createSigned E (nd_wallet nd2) to' amount'
      (getNonce (sh_state (nd_shared nd2)) (wal_address (nd_wallet nd2))) now'"
  have f: "tx_verify E ?tx = Inr True" "tx_sender ?tx = wal_address (nd_wallet nd2)" "tx_type ?tx = ''TRANSFER''"
    "tx_amount ?tx = amount'" "tx_nonce ?tx = getNonce (sh_state (nd_shared nd2)) (wal_address (nd_wallet nd2))"
    using createSigned_verifies[OF assms(3)] assms(4) w2 by simp_all (simp_all add: createSigned_eq)
  have "mempool_add E (sh_state (nd_shared nd2)) ?tx (sh_mempool (nd_shared nd2)) = Inr (
      if getBalance (sh_state (nd_shared nd2)) (wal_address (nd_wallet nd2)) < amount' then ''insufficient balance''
      else ''sender already has a pending tx'', sh_mempool (nd_shared nd2))"
    using f pend by (simp add: mempool_add_def Let_def)
  with assms(5,6) show ?thesis by (simp add: cmd_send_def submit_tx_def Let_def)
qed

text \<open>The sample owner sends thirty of its fifty coins, syncs without a peer, and sends one more coin.\<close>

theorem idle_node_sends_once_witness:
  "\<exists>nd1 nd2. cmd_send sample_env 1700000000 ''bob'' 30 []
      (sample_node\<lparr>nd_shared := (nd_shared sample_node)\<lparr>sh_state := sample_state\<rparr>\<rparr>) = Inr (Submitted sample_tx [], nd1)
    \<and> (idle_step sample_env)\<^sup>*\<^sup>* nd1 nd2
    \<and> cmd_send sample_env 1700000001 ''eve'' 1 [] nd2 = Inr (Rejected ''sender already has a pending tx'', nd2)"
proof -
  let ?nd = "sample_node\<lparr>nd_shared := (nd_shared sample_node)\<lparr>sh_state := sample_state\<rparr>\<rparr>"
  have f: "sh_mempool (nd_shared ?nd) = mempool_empty" "nd_wallet ?nd = sample_wallet" "nd_peers ?nd = []"
    "sh_state (nd_shared ?nd) = sample_state"
    by (simp_all add: sample_node_def sample_shared_def)
  have n: "getNonce sample_state (wal_address sample_wallet) = 0" by (simp add: sample_state_def)
  obtain m' where m': "mempool_add sample_env sample_state sample_tx mempool_empty = Inr ([], m')"
    using mempool_add_accept[OF sample_admissible] by blast
  define nd1 where "nd1 = ?nd\<lparr>nd_shared := (nd_shared ?nd)\<lparr>sh_mempool := m'\<rparr>\<rparr>"
  have r: "cmd_send sample_env 1700000000 ''bob'' 30 [] ?nd = Inr (Submitted sample_tx [], nd1)"
    using m' unfolding cmd_send_def submit_tx_def f n nd1_def by (simp add: sample_tx_def[symmetric])
  have g: "nd_workers nd1 = []" "nd_peers nd1 = []" "sh_state (nd_shared nd1) = sample_state"
    "nd_wallet nd1 = sample_wallet"
    by (simp_all add: nd1_def sample_node_def)
  have "stream_tokens ''sync'' = [''sync'']" by (rule stream_tokens_last) (simp add: solid_def is_space_def)
  then have "parse_command ''sync'' = InitNode" by (simp add: parse_command_def)
  then have "run_command sample_env \<lparr>in_clock = \<lambda>_. 0, in_conns = [], in_listening = 0\<rparr> (parse_command ''sync'') nd1 = Continue nd1"
    using g(2) by (simp add: of_res_def doInitNode_def)
  then have "node_step sample_env nd1 nd1" by (rule node_step.command)
  then have "idle_step sample_env nd1 nd1" using g(1) by (simp add: idle_step_def)
  then have i: "(idle_step sample_env)\<^sup>*\<^sup>* nd1 nd1" ..
  have "\<not> getBalance sample_state (wal_address sample_wallet) < 1" by (simp add: sample_state_def)
  with idle_node_sends_once[OF r i sample_env_ok, of "''eve''" 1 1700000001 "[]"] f(2) g(3,4) sample_wallet_ok r i
  show ?thesis by auto
qed

end
