(* ===== verification/Forged_Coinbase.thy ===== *)
theory Forged_Coinbase
  imports Network
begin

text \<open>
  A transaction that poses as a coinbase. The ledger tells a coinbase line from a transaction's by
  its first field (\<^verbatim>\<open>applyBlock\<close> in \<^verbatim>\<open>src/state/account.hpp\<close>), and that field is the transaction's own
  type, which neither \<^verbatim>\<open>verify\<close> nor the mempool restricts. Whoever has a key can therefore have a
  miner credit any address with any amount, or end its process.
\<close>

definition forged_coinbase :: "env \<Rightarrow> wallet \<Rightarrow> string \<Rightarrow> string \<Rightarrow> u64 \<Rightarrow> transaction" where
  "forged_coinbase E w addr receiver nonce =
     sign_with E w (tx_default\<lparr>tx_type := ''COINBASE'', tx_sender := addr, tx_receiver := receiver, tx_nonce := nonce\<rparr>)"

lemma forged_fields:
  assumes "openssl_ok E" "wallet_ok E w" "plain_text addr" "plain_text receiver"
  shows "tx_wire_ok (forged_coinbase E w addr receiver nonce)"
    and "tx_verify E (forged_coinbase E w addr receiver nonce) = Inr True"
    and "tx_sender (forged_coinbase E w addr receiver nonce) = addr"
    and "tx_type (forged_coinbase E w addr receiver nonce) \<noteq> ''TRANSFER''"
    and "tx_nonce (forged_coinbase E w addr receiver nonce) = nonce"
proof -
  show "tx_wire_ok (forged_coinbase E w addr receiver nonce)"
    using assms(3,4)
    by (simp add: forged_coinbase_def tx_wire_ok_def bar_free_def newline_free_def plain_text_def sign_with_def
        tx_default_def)
  show "tx_verify E (forged_coinbase E w addr receiver nonce) = Inr True"
    unfolding forged_coinbase_def by (rule sign_with_verifies[OF assms(1,2)])
qed (simp_all add: forged_coinbase_def)

text \<open>A peer has it accepted by any node on which nothing of that sender is pending.\<close>

lemma forged_accepted:
  assumes "openssl_ok E" "wallet_ok E w" "plain_text addr" "plain_text receiver"
    and "represents m []" "tx = forged_coinbase E w addr receiver (getNonce st addr)"
  shows "\<exists>console m'. answer E ch st (''TX '' @ tx_toLine tx) m = Inr (Some (''OK'' @ newline), console, m')
    \<and> represents m' [tx]"
proof -
  note f = forged_fields[OF assms(1-4), of "getNonce st addr", folded assms(6)]
  have "addr \<notin> mp_pendingSenders m" using assms(5) by (simp add: represents_def)
  with f have "admissible E st tx m" unfolding admissible_def by simp
  then obtain m' where m': "mempool_add E st tx m = Inr ([], m')" using mempool_add_accept by blast
  have bf: "bar_free tx" using f(1) by (simp add: tx_wire_ok_def)
  have "represents m' [tx]" using mempool_add_represents[OF m' assms(5) bf] by simp
  with answer_tx[OF bf m', of ch] show ?thesis by auto
qed

text \<open>The ledger reads its line as a coinbase: the sender is credited with the number at the start of the receiver.\<close>

lemma forged_line:
  assumes "plain_text addr"
  shows "\<exists>r. applyLine E (tx_toLine (forged_coinbase E w addr receiver nonce)) st
    = bind_res (stoull (receiver @ CHR ''|'' # r)) (\<lambda>amount. Inr (credit addr amount st))"
proof -
  let ?tx = "forged_coinbase E w addr receiver nonce"
  obtain r where "tx_toLine ?tx = ''COINBASE|'' @ addr @ CHR ''|'' # receiver @ CHR ''|'' # r"
    by (simp add: tx_toLine_def forged_coinbase_def)
  moreover have "CHR ''|'' \<notin> set addr" using assms by (simp add: plain_text_def)
  ultimately show ?thesis
    using applyCoinbase_text[of addr "receiver @ CHR ''|'' # r" st]
    unfolding applyLine_def by (metis starts_with_append)
qed

lemma bar_no_digit: "\<not> is_digit 10 (CHR ''|'')"
  by (simp add: is_digit_def digit_val_def Let_def)

lemma stoull_bar: "stoull (CHR ''|'' # r) = Inl InvalidArgument"
proof -
  have "scan_int 10 (CHR ''|'' # r) = None"
    using bar_no_digit by (auto simp: scan_int_def scan_sign_def is_space_def skip_0x_def split: list.splits)
  then show ?thesis by (simp add: stoull_def strtou_def)
qed

text \<open>A round that has taken it.\<close>

lemma forged_block:
  assumes "mineBlock E (candidate_of E now miner 0 [tx_toLine (forged_coinbase E w addr receiver nonce)] ch) = Some b"
    and "plain_text addr" "CHR ''|'' \<notin> set miner"
  shows "\<exists>r. applyBlock E b st = bind_res (stoull (receiver @ CHR ''|'' # r)) (\<lambda>amount.
    Inr (credit addr amount (credit miner kCoinbaseReward st)))"
proof -
  have "blk_transactions b = [coinbase_line miner kCoinbaseReward, tx_toLine (forged_coinbase E w addr receiver nonce)]"
    using mineBlock_frame(5)[OF assms(1)] by simp
  moreover obtain r where r: "applyLine E (tx_toLine (forged_coinbase E w addr receiver nonce)) (credit miner kCoinbaseReward st)
      = bind_res (stoull (receiver @ CHR ''|'' # r)) (\<lambda>amount. Inr (credit addr amount (credit miner kCoinbaseReward st)))"
    using forged_line[OF assms(2)] by blast
  ultimately show ?thesis
    using applyLine_coinbase[OF assms(3)]
    by (intro exI[of _ r]) (cases "stoull (receiver @ CHR ''|'' # r)"; simp add: applyBlock_def)
qed

subsection \<open>Properties\<close>

text \<open>
  C9: Anyone mints any amount. A peer with any key sends one transaction, whose type is the text
  \<^verbatim>\<open>COINBASE\<close> and whose receiver is a number, to a node that mines with an empty mempool and whose search
  ends; the address holds no bar, comma or newline. The node accepts it, and one round of
  its worker credits the address the peer has named as the sender with that number, beside
  the coinbase of the miner; the chain stays valid, and no nonce changes, so that the same
  transaction can be sent again.
\<close>

theorem forged_coinbase_mints:
  assumes "openssl_ok E" "wallet_ok E w" "plain_text addr"
    and "represents (sh_mempool s) []" "\<not> sh_stopFlag s" "CHR ''|'' \<notin> set miner" "chain_inv E (sh_chain s)"
    and "tx = forged_coinbase E w addr (show_u64 amount) (getNonce (sh_state s) addr)"
    and "mineBlock E (candidate_of E now miner 0 [tx_toLine tx] (sh_chain s)) = Some b"
  shows "\<exists>console m' s'. answer E (sh_chain s) (sh_state s) (''TX '' @ tx_toLine tx) (sh_mempool s)
        = Inr (Some (''OK'' @ newline), console, m')
    \<and> mining_run E miner ([OuterTest], s\<lparr>sh_mempool := m'\<rparr>) ([OuterTest], s')
    \<and> getBalance (sh_state s') = (let rewarded = (getBalance (sh_state s))(miner := getBalance (sh_state s) miner + 50)
        in rewarded(addr := rewarded addr + amount))
    \<and> getNonce (sh_state s') = getNonce (sh_state s)
    \<and> isValid E (sh_chain s')"
proof -
  have num: "plain_text (show_u64 amount)" by (simp add: plain_text_def)
  obtain console m' where a: "answer E (sh_chain s) (sh_state s) (''TX '' @ tx_toLine tx) (sh_mempool s)
      = Inr (Some (''OK'' @ newline), console, m')" "represents m' [tx]"
    using forged_accepted[OF assms(1-3) num assms(4,8)] by blast
  have take: "\<exists>m2. mempool_take kMaxTxPerBlock m' = Inr ([tx_toLine tx], m2)"
    using mempool_take_represents[OF a(2), of 20] by (auto simp: kMaxTxPerBlock_def)
  have "applyBlock E b (sh_state s) = Inr (credit addr amount (credit miner kCoinbaseReward (sh_state s)))"
    using forged_block[OF assms(9)[unfolded assms(8)] assms(3,6), of "sh_state s"]
      stoull_show_u64_then[of "CHR ''|'' # r" amount for r] bar_no_digit by auto
  then obtain s' where s': "mining_run E miner ([OuterTest], s\<lparr>sh_mempool := m'\<rparr>) ([OuterTest], s')"
    "sh_chain s' = (sh_chain s)\<lparr>chn_blocks := chn_blocks (sh_chain s) @ [b]\<rparr>"
    "sh_state s' = credit addr amount (credit miner kCoinbaseReward (sh_state s))"
    using take round_runs[of 0 "[OuterTest]" "s\<lparr>sh_mempool := m'\<rparr>"] assms(5,9) by fastforce
  have "links_to E (last (chn_blocks (sh_chain s))) b"
    using mineBlock_frame(4)[OF assms(9)] mineBlock_solved[OF assms(9)] by (simp add: links_to_def)
  then have "isValid E (sh_chain s')"
    using s'(2) assms(7) by (simp add: isValid_iff chain_inv_def valid_chain_snoc)
  moreover have "getBalance (sh_state s') = (let rewarded = (getBalance (sh_state s))(miner := getBalance (sh_state s) miner + 50)
        in rewarded(addr := rewarded addr + amount))" "getNonce (sh_state s') = getNonce (sh_state s)"
    using s'(3) by (auto simp: kCoinbaseReward_def Let_def fun_eq_iff)
  ultimately show ?thesis using a(1) s'(1) by blast
qed

lemma sample_forged_mine:
  "mineBlock sample_env (candidate_of sample_env 1700000060 ''m'' 0 ls sample_chain)
     = Some (candidate_of sample_env 1700000060 ''m'' 0 ls sample_chain)"
  by (rule sample_mine) (simp add: sample_chain_def)

theorem forged_coinbase_mints_witness:
  "\<exists>tx console m' s'. answer sample_env sample_chain state_empty (''TX '' @ tx_toLine tx) mempool_empty
        = Inr (Some (''OK'' @ newline), console, m')
    \<and> mining_run sample_env ''m'' ([OuterTest], sample_shared\<lparr>sh_mempool := m'\<rparr>) ([OuterTest], s')
    \<and> getBalance (sh_state s') ''eve'' = 1000000"
proof -
  define tx where "tx = forged_coinbase sample_env sample_wallet ''eve'' (show_u64 1000000) (getNonce state_empty ''eve'')"
  have f: "sh_chain sample_shared = sample_chain" "sh_state sample_shared = state_empty"
    "sh_mempool sample_shared = mempool_empty" "\<not> sh_stopFlag sample_shared"
    by (simp_all add: sample_shared_def)
  have p: "plain_text ''eve''" "CHR ''|'' \<notin> set ''m''" by (simp_all add: plain_text_def)
  note m = forged_coinbase_mints[of sample_env sample_wallet "''eve''" sample_shared "''m''" tx 1000000 1700000060,
      unfolded f(1-3), OF sample_env_ok sample_wallet_ok p(1) represents_empty f(4) p(2) sample_chain_inv(1) tx_def
        sample_forged_mine]
  obtain console m' s' where r: "answer sample_env sample_chain state_empty (''TX '' @ tx_toLine tx) mempool_empty
        = Inr (Some (''OK'' @ newline), console, m')"
    "mining_run sample_env ''m'' ([OuterTest], sample_shared\<lparr>sh_mempool := m'\<rparr>) ([OuterTest], s')"
    "getBalance (sh_state s') = (let rewarded = (getBalance state_empty)(''m'' := getBalance state_empty ''m'' + 50)
        in rewarded(''eve'' := rewarded ''eve'' + 1000000))"
    using m by blast
  moreover have "getBalance (sh_state s') ''eve'' = 1000000" unfolding r(3) by (simp add: Let_def)
  ultimately show ?thesis by blast
qed

text \<open>
  C20: Anyone ends a miner, and whoever syncs its chain. When the receiver of such a transaction is
  empty, which is no number, a node that mines accepts it too; its worker then appends a block with it to the
  chain and throws when it applies the block, which ends the process, and from then on the
  replay of that chain throws on every node, whatever it held before.
\<close>

theorem forged_coinbase_ends_miner:
  assumes "openssl_ok E" "wallet_ok E w" "plain_text addr"
    and "represents (sh_mempool s) []" "\<not> sh_stopFlag s" "CHR ''|'' \<notin> set miner" "chain_inv E (sh_chain s)"
    and "tx = forged_coinbase E w addr [] (getNonce (sh_state s) addr)"
    and "mineBlock E (candidate_of E now miner 0 [tx_toLine tx] (sh_chain s)) = Some b"
  shows "\<exists>console m' s'. answer E (sh_chain s) (sh_state s) (''TX '' @ tx_toLine tx) (sh_mempool s)
        = Inr (Some (''OK'' @ newline), console, m')
    \<and> mining_run E miner ([OuterTest], s\<lparr>sh_mempool := m'\<rparr>) ([Apply b], s')
    \<and> worker_step E t miner 0 (Apply b) s' = Inl InvalidArgument
    \<and> isValid E (sh_chain s') \<and> chn_blocks (sh_chain s') = chn_blocks (sh_chain s) @ [b]
    \<and> (\<forall>st. \<exists>e. rebuildFromBlocks E (chn_blocks (sh_chain s')) st = Inl e)"
proof -
  have nil: "plain_text []" by (simp add: plain_text_def)
  obtain console m' where a: "answer E (sh_chain s) (sh_state s) (''TX '' @ tx_toLine tx) (sh_mempool s)
      = Inr (Some (''OK'' @ newline), console, m')" "represents m' [tx]"
    using forged_accepted[OF assms(1-3) nil assms(4,8)] by blast
  obtain m2 where take: "mempool_take kMaxTxPerBlock m' = Inr ([tx_toLine tx], m2)"
    using mempool_take_represents[OF a(2), of 20] by (auto simp: kMaxTxPerBlock_def)
  let ?s = "\<lambda>h. s\<lparr>sh_mempool := m2, sh_hashes := h,
      sh_chain := (sh_chain s)\<lparr>chn_blocks := chn_blocks (sh_chain s) @ [b]\<rparr>\<rparr>"
  obtain h where run: "mining_run E miner ([OuterTest], s\<lparr>sh_mempool := m'\<rparr>) ([Apply b], ?s h)"
    using run_to_apply[of "s\<lparr>sh_mempool := m'\<rparr>" "[tx_toLine tx]" m2 0 "[OuterTest]" E now miner b] take assms(5,9) by auto
  have throws: "applyBlock E b st = Inl InvalidArgument" for st
    using forged_block[OF assms(9)[unfolded assms(8)] assms(3,6), of st] stoull_bar by auto
  have "links_to E (last (chn_blocks (sh_chain s))) b"
    using mineBlock_frame(4)[OF assms(9)] mineBlock_solved[OF assms(9)] by (simp add: links_to_def)
  then have "isValid E (sh_chain (?s h))" using assms(7) by (simp add: isValid_iff chain_inv_def valid_chain_snoc)
  moreover have "\<exists>e. rebuildFromBlocks E (chn_blocks (sh_chain (?s h))) st = Inl e" for st
    using throws by (auto simp: rebuild_snoc bind_res_def split: sum.split)
  moreover have "worker_step E t miner 0 (Apply b) (?s h) = Inl InvalidArgument" using throws by simp
  ultimately show ?thesis using a(1) run by (intro exI[of _ console] exI[of _ m'] exI[of _ "?s h"]) simp
qed

theorem forged_coinbase_ends_miner_witness:
  "\<exists>tx b console m' s'. answer sample_env sample_chain state_empty (''TX '' @ tx_toLine tx) mempool_empty
        = Inr (Some (''OK'' @ newline), console, m')
    \<and> mining_run sample_env ''m'' ([OuterTest], sample_shared\<lparr>sh_mempool := m'\<rparr>) ([Apply b], s')
    \<and> worker_step sample_env 0 ''m'' 0 (Apply b) s' = Inl InvalidArgument"
proof -
  define tx where "tx = forged_coinbase sample_env sample_wallet ''eve'' [] (getNonce state_empty ''eve'')"
  have f: "sh_chain sample_shared = sample_chain" "sh_state sample_shared = state_empty"
    "sh_mempool sample_shared = mempool_empty" "\<not> sh_stopFlag sample_shared"
    by (simp_all add: sample_shared_def)
  have p: "plain_text ''eve''" "CHR ''|'' \<notin> set ''m''" by (simp_all add: plain_text_def)
  note e = forged_coinbase_ends_miner[of sample_env sample_wallet "''eve''" sample_shared "''m''" tx 1700000060 _ 0,
      unfolded f(1-3), OF sample_env_ok sample_wallet_ok p(1) represents_empty f(4) p(2) sample_chain_inv(1) tx_def
        sample_forged_mine]
  then show ?thesis by blast
qed

end
