(* ===== verification/Sync_Race.thy ===== *)
theory Sync_Race
  imports Node_Theorems
begin

text \<open>
  The end of \<^verbatim>\<open>doInitNode\<close> in \<^verbatim>\<open>src/node/main.cpp\<close>, one lock at a time. The main thread replaces the chain,
  clears the state, applies the new blocks one by one, and loads and stores the published height
  and difficulty; each is a step of its own, and the mining threads move in between. With every worker finished this
  is the handler that \<^verbatim>\<open>Node\<close> runs as one step; with a worker that has appended a block and not
  yet applied it, the state gets a block that is not on the chain any more.
\<close>

subsection \<open>The main thread during a sync\<close>

datatype sync_pc =
    SyncReplace "block list"
  | SyncClear "block list"
  | SyncReplay "block list"
  | SyncHeight
  | SyncStoreHeight u64
  | SyncDifficulty
  | SyncStoreDifficulty u32
  | SyncEnd bool

fun sync_move :: "env \<Rightarrow> sync_pc \<Rightarrow> shared \<Rightarrow> (sync_pc \<times> shared) res" where
  "sync_move E (SyncReplace blocks) s =
     (case replaceIfLongerAndValid E blocks (sh_chain s) of (ok, ch') \<Rightarrow>
        Inr (if ok then SyncClear blocks else SyncEnd False, s\<lparr>sh_chain := ch'\<rparr>))"
| "sync_move E (SyncClear blocks) s =
     Inr (SyncReplay blocks, s\<lparr>sh_state := (sh_state s)\<lparr>st_accounts := Map.empty, st_usernames := Map.empty\<rparr>\<rparr>)"
| "sync_move E (SyncReplay []) s = Inr (SyncHeight, s)"
| "sync_move E (SyncReplay (b # bs)) s =
     bind_res (applyBlock E b (sh_state s)) (\<lambda>st'. Inr (SyncReplay bs, s\<lparr>sh_state := st'\<rparr>))"
| "sync_move E SyncHeight s = Inr (SyncStoreHeight (chain_height (sh_chain s)), s)"
| "sync_move E (SyncStoreHeight h) s =
     Inr (SyncDifficulty, s\<lparr>sh_status := (sh_status s)\<lparr>ns_height := h\<rparr>\<rparr>)"
| "sync_move E SyncDifficulty s = Inr (SyncStoreDifficulty (chn_difficulty (sh_chain s)), s)"
| "sync_move E (SyncStoreDifficulty d) s =
     Inr (SyncEnd True, s\<lparr>sh_status := (sh_status s)\<lparr>ns_difficulty := d\<rparr>\<rparr>)"
| "sync_move E (SyncEnd ok) s = Inr (SyncEnd ok, s)"

type_synonym syncing = "sync_pc \<times> node_threads"

text \<open>
  While the main thread syncs it takes no command, so of the other threads only workers, the hash
  rate thread and peers that submit transactions move.
\<close>

inductive sync_step :: "env \<Rightarrow> string \<Rightarrow> syncing \<Rightarrow> syncing \<Rightarrow> bool" for E :: env and addr :: string where
  main: "sync_move E sp s = Inr (sp', s') \<Longrightarrow> sync_step E addr (sp, pcs, s) (sp', pcs, s')"
| worker: "i < length pcs \<Longrightarrow> worker_step E now addr i (pcs ! i) s = Inr (pc', s') \<Longrightarrow>
    sync_step E addr (sp, pcs, s) (sp, pcs[i := pc'], s')"
| submit: "mempool_add E (sh_state s) tx (sh_mempool s) = Inr (err, m') \<Longrightarrow>
    sync_step E addr (sp, pcs, s) (sp, pcs, s\<lparr>sh_mempool := m'\<rparr>)"
| hashrate: "sync_step E addr (sp, pcs, s) (sp, pcs, hashrate_turn s)"

abbreviation sync_run :: "env \<Rightarrow> string \<Rightarrow> syncing \<Rightarrow> syncing \<Rightarrow> bool" where
  "sync_run E addr \<equiv> (sync_step E addr)\<^sup>*\<^sup>*"

subsection \<open>Without workers\<close>

text \<open>How far the replay of the new chain has come.\<close>

definition adopted :: "env \<Rightarrow> block list \<Rightarrow> chain \<Rightarrow> shared \<Rightarrow> bool" where
  "adopted E blocks ch0 s \<longleftrightarrow> replaceIfLongerAndValid E blocks ch0 = (True, sh_chain s)"

fun replayed :: "env \<Rightarrow> block list \<Rightarrow> chain \<Rightarrow> sync_pc \<Rightarrow> shared \<Rightarrow> bool" where
  "replayed E blocks ch0 (SyncReplace bs) s \<longleftrightarrow> bs = blocks \<and> sh_chain s = ch0"
| "replayed E blocks ch0 (SyncClear bs) s \<longleftrightarrow> bs = blocks \<and> adopted E blocks ch0 s"
| "replayed E blocks ch0 (SyncReplay rest) s \<longleftrightarrow> adopted E blocks ch0 s
     \<and> (\<exists>done_blocks. blocks = done_blocks @ rest
          \<and> fold_res (applyBlock E) done_blocks state_empty = Inr (sh_state s))"
| "replayed E blocks ch0 SyncHeight s \<longleftrightarrow> adopted E blocks ch0 s
     \<and> fold_res (applyBlock E) blocks state_empty = Inr (sh_state s)"
| "replayed E blocks ch0 (SyncStoreHeight h) s \<longleftrightarrow> adopted E blocks ch0 s
     \<and> fold_res (applyBlock E) blocks state_empty = Inr (sh_state s) \<and> h = chain_height (sh_chain s)"
| "replayed E blocks ch0 (SyncStoreDifficulty d) s \<longleftrightarrow> adopted E blocks ch0 s
     \<and> fold_res (applyBlock E) blocks state_empty = Inr (sh_state s)
     \<and> ns_height (sh_status s) = chain_height (sh_chain s) \<and> d = chn_difficulty (sh_chain s)"
| "replayed E blocks ch0 SyncDifficulty s \<longleftrightarrow> adopted E blocks ch0 s
     \<and> fold_res (applyBlock E) blocks state_empty = Inr (sh_state s)
     \<and> ns_height (sh_status s) = chain_height (sh_chain s)"
| "replayed E blocks ch0 (SyncEnd ok) s \<longleftrightarrow> replaceIfLongerAndValid E blocks ch0 = (ok, sh_chain s)
     \<and> (ok \<longrightarrow> fold_res (applyBlock E) blocks state_empty = Inr (sh_state s)
          \<and> ns_height (sh_status s) = chain_height (sh_chain s)
          \<and> ns_difficulty (sh_status s) = chn_difficulty (sh_chain s))"

definition quiet_inv :: "env \<Rightarrow> block list \<Rightarrow> chain \<Rightarrow> syncing \<Rightarrow> bool" where
  "quiet_inv E blocks ch0 sy \<longleftrightarrow>
     (case sy of (sp, pcs, s) \<Rightarrow> (\<forall>p \<in> set pcs. p = Finished) \<and> replayed E blocks ch0 sp s)"

definition quiet_init :: "block list \<Rightarrow> chain \<Rightarrow> syncing \<Rightarrow> bool" where
  "quiet_init blocks ch0 sy \<longleftrightarrow>
     (case sy of (sp, pcs, s) \<Rightarrow> (\<forall>p \<in> set pcs. p = Finished) \<and> sp = SyncReplace blocks \<and> sh_chain s = ch0)"

lemma replayed_frame:
  assumes "replayed E blocks ch0 sp s" "sh_chain s' = sh_chain s" "sh_state s' = sh_state s"
    "ns_height (sh_status s') = ns_height (sh_status s)" "ns_difficulty (sh_status s') = ns_difficulty (sh_status s)"
  shows "replayed E blocks ch0 sp s'"
  using assms by (cases sp) (auto simp: adopted_def)

lemma replayed_move:
  assumes "sync_move E sp s = Inr (sp', s')" "replayed E blocks ch0 sp s"
  shows "replayed E blocks ch0 sp' s'"
proof (cases sp)
  case (SyncReplace bs)
  with assms show ?thesis by (auto simp: adopted_def split: prod.splits if_splits)
next
  case (SyncReplay rest)
  show ?thesis
  proof (cases rest)
    case Nil
    with SyncReplay assms show ?thesis by simp
  next
    case (Cons b bs)
    with SyncReplay assms(1) obtain st' where st': "applyBlock E b (sh_state s) = Inr st'"
      "sp' = SyncReplay bs" "s' = s\<lparr>sh_state := st'\<rparr>" by (auto simp: bind_res_Inr_iff)
    obtain ds where ds: "blocks = ds @ b # bs" "fold_res (applyBlock E) ds state_empty = Inr (sh_state s)"
      using assms(2) SyncReplay Cons by auto
    from fold_res_snoc[OF ds(2) st'(1)] ds(1) st' assms(2) SyncReplay show ?thesis
      by (auto simp: adopted_def intro!: exI[of _ "ds @ [b]"])
  qed
qed (use assms in \<open>auto simp: adopted_def state_empty_def intro!: exI[of _ "[]"]\<close>)

lemma quiet_step:
  assumes "sync_step E addr sy sy'" "quiet_inv E blocks ch0 sy"
  shows "quiet_inv E blocks ch0 sy'"
  using assms(1)
proof cases
  case (main sp s sp' s' pcs)
  with assms(2) replayed_move show ?thesis by (auto simp: quiet_inv_def)
next
  case (worker i pcs now s pc' s' sp)
  then have "pcs ! i = Finished" using assms(2) by (auto simp: quiet_inv_def)
  with worker assms(2) show ?thesis by (auto simp: quiet_inv_def dest: set_update_subset_insert[THEN subsetD])
qed (use assms(2) in \<open>auto simp: quiet_inv_def hashrate_turn_def elim!: replayed_frame\<close>)

lemma quiet_start: "quiet_init blocks ch0 sy \<Longrightarrow> quiet_inv E blocks ch0 sy"
  by (auto simp: quiet_init_def quiet_inv_def)

interpretation quiet: invariant_system "quiet_init blocks ch0" "sync_step E addr" "quiet_inv E blocks ch0"
  for E addr blocks ch0
  by unfold_locales (erule quiet_start, erule (1) quiet_step)

subsection \<open>With a worker in the middle of a round\<close>

lemma run_main:
  assumes "sync_move E sp s = Inr (sp', s')"
  shows "sync_run E addr (sp, pcs, s) (sp', pcs, s')"
  using sync_step.main[OF assms] by (rule r_into_rtranclp)

lemma run_replay:
  "fold_res (applyBlock E) bs (sh_state s) = Inr st' \<Longrightarrow>
   sync_run E addr (SyncReplay bs, pcs, s) (SyncReplay [], pcs, s\<lparr>sh_state := st'\<rparr>)"
proof (induction bs arbitrary: s)
  case (Cons b bs)
  then obtain st1 where st1: "applyBlock E b (sh_state s) = Inr st1"
    "fold_res (applyBlock E) bs st1 = Inr st'" by (auto simp: bind_res_Inr_iff)
  have "sync_run E addr (SyncReplay (b # bs), pcs, s) (SyncReplay bs, pcs, s\<lparr>sh_state := st1\<rparr>)"
    by (rule run_main) (simp add: st1(1))
  with Cons.IH[of "s\<lparr>sh_state := st1\<rparr>"] st1(2) show ?case by (simp add: rtranclp_trans)
qed auto

text \<open>A sync that nothing disturbs.\<close>

lemma run_sync:
  assumes "replaceIfLongerAndValid E blocks (sh_chain s) = (True, ch')"
    and "rebuildFromBlocks E blocks (sh_state s) = Inr st'"
  shows "sync_run E addr (SyncReplace blocks, pcs, s)
    (SyncEnd True, pcs, refreshHeightStatus (s\<lparr>sh_chain := ch', sh_state := st'\<rparr>))"
proof -
  let ?s1 = "s\<lparr>sh_chain := ch'\<rparr>" and ?s2 = "s\<lparr>sh_chain := ch', sh_state := state_empty\<rparr>"
    and ?s3 = "s\<lparr>sh_chain := ch', sh_state := st'\<rparr>"
  let ?s4 = "?s3\<lparr>sh_status := (sh_status ?s3)\<lparr>ns_height := chain_height (sh_chain ?s3)\<rparr>\<rparr>"
  have "sync_run E addr (SyncReplace blocks, pcs, s) (SyncClear blocks, pcs, ?s1)"
    by (rule run_main) (simp add: assms(1))
  moreover have "sync_run E addr (SyncClear blocks, pcs, ?s1) (SyncReplay blocks, pcs, ?s2)"
    by (rule run_main) (simp add: state_empty_def)
  moreover have "sync_run E addr (SyncReplay blocks, pcs, ?s2) (SyncReplay [], pcs, ?s3)"
    using run_replay[of E blocks ?s2 st'] assms(2) by (simp add: rebuild_eq)
  moreover have "sync_run E addr (SyncReplay [], pcs, ?s3) (SyncHeight, pcs, ?s3)"
    by (rule run_main) simp
  moreover have "sync_run E addr (SyncHeight, pcs, ?s3) (SyncStoreHeight (chain_height (sh_chain ?s3)), pcs, ?s3)"
    "sync_run E addr (SyncStoreHeight (chain_height (sh_chain ?s3)), pcs, ?s3) (SyncDifficulty, pcs, ?s4)"
    "sync_run E addr (SyncDifficulty, pcs, ?s4) (SyncStoreDifficulty (chn_difficulty (sh_chain ?s4)), pcs, ?s4)"
    by (rule run_main, simp)+
  moreover have "sync_run E addr (SyncStoreDifficulty (chn_difficulty (sh_chain ?s4)), pcs, ?s4)
      (SyncEnd True, pcs, refreshHeightStatus ?s3)"
    by (rule run_main) (simp add: refreshHeightStatus_def)
  ultimately show ?thesis by (meson rtranclp_trans)
qed

subsection \<open>Properties\<close>

text \<open>
  Without mining, the sync is atomic. When every worker has finished, the last part of the sync,
  lock by lock and interleaved with peers that submit transactions and with the hash rate
  thread, ends as the handler that runs in one step does: the chain is replaced or kept, and a
  node that adopts the new chain holds its replay and publishes its height and difficulty.
\<close>

lemma quiet_sync:
  assumes "\<forall>p \<in> set pcs. p = Finished"
    and "sync_run E addr (SyncReplace blocks, pcs, s) (SyncEnd ok, pcs', s')"
  shows "replaceIfLongerAndValid E blocks (sh_chain s) = (ok, sh_chain s')
    \<and> (ok \<longrightarrow> rebuildFromBlocks E blocks (sh_state s) = Inr (sh_state s')
        \<and> ns_height (sh_status s') = chain_height (sh_chain s')
        \<and> ns_difficulty (sh_status s') = chn_difficulty (sh_chain s'))"
proof -
  have "quiet_inv E blocks (sh_chain s) (SyncReplace blocks, pcs, s)" using assms(1) by (simp add: quiet_inv_def)
  from quiet.steps_inv[OF assms(2) this] show ?thesis by (auto simp: quiet_inv_def rebuild_eq)
qed

definition sample_third :: block where
  "sample_third = buildCandidate sample_env 1700000120 [''COINBASE|m|50''] sample_peer_chain"

definition sample_longer :: "block list" where
  "sample_longer = [sample_genesis, sample_next, sample_third]"

lemma sample_longer_ok: "valid_chain sample_env sample_longer" "heights_count sample_longer"
proof -
  have "mineBlock sample_env sample_third = Some sample_third"
    by (rule sample_mine) (simp add: sample_third_def buildCandidate_def sample_peer_chain_def)
  then have "links_to sample_env sample_next sample_third"
    using mined_candidate(1)[of sample_env 1700000120 "[''COINBASE|m|50'']" sample_peer_chain sample_third]
    by (simp add: sample_third_def sample_peer_chain_def)
  then show "valid_chain sample_env sample_longer"
    using valid_chain_snoc[of "[sample_genesis, sample_next]" sample_env sample_third] sample_two_blocks(1)
    by (simp add: sample_longer_def)
  show "heights_count sample_longer"
    using sample_two_blocks(2)
    by (auto simp: heights_count_def sample_longer_def less_Suc_eq sample_third_def buildCandidate_def
        sample_peer_chain_def sample_next_def sample_chain_def sample_genesis_def genesis_candidate_def)
qed

lemma sample_longer_replay:
  "rebuildFromBlocks sample_env sample_longer st = Inr (credit ''m'' 50 (credit ''m'' 50 state_empty))"
proof -
  have l: "''COINBASE|m|50'' = coinbase_line ''m'' 50"
    by (simp add: coinbase_line_def show_u64_def show_nat.simps digit_char_def char_of_def bit_0)
  have "applyBlock sample_env sample_third st = Inr (credit ''m'' 50 st)" for st
    using applyLine_coinbase[of "''m''" sample_env 50 st] l
    by (simp add: applyBlock_def sample_third_def buildCandidate_def)
  moreover have "applyBlock sample_env sample_next st = Inr (credit ''m'' 50 st)" for st
    using applyLine_coinbase[of "''m''" sample_env 50 st] l
    by (simp add: applyBlock_def sample_next_def buildCandidate_def)
  ultimately show ?thesis by (simp add: rebuild_eq sample_longer_def sample_genesis_apply)
qed

lemma sample_replace:
  assumes "length (chn_blocks c) < 3"
  shows "\<exists>ch'. replaceIfLongerAndValid sample_env sample_longer c = (True, ch') \<and> chn_blocks ch' = sample_longer"
  using assms sample_longer_ok by (simp add: replace_eq sample_longer_def)

lemma quiet_sync_example:
  "\<exists>s'. sync_run sample_env ''m'' (SyncReplace sample_longer, [Finished], sample_shared) (SyncEnd True, [Finished], s')
    \<and> sh_state s' = credit ''m'' 50 (credit ''m'' 50 state_empty) \<and> ns_height (sh_status s') = chain_height (sh_chain s')"
proof -
  obtain ch' where r: "replaceIfLongerAndValid sample_env sample_longer (sh_chain sample_shared) = (True, ch')"
    using sample_replace[of "sh_chain sample_shared"] by (auto simp: sample_shared_def sample_chain_def)
  obtain s' where run: "sync_run sample_env ''m'' (SyncReplace sample_longer, [Finished], sample_shared) (SyncEnd True, [Finished], s')"
    using run_sync[OF r sample_longer_replay] by blast
  have "\<forall>p \<in> set [Finished]. p = Finished" by simp
  from quiet_sync[OF this run] run sample_longer_replay show ?thesis by auto
qed

text \<open>
  C26: A sync during mining can leave money that is on no chain. When a worker has appended an empty
  block of its own and not yet applied it, the sync may replace the chain and replay the new
  one before the worker goes on; the worker then applies its block, which the new chain does not
  hold, so that the miner's balance is 50 above the replay of the node's own chain.
\<close>

theorem sync_race_mints:
  assumes "i < length pcs" "pcs ! i = Apply b"
    and "replaceIfLongerAndValid E blocks (sh_chain s) = (True, ch')"
    and "rebuildFromBlocks E blocks (sh_state s) = Inr st'"
    and "blk_transactions b = [coinbase_line addr kCoinbaseReward]" "CHR ''|'' \<notin> set addr"
  shows "\<exists>s'. sync_run E addr (SyncReplace blocks, pcs, s) (SyncEnd True, pcs[i := PubHeight], s')
    \<and> chn_blocks (sh_chain s') = blocks
    \<and> rebuildFromBlocks E (chn_blocks (sh_chain s')) state_empty = Inr st'
    \<and> getBalance (sh_state s') addr = getBalance st' addr + 50 \<and> sh_state s' \<noteq> st'"
proof -
  let ?s1 = "refreshHeightStatus (s\<lparr>sh_chain := ch', sh_state := st'\<rparr>)"
  let ?s2 = "?s1\<lparr>sh_state := credit addr 50 st'\<rparr>"
  have "applyBlock E b st' = Inr (credit addr 50 st')"
    using applyLine_coinbase[OF assms(6), of E kCoinbaseReward st'] assms(5)
    by (simp add: applyBlock_def kCoinbaseReward_def)
  then have "worker_step E 0 addr i (pcs ! i) ?s1 = Inr (PubHeight, ?s2)" using assms(2) by simp
  from rtranclp.rtrancl_into_rtrancl[OF run_sync[OF assms(3,4)] sync_step.worker[OF assms(1) this]]
  have run: "sync_run E addr (SyncReplace blocks, pcs, s) (SyncEnd True, pcs[i := PubHeight], ?s2)" .
  have "chn_blocks ch' = blocks" using assms(3) by (auto simp: replaceIfLongerAndValid_def split: if_splits)
  moreover have "getBalance (credit addr 50 st') addr = getBalance st' addr + 50" by simp
  moreover have "credit addr 50 st' \<noteq> st'"
  proof
    assume "credit addr 50 st' = st'"
    then have "getBalance st' addr = ((getBalance st')(addr := getBalance st' addr + 50)) addr"
      by (metis credit_view(1))
    then have "getBalance st' addr = getBalance st' addr + 50" by (simp only: fun_upd_same)
    then show False by simp
  qed
  ultimately show ?thesis using run assms(4) by (intro exI[of _ ?s2]) (simp add: rebuild_eq)
qed

theorem sync_race_mints_witness:
  "\<exists>s s' st. mining_run sample_env ''m'' ([OuterTest], sample_shared) ([Apply sample_round_block], s)
    \<and> sync_run sample_env ''m'' (SyncReplace sample_longer, [Apply sample_round_block], s) (SyncEnd True, [PubHeight], s')
    \<and> rebuildFromBlocks sample_env (chn_blocks (sh_chain s')) state_empty = Inr st
    \<and> getBalance st ''m'' = 100 \<and> getBalance (sh_state s') ''m'' = 150"
proof -
  have mine: "mineBlock sample_env (candidate_of sample_env 1700000060 ''m'' 0 [] (sh_chain sample_shared)) = Some sample_round_block"
    unfolding sample_round_block_def
    by (simp add: sample_shared_def) (rule sample_mine, simp add: sample_chain_def)
  have take: "mempool_take kMaxTxPerBlock (sh_mempool sample_shared) = Inr ([], mempool_empty)"
    by (simp add: sample_shared_def mempool_take_def mempool_empty_def)
  obtain h where run: "mining_run sample_env ''m'' ([OuterTest], sample_shared) ([Apply sample_round_block],
      sample_shared\<lparr>sh_mempool := mempool_empty, sh_hashes := h,
        sh_chain := (sh_chain sample_shared)\<lparr>chn_blocks := chn_blocks (sh_chain sample_shared) @ [sample_round_block]\<rparr>\<rparr>)"
    using run_to_apply[OF _ take _ mine, of "[OuterTest]"] by (auto simp: sample_shared_def)
  let ?s = "sample_shared\<lparr>sh_mempool := mempool_empty, sh_hashes := h,
        sh_chain := (sh_chain sample_shared)\<lparr>chn_blocks := chn_blocks (sh_chain sample_shared) @ [sample_round_block]\<rparr>\<rparr>"
  obtain ch' where r: "replaceIfLongerAndValid sample_env sample_longer (sh_chain ?s) = (True, ch')"
    using sample_replace[of "sh_chain ?s"] by (auto simp: sample_shared_def sample_chain_def)
  have "blk_transactions sample_round_block = [coinbase_line ''m'' kCoinbaseReward]"
    by (simp add: sample_round_block_def)
  from sync_race_mints[OF _ _ r sample_longer_replay this, of 0 "[Apply sample_round_block]"] run
  show ?thesis by fastforce
qed

end
