(* ===== verification/Submission.thy ===== *)
theory Submission
  imports Node_Theorems
begin

text \<open>
  Submitting transactions concurrently. \<^verbatim>\<open>Mempool::add\<close> of \<^verbatim>\<open>src/mempool/mempool.hpp\<close> checks the
  signature, takes the mempool's mutex and asks the state store twice, under the store's own
  mutex, before it inserts. Here each of these is a step of its own, for any number of threads
  that submit, between the steps of the mining workers. The mutex is a flag; \<^verbatim>\<open>take\<close> waits for it.
  The look at the pending senders and the two insertions, all under the mutex, are one step here;
  \<^verbatim>\<open>Submission_Order\<close> takes them apart, and \<^verbatim>\<open>take\<close> too, and shows that it may be one.
\<close>

subsection \<open>One submission\<close>

datatype add_pc = AddVerify | AddLock | AddNonce | AddBalance | AddInsert | AddEnd string

text \<open>The program points at which \<^verbatim>\<open>lock_guard\<close> holds the mutex.\<close>

fun holds :: "add_pc \<Rightarrow> bool" where
  "holds AddNonce \<longleftrightarrow> True"
| "holds AddBalance \<longleftrightarrow> True"
| "holds AddInsert \<longleftrightarrow> True"
| "holds _ \<longleftrightarrow> False"

fun add_move :: "env \<Rightarrow> transaction \<Rightarrow> add_pc \<Rightarrow> shared \<Rightarrow> (add_pc \<times> shared) res" where
  "add_move E tx AddVerify s =
     bind_res (tx_verify E tx) (\<lambda>ok. Inr (if \<not> ok then AddEnd ''invalid signature'' else AddLock, s))"
| "add_move E tx AddLock s = Inr (AddNonce, s)"
| "add_move E tx AddNonce s =
     (let expectedNonce = getNonce (sh_state s) (tx_sender tx)
      in Inr (if tx_nonce tx \<noteq> expectedNonce then AddEnd (''bad nonce (expected '' @ show_u64 expectedNonce @ '')'')
              else AddBalance, s))"
| "add_move E tx AddBalance s =
     Inr (if tx_type tx = ''TRANSFER'' \<and> getBalance (sh_state s) (tx_sender tx) < tx_amount tx
          then AddEnd ''insufficient balance'' else AddInsert, s)"
| "add_move E tx AddInsert s =
     (let m = sh_mempool s
      in Inr (if tx_sender tx \<in> mp_pendingSenders m then (AddEnd ''sender already has a pending tx'', s)
              else (AddEnd [], s\<lparr>sh_mempool := m\<lparr>mp_pendingSenders := insert (tx_sender tx) (mp_pendingSenders m),
                                                 mp_pending := mp_pending m @ [tx_toLine tx]\<rparr>\<rparr>)))"
| "add_move E tx (AddEnd err) s = Inr (AddEnd err, s)"

subsection \<open>The threads\<close>

type_synonym submitting = "(transaction \<times> add_pc) list \<times> bool \<times> node_threads"

definition lock_after :: "add_pc \<Rightarrow> add_pc \<Rightarrow> bool \<Rightarrow> bool" where
  "lock_after p p' locked = (if holds p' then True else if holds p then False else locked)"

inductive submit_step :: "env \<Rightarrow> string \<Rightarrow> submitting \<Rightarrow> submitting \<Rightarrow> bool" for E :: env and addr :: string where
  arrive: "bar_free tx \<Longrightarrow> submit_step E addr (adders, locked, pcs, s) (adders @ [(tx, AddVerify)], locked, pcs, s)"
| add: "k < length adders \<Longrightarrow> adders ! k = (tx, p) \<Longrightarrow> (p = AddLock \<Longrightarrow> \<not> locked) \<Longrightarrow>
    add_move E tx p s = Inr (p', s') \<Longrightarrow>
    submit_step E addr (adders, locked, pcs, s) (adders[k := (tx, p')], lock_after p p' locked, pcs, s')"
| worker: "i < length pcs \<Longrightarrow> (pcs ! i = TakeTxs \<Longrightarrow> \<not> locked) \<Longrightarrow>
    worker_step E now addr i (pcs ! i) s = Inr (pc', s') \<Longrightarrow>
    submit_step E addr (adders, locked, pcs, s) (adders, locked, pcs[i := pc'], s')"
| retarget: "submit_step E addr (adders, locked, pcs, s) (adders, locked, pcs,
    s\<lparr>sh_chain := setDifficulty d (sh_chain s), sh_status := (sh_status s)\<lparr>ns_difficulty := d\<rparr>\<rparr>)"
| hashrate: "submit_step E addr (adders, locked, pcs, s) (adders, locked, pcs, hashrate_turn s)"
| stop_request: "submit_step E addr (adders, locked, pcs, s) (adders, locked, pcs, miner_stop_request s)"

abbreviation submit_run :: "env \<Rightarrow> string \<Rightarrow> submitting \<Rightarrow> submitting \<Rightarrow> bool" where
  "submit_run E addr \<equiv> (submit_step E addr)\<^sup>*\<^sup>*"

subsection \<open>Invariant\<close>

definition holders :: "(transaction \<times> add_pc) list \<Rightarrow> nat" where
  "holders adders = length (filter (\<lambda>(tx, p). holds p) adders)"

text \<open>A submission past its check of the signature.\<close>

fun verified :: "add_pc \<Rightarrow> bool" where
  "verified AddVerify \<longleftrightarrow> False"
| "verified (AddEnd err) \<longleftrightarrow> err = []"
| "verified _ \<longleftrightarrow> True"

definition adder_ok :: "env \<Rightarrow> transaction \<times> add_pc \<Rightarrow> bool" where
  "adder_ok E a \<longleftrightarrow> bar_free (fst a) \<and> (verified (snd a) \<longrightarrow> tx_verify E (fst a) = Inr True)"

definition queue_ok :: "env \<Rightarrow> mempool \<Rightarrow> bool" where
  "queue_ok E m \<longleftrightarrow> (\<exists>txs. represents m txs \<and> (\<forall>tx \<in> set txs. tx_verify E tx = Inr True))"

definition submit_inv :: "env \<Rightarrow> submitting \<Rightarrow> bool" where
  "submit_inv E sy \<longleftrightarrow> (case sy of (adders, locked, pcs, s) \<Rightarrow>
     mining_inv E (pcs, s) \<and> queue_ok E (sh_mempool s) \<and> (\<forall>a \<in> set adders. adder_ok E a)
     \<and> holders adders = (if locked then 1 else 0))"

definition submit_init :: "env \<Rightarrow> submitting \<Rightarrow> bool" where
  "submit_init E sy \<longleftrightarrow> (case sy of (adders, locked, pcs, s) \<Rightarrow>
     mining_init E (pcs, s) \<and> sh_mempool s = mempool_empty \<and> adders = [] \<and> \<not> locked)"

lemma submit_init_inv: "submit_init E sy \<Longrightarrow> submit_inv E sy"
  using mining_init_inv by (auto simp: submit_init_def submit_inv_def queue_ok_def holders_def intro!: exI[of _ "[]"])

lemma holders_update:
  "k < length adders \<Longrightarrow> holders (adders[k := (tx, p')]) + (if holds (snd (adders ! k)) then 1 else 0)
    = holders adders + (if holds p' then 1 else 0)"
proof (induction adders arbitrary: k)
  case (Cons a adders)
  then show ?case by (cases k) (auto simp: holders_def split: prod.splits)
qed simp

lemma holders_unlocked: "holders adders = 0 \<Longrightarrow> (tx, p) \<in> set adders \<Longrightarrow> \<not> holds p"
  by (auto simp: holders_def filter_empty_conv)

lemma mining_inv_frame:
  assumes "mining_inv E (pcs, s)" "sh_chain s' = sh_chain s" "sh_state s' = sh_state s"
  shows "mining_inv E (pcs, s')"
  using assms by (simp add: mining_inv_def)

lemma queue_ok_insert:
  assumes "queue_ok E m" "tx_sender tx \<notin> mp_pendingSenders m" "bar_free tx" "tx_verify E tx = Inr True"
  shows "queue_ok E (m\<lparr>mp_pendingSenders := insert (tx_sender tx) (mp_pendingSenders m),
    mp_pending := mp_pending m @ [tx_toLine tx]\<rparr>)"
proof -
  obtain txs where "represents m txs" "\<forall>t \<in> set txs. tx_verify E t = Inr True"
    using assms(1) by (auto simp: queue_ok_def)
  with assms(2-4) show ?thesis
    unfolding queue_ok_def by (intro exI[of _ "txs @ [tx]"]) (auto simp: represents_def)
qed

lemma queue_ok_take:
  assumes "queue_ok E m"
  shows "\<exists>ls m'. mempool_take n m = Inr (ls, m') \<and> queue_ok E m'"
proof -
  obtain txs where "represents m txs" "\<forall>t \<in> set txs. tx_verify E t = Inr True"
    using assms by (auto simp: queue_ok_def)
  with mempool_take_represents[of m txs n] show ?thesis
    by (fastforce simp: queue_ok_def dest: in_set_dropD)
qed

text \<open>Whoever holds the mutex has a next step.\<close>

lemma holder_moves: "holds p \<Longrightarrow> \<exists>q s'. add_move E tx p s = Inr (q, s') \<and> q \<noteq> p"
  by (cases p) (auto simp: Let_def)

text \<open>A submission changes the mempool only, and only when it inserts.\<close>

lemma add_move_frame:
  assumes "add_move E tx p s = Inr (p', s')"
  shows "sh_chain s' = sh_chain s" "sh_state s' = sh_state s"
  using assms by (cases p; auto simp: bind_res_Inr_iff Let_def split: if_splits)+

lemma add_move_queue:
  assumes "add_move E tx p s = Inr (p', s')" "adder_ok E (tx, p)" "queue_ok E (sh_mempool s)"
  shows "queue_ok E (sh_mempool s')" "adder_ok E (tx, p')"
  using assms queue_ok_insert[OF assms(3), of tx]
  by (cases p; auto simp: adder_ok_def bind_res_Inr_iff Let_def split: if_splits)+

lemma lock_after_holders:
  assumes "k < length adders" "adders ! k = (tx, p)" "p = AddLock \<Longrightarrow> \<not> locked"
    and "add_move E tx p s = Inr (p', s')" "holders adders = (if locked then 1 else 0)"
  shows "holders (adders[k := (tx, p')]) = (if lock_after p p' locked then 1 else 0)"
proof -
  have "\<not> locked \<Longrightarrow> \<not> holds p"
    using assms(1,2,5) holders_unlocked[of adders tx p] by (metis nth_mem)
  moreover have "holds p' \<Longrightarrow> holds p \<or> p = AddLock"
    using assms(4) by (cases p) (auto simp: bind_res_Inr_iff split: if_splits)
  ultimately show ?thesis
    using holders_update[OF assms(1), of tx p'] assms(2,3,5) by (auto simp: lock_after_def split: if_splits)
qed

lemma worker_mempool:
  "worker_step E now addr i p s = Inr (p', s') \<Longrightarrow> p \<noteq> TakeTxs \<Longrightarrow> sh_mempool s' = sh_mempool s"
  by (cases p) (auto simp: bind_res_Inr_iff Let_def split: prod.splits)

lemma worker_queue:
  assumes "worker_step E now addr i p s = Inr (p', s')" "queue_ok E (sh_mempool s)"
  shows "queue_ok E (sh_mempool s')"
proof (cases "p = TakeTxs")
  case True
  with assms queue_ok_take[OF assms(2), of kMaxTxPerBlock] show ?thesis by (auto simp: bind_res_Inr_iff)
next
  case False
  with worker_mempool[OF assms(1)] assms(2) show ?thesis by simp
qed

lemma submit_step_inv:
  assumes "submit_step E addr sy sy'" "submit_inv E sy"
  shows "submit_inv E sy'"
  using assms(1)
proof cases
  case (arrive tx adders locked pcs s)
  with assms(2) show ?thesis by (auto simp: submit_inv_def adder_ok_def holders_def)
next
  case (add k adders tx p locked s p' s' pcs)
  have ok: "adder_ok E (tx, p)" using add assms(2) by (metis (no_types, lifting) case_prod_conv nth_mem submit_inv_def)
  have "mining_inv E (pcs, s')"
    using add(1) assms(2) add_move_frame[OF add(6)] by (auto simp: submit_inv_def intro: mining_inv_frame)
  moreover have "\<forall>a \<in> set (adders[k := (tx, p')]). adder_ok E a"
    using add_move_queue(2)[OF add(6) ok] add(1) assms(2)
    by (auto simp: submit_inv_def dest!: set_update_subset_insert[THEN subsetD])
  moreover have "holders (adders[k := (tx, p')]) = (if lock_after p p' locked then 1 else 0)"
    using add(1) assms(2) by (intro lock_after_holders[OF add(3-6)]) (simp_all add: submit_inv_def)
  ultimately show ?thesis
    using add add_move_queue(1)[OF add(6) ok] assms(2) by (simp add: submit_inv_def)
next
  case (worker i pcs locked now s pc' s' adders)
  have "mining_inv E (pcs[i := pc'], s')"
    using worker assms(2) by (intro worker_mining_inv[of E pcs s]) (simp_all add: submit_inv_def)
  with worker worker_queue[OF worker(5)] assms(2) show ?thesis by (simp add: submit_inv_def)
qed (use assms(2) in \<open>auto simp: submit_inv_def mining_inv_def hashrate_turn_def miner_stop_request_def
      setDifficulty_def chain_inv_def\<close>)

interpretation submissions: invariant_system "submit_init E" "submit_step E addr" "submit_inv E" for E addr
  by unfold_locales (auto intro: submit_init_inv submit_step_inv)

subsection \<open>One submission alone, and one between two blocks\<close>

lemma run_adder:
  assumes "k < length adders" "add_move E tx p s = Inr (p', s')" "p = AddLock \<Longrightarrow> \<not> locked"
  shows "submit_run E addr (adders[k := (tx, p)], locked, pcs, s) (adders[k := (tx, p')], lock_after p p' locked, pcs, s')"
proof -
  have "submit_step E addr (adders[k := (tx, p)], locked, pcs, s)
      ((adders[k := (tx, p)])[k := (tx, p')], lock_after p p' locked, pcs, s')"
    using assms by (intro add) simp_all
  then show ?thesis by auto
qed

text \<open>From the signature to the answer of the store about the nonce.\<close>

lemma run_to_balance:
  assumes "k < length adders" "tx_verify E tx = Inr True" "tx_nonce tx = getNonce (sh_state s) (tx_sender tx)"
  shows "submit_run E addr (adders[k := (tx, AddVerify)], False, pcs, s) (adders[k := (tx, AddBalance)], True, pcs, s)"
proof -
  have "submit_run E addr (adders[k := (tx, AddVerify)], False, pcs, s) (adders[k := (tx, AddLock)], False, pcs, s)"
    using run_adder[OF assms(1), of E tx AddVerify s AddLock s False] assms(2) by (simp add: lock_after_def)
  moreover have "submit_run E addr (adders[k := (tx, AddLock)], False, pcs, s) (adders[k := (tx, AddNonce)], True, pcs, s)"
    using run_adder[OF assms(1), of E tx AddLock s AddNonce s False] by (simp add: lock_after_def)
  moreover have "submit_run E addr (adders[k := (tx, AddNonce)], True, pcs, s) (adders[k := (tx, AddBalance)], True, pcs, s)"
    using run_adder[OF assms(1), of E tx AddNonce s AddBalance s True] assms(3) by (simp add: lock_after_def)
  ultimately show ?thesis by (meson rtranclp_trans)
qed

lemma run_from_balance:
  assumes "k < length adders" "tx_type tx = ''TRANSFER'' \<longrightarrow> tx_amount tx \<le> getBalance (sh_state s) (tx_sender tx)"
    and "tx_sender tx \<notin> mp_pendingSenders (sh_mempool s)"
  shows "submit_run E addr (adders[k := (tx, AddBalance)], True, pcs, s) (adders[k := (tx, AddEnd [])], False, pcs,
    s\<lparr>sh_mempool := (sh_mempool s)\<lparr>mp_pendingSenders := insert (tx_sender tx) (mp_pendingSenders (sh_mempool s)),
                                  mp_pending := mp_pending (sh_mempool s) @ [tx_toLine tx]\<rparr>\<rparr>)"
    (is "submit_run E addr _ (_, _, _, ?s')")
proof -
  have "add_move E tx AddBalance s = Inr (AddInsert, s)" using assms(2) by (auto simp: not_less)
  then have "submit_run E addr (adders[k := (tx, AddBalance)], True, pcs, s) (adders[k := (tx, AddInsert)], True, pcs, s)"
    using run_adder[OF assms(1), of E tx AddBalance s AddInsert s True] by (simp add: lock_after_def)
  moreover have "add_move E tx AddInsert s = Inr (AddEnd [], ?s')" using assms(3) by (simp add: Let_def)
  then have "submit_run E addr (adders[k := (tx, AddInsert)], True, pcs, s) (adders[k := (tx, AddEnd [])], False, pcs, ?s')"
    using run_adder[OF assms(1), of E tx AddInsert s "AddEnd []" ?s' True] by (simp add: lock_after_def)
  ultimately show ?thesis by (rule rtranclp_trans)
qed

text \<open>Without interruption an admissible transaction is added as \<open>mempool_add\<close> adds it.\<close>

lemma add_alone:
  assumes "k < length adders" "admissible E (sh_state s) tx (sh_mempool s)"
  shows "\<exists>m'. mempool_add E (sh_state s) tx (sh_mempool s) = Inr ([], m')
    \<and> submit_run E addr (adders[k := (tx, AddVerify)], False, pcs, s) (adders[k := (tx, AddEnd [])], False, pcs, s\<lparr>sh_mempool := m'\<rparr>)"
proof -
  have a: "tx_verify E tx = Inr True" "tx_nonce tx = getNonce (sh_state s) (tx_sender tx)"
    "tx_type tx = ''TRANSFER'' \<longrightarrow> tx_amount tx \<le> getBalance (sh_state s) (tx_sender tx)"
    "tx_sender tx \<notin> mp_pendingSenders (sh_mempool s)" using assms(2) by (simp_all add: admissible_def)
  from mempool_add_accept[OF assms(2)] rtranclp_trans[OF run_to_balance[OF assms(1) a(1,2)] run_from_balance[OF assms(1) a(3,4)]]
  show ?thesis by simp
qed

text \<open>
  The two answers of the store can come from two states. A worker applies its block between them: a
  transaction can then be accepted that neither state admits, the first for want of money, the
  second because its nonce is used up.
\<close>

lemma add_never_admissible:
  assumes "k < length adders" "tx_verify E tx = Inr True" "tx_nonce tx = getNonce (sh_state s) (tx_sender tx)"
    and "tx_type tx = ''TRANSFER''" "getBalance (sh_state s) (tx_sender tx) < tx_amount tx"
    and "i < length pcs" "pcs ! i = Apply b" "applyBlock E b (sh_state s) = Inr st'"
    and "getNonce st' (tx_sender tx) \<noteq> tx_nonce tx" "tx_amount tx \<le> getBalance st' (tx_sender tx)"
    and "tx_sender tx \<notin> mp_pendingSenders (sh_mempool s)"
  shows "\<exists>s'. submit_run E addr (adders[k := (tx, AddVerify)], False, pcs, s) (adders[k := (tx, AddEnd [])], False, pcs[i := PubHeight], s')
    \<and> sh_state s' = st' \<and> mp_pending (sh_mempool s') = mp_pending (sh_mempool s) @ [tx_toLine tx]
    \<and> (\<forall>m. \<not> admissible E (sh_state s) tx m \<and> \<not> admissible E st' tx m)"
proof -
  let ?s = "s\<lparr>sh_state := st'\<rparr>"
  have "worker_step E 0 addr i (pcs ! i) s = Inr (PubHeight, ?s)" using assms(7,8) by simp
  with assms(6,7) have mid: "submit_run E addr (adders[k := (tx, AddBalance)], True, pcs, s)
      (adders[k := (tx, AddBalance)], True, pcs[i := PubHeight], ?s)"
    by (intro r_into_rtranclp worker) simp_all
  have enough: "tx_type tx = ''TRANSFER'' \<longrightarrow> tx_amount tx \<le> getBalance (sh_state ?s) (tx_sender tx)"
    "tx_sender tx \<notin> mp_pendingSenders (sh_mempool ?s)" using assms(10,11) by simp_all
  from rtranclp_trans[OF rtranclp_trans[OF run_to_balance[OF assms(1-3)] mid] run_from_balance[OF assms(1) enough]]
  show ?thesis
    by (intro exI conjI, assumption) (use assms(4,5,9) in \<open>auto simp: admissible_def not_le\<close>)
qed

subsection \<open>Properties\<close>

text \<open>
  Concurrent submissions keep the mempool and the books. For any number of threads that submit
  transactions the line format carries, with any number of workers, lock by lock and in any
  interleaving: the mempool holds a queue of transactions of distinct senders, each with a valid
  signature, so that \<^verbatim>\<open>take\<close> never throws; one submission at most holds the mutex, and then it has
  a next step; the chain is valid and its blocks are those applied once and those about to be.
\<close>

lemma submissions_interleaved:
  assumes "reach_from (submit_init E) (submit_step E addr) (adders, locked, pcs, s)"
  shows "(\<exists>txs. represents (sh_mempool s) txs \<and> (\<forall>tx \<in> set txs. tx_verify E tx = Inr True))
    \<and> (\<exists>ls m'. mempool_take n (sh_mempool s) = Inr (ls, m'))
    \<and> holders adders = (if locked then 1 else 0)
    \<and> (locked \<longrightarrow> (\<exists>tx p q s'. (tx, p) \<in> set adders \<and> holds p \<and> add_move E tx p s = Inr (q, s') \<and> q \<noteq> p))
    \<and> valid_chain E (chn_blocks (sh_chain s))
    \<and> (\<exists>applied. mset applied + pending_blocks pcs = mset (chn_blocks (sh_chain s))
         \<and> fold_res (applyBlock E) applied state_empty = Inr (sh_state s))"
proof -
  have inv: "mining_inv E (pcs, s)" "queue_ok E (sh_mempool s)" "holders adders = (if locked then 1 else 0)"
    using submissions.reach_inv[OF assms] by (simp_all add: submit_inv_def)
  have "\<exists>tx p q s'. (tx, p) \<in> set adders \<and> holds p \<and> add_move E tx p s = Inr (q, s') \<and> q \<noteq> p" if locked
  proof -
    from inv(3) that have "filter (\<lambda>(tx, p). holds p) adders \<noteq> []" by (auto simp: holders_def)
    then obtain tx p where "(tx, p) \<in> set adders" "holds p" by (auto simp: filter_empty_conv)
    with holder_moves[of p E tx s] show ?thesis by blast
  qed
  with inv queue_ok_take[OF inv(2), of n] show ?thesis
    by (auto simp: queue_ok_def mining_inv_def chain_inv_def)
qed

text \<open>A submission in the middle, while it holds the mutex.\<close>

lemma submissions_interleaved_example:
  "reach_from (submit_init sample_env) (submit_step sample_env ''m'') ([(sample_tx, AddNonce)], True, [OuterTest], sample_shared)
   \<and> (\<exists>ls m'. mempool_take 20 (sh_mempool sample_shared) = Inr (ls, m'))"
proof -
  let ?reach = "reach_from (submit_init sample_env) (submit_step sample_env ''m'')"
  have init: "submit_init sample_env ([], False, [OuterTest], sample_shared)"
    using sample_mining_init[of 1] by (simp add: submit_init_def sample_shared_def)
  have v: "tx_verify sample_env sample_tx = Inr True" using sample_admissible by (simp add: admissible_def)
  have "?reach ([], False, [OuterTest], sample_shared)"
    by (rule reach_init[of "submit_init sample_env", OF init])
  then have "?reach ([(sample_tx, AddVerify)], False, [OuterTest], sample_shared)"
    by (rule reach_step) (use arrive[of sample_tx, where adders = "[]"] sample_tx_ok(1) in simp)
  moreover have "submit_run sample_env ''m'' ([(sample_tx, AddVerify)], False, [OuterTest], sample_shared)
      ([(sample_tx, AddLock)], False, [OuterTest], sample_shared)"
    using run_adder[of 0 "[(sample_tx, AddVerify)]" sample_env sample_tx AddVerify sample_shared AddLock sample_shared False] v
    by (simp add: lock_after_def)
  moreover have "submit_run sample_env ''m'' ([(sample_tx, AddLock)], False, [OuterTest], sample_shared)
      ([(sample_tx, AddNonce)], True, [OuterTest], sample_shared)"
    using run_adder[of 0 "[(sample_tx, AddLock)]" sample_env sample_tx AddLock sample_shared AddNonce sample_shared False]
    by (simp add: lock_after_def)
  ultimately have "?reach ([(sample_tx, AddNonce)], True, [OuterTest], sample_shared)"
    by (meson reach_run)
  with submissions_interleaved[OF this, of 20] show ?thesis by blast
qed

end
