(* ===== verification/Concurrent_Node.thy ===== *)
theory Concurrent_Node
  imports Sync_Race Submission
begin

text \<open>
  The whole node, one lock at a time. In \<^verbatim>\<open>Node\<close> a handler of \<^verbatim>\<open>src/node/main.cpp\<close> is one step; here
  the main thread has a program point too, and each access it makes to what it shares with the
  mining threads and the threads of the peer server is a step of its own. What the main thread
  alone uses (the peers, the server object, the wallet) changes with the step before or after.
  The mempool's mutex is a flag, as in \<^verbatim>\<open>Submission\<close>; every other method holds its mutex for
  one step.
\<close>

subsection \<open>The main thread\<close>

datatype after_stop = ThenPrompt | ThenStart int | ThenQuit

datatype main_pc =
    Prompt
  | Stopping after_stop
  | Joining after_stop
  | Starting int
  | Closing
  | AddBuild "nat \<Rightarrow> i64" nat string
  | AddTry "nat \<Rightarrow> i64" nat string block
  | Retargeting u32
  | Submitting transaction add_pc
  | Publishing sync_pc
  | Ended

text \<open>
  \<^verbatim>\<open>doInitNode\<close> up to the transfer: only the height of the own chain is shared, and it is read once.
  \<open>Publishing (SyncReplace blocks)\<close> is the rest of it.
\<close>

definition sync_begin :: "env \<Rightarrow> node \<Rightarrow> conns \<Rightarrow> main_pc res" where
  "sync_begin E nd cs =
     (case announceToAllPeers (wal_address (nd_wallet nd)) (nd_peers nd) cs of (_, cs1) \<Rightarrow>
        if nd_peers nd = [] then Inr Prompt
        else (case query_peers (platform E) (nd_peers nd) cs1 (- 1) None of (bestHeight, bestPeer, cs2) \<Rightarrow>
          if bestPeer = None \<or> bestHeight < 0 then Inr Prompt
          else if word_of_int bestHeight \<le> chain_height (sh_chain (nd_shared nd)) then Inr Prompt
          else bind_res (fst (fetchChain (platform E) (fst (next_conn cs2)))) (\<lambda>blocks.
            Inr (Publishing (SyncReplace blocks)))))"

text \<open>
  The first step of a handler. Commands that only read, or change only what the main thread alone
  uses and the published number of peers, are done with it.
\<close>

fun main_begin :: "env \<Rightarrow> inputs \<Rightarrow> command \<Rightarrow> node \<Rightarrow> (main_pc \<times> node) res" where
  "main_begin E i Exit nd = Inr (Stopping ThenQuit, nd)"
| "main_begin E i (SetPeer a) nd = Inr (Prompt, snd (cmd_set_peer a nd))"
| "main_begin E i (JoinNet a) nd = Inr (Prompt, snd (cmd_join_net E a (in_conns i) (in_listening i) nd))"
| "main_begin E i (Listen p) nd = Inr (Prompt, snd (cmd_listen (read_i32 (nd_p2pPort nd) p) (in_listening i) nd))"
| "main_begin E i InitNode nd = bind_res (sync_begin E nd (in_conns i)) (\<lambda>pc. Inr (pc, nd))"
| "main_begin E i (Mine threads) nd = Inr (Stopping (ThenStart (if threads < 1 then 1 else threads)), nd)"
| "main_begin E i StopMining nd = Inr (Stopping ThenPrompt, nd)"
| "main_begin E i (RegisterUsername u) nd =
     Inr (if u = [] then Prompt
          else Submitting (createUsernameRegistration E (nd_wallet nd) u
            (getNonce (sh_state (nd_shared nd)) (wal_address (nd_wallet nd))) (in_clock i 0)) AddVerify, nd)"
| "main_begin E i (Send a n) nd =
     Inr (if a = [] \<or> n = 0 then Prompt
          else Submitting (createSigned E (nd_wallet nd) a n
            (getNonce (sh_state (nd_shared nd)) (wal_address (nd_wallet nd))) (in_clock i 0)) AddVerify, nd)"
| "main_begin E i (Add rest) nd =
     (let rest1 = (if rest = [] then [] else substr_from rest 1);
          txData = (if rest1 = [] then ''(empty)'' else rest1)
      in Inr (AddBuild (in_clock i) 0 txData, nd))"
| "main_begin E i (Difficulty d) nd = Inr (case d of None \<Rightarrow> Prompt | Some d \<Rightarrow> Retargeting d, nd)"
| "main_begin E i _ nd = Inr (Prompt, nd)"

text \<open>
  The steps after the first. \<open>Waits\<close>: the thread joins threads that have not finished, or waits for
  a line. The search for the nonce in \<open>AddBuild\<close> shares nothing; \<open>Hangs\<close> is a search without end.
  After a submission the transaction goes to the peers, which changes nothing here.
\<close>

datatype main_result = Moves main_pc node | Waits | Hangs | Throws cpp_error

fun main_move :: "env \<Rightarrow> main_pc \<Rightarrow> node \<Rightarrow> main_result" where
  "main_move E (Stopping a) nd = Moves (Joining a) (nd\<lparr>nd_shared := miner_stop_request (nd_shared nd)\<rparr>)"
| "main_move E (Joining a) nd =
     (if joined nd
      then Moves (case a of ThenPrompt \<Rightarrow> Prompt | ThenStart n \<Rightarrow> Starting n | ThenQuit \<Rightarrow> Closing)
             (nd\<lparr>nd_workers := [], nd_shared := miner_stop_done (nd_shared nd)\<rparr>)
      else Waits)"
| "main_move E (Starting n) nd =
     (case miner_start n (nd_shared nd) of (pcs, s) \<Rightarrow> Moves Prompt (nd\<lparr>nd_workers := pcs, nd_shared := s\<rparr>))"
| "main_move E Closing nd =
     Moves Ended (if nd_listening nd then nd\<lparr>nd_server := peer_server_stop (nd_server nd)\<rparr> else nd)"
| "main_move E (AddBuild now k tx) nd =
     (case mineBlock E (buildCandidate E (now k) [tx] (sh_chain (nd_shared nd))) of
        None \<Rightarrow> Hangs
      | Some b \<Rightarrow> Moves (AddTry now k tx b) nd)"
| "main_move E (AddTry now k tx b) nd =
     (case tryAppendMinedBlock E b (sh_chain (nd_shared nd)) of (ok, ch') \<Rightarrow>
        Moves (if ok then Publishing SyncHeight else AddBuild now (Suc k) tx)
          (nd\<lparr>nd_shared := (nd_shared nd)\<lparr>sh_chain := ch'\<rparr>\<rparr>))"
| "main_move E (Retargeting d) nd =
     Moves (Publishing (SyncStoreDifficulty d))
       (nd\<lparr>nd_shared := (nd_shared nd)\<lparr>sh_chain := setDifficulty d (sh_chain (nd_shared nd))\<rparr>\<rparr>)"
| "main_move E (Submitting tx (AddEnd err)) nd = Moves Prompt nd"
| "main_move E (Submitting tx p) nd =
     (case add_move E tx p (nd_shared nd) of
        Inl e \<Rightarrow> Throws e
      | Inr (p', s) \<Rightarrow> Moves (Submitting tx p') (nd\<lparr>nd_shared := s\<rparr>))"
| "main_move E (Publishing (SyncEnd ok)) nd = Moves Prompt nd"
| "main_move E (Publishing q) nd =
     (case sync_move E q (nd_shared nd) of
        Inl e \<Rightarrow> Throws e
      | Inr (q', s) \<Rightarrow> Moves (Publishing q') (nd\<lparr>nd_shared := s\<rparr>))"
| "main_move E Prompt nd = Waits"
| "main_move E Ended nd = Waits"

subsection \<open>All threads\<close>

fun main_holds :: "main_pc \<Rightarrow> bool" where
  "main_holds (Submitting tx p) \<longleftrightarrow> holds p"
| "main_holds _ \<longleftrightarrow> False"

fun main_wants :: "main_pc \<Rightarrow> bool" where
  "main_wants (Submitting tx p) \<longleftrightarrow> p = AddLock"
| "main_wants _ \<longleftrightarrow> False"

definition main_lock :: "main_pc \<Rightarrow> main_pc \<Rightarrow> bool \<Rightarrow> bool" where
  "main_lock pc pc' locked = (if main_holds pc' then True else if main_holds pc then False else locked)"

type_synonym conc = "main_pc \<times> (transaction \<times> add_pc) list \<times> bool \<times> node"

text \<open>
  The user types any line; what a peer submits decodes from its line. A command, a main thread or a
  worker that throws has no step: the process has ended.
\<close>

inductive conc_step :: "env \<Rightarrow> conc \<Rightarrow> conc \<Rightarrow> bool" for E :: env where
  typed: "main_begin E i (parse_command line) nd = Inr (pc, nd') \<Longrightarrow>
    conc_step E (Prompt, adders, locked, nd) (pc, adders, locked, nd')"
| main: "main_move E pc nd = Moves pc' nd' \<Longrightarrow> (main_wants pc \<Longrightarrow> \<not> locked) \<Longrightarrow>
    conc_step E (pc, adders, locked, nd) (pc', adders, main_lock pc pc' locked, nd')"
| arrive: "tx_fromLine line = Inr tx \<Longrightarrow>
    conc_step E (pc, adders, locked, nd) (pc, adders @ [(tx, AddVerify)], locked, nd)"
| add: "k < length adders \<Longrightarrow> adders ! k = (tx, p) \<Longrightarrow> (p = AddLock \<Longrightarrow> \<not> locked) \<Longrightarrow>
    add_move E tx p (nd_shared nd) = Inr (p', s') \<Longrightarrow>
    conc_step E (pc, adders, locked, nd) (pc, adders[k := (tx, p')], lock_after p p' locked, nd\<lparr>nd_shared := s'\<rparr>)"
| worker: "i < length (nd_workers nd) \<Longrightarrow> (nd_workers nd ! i = TakeTxs \<Longrightarrow> \<not> locked) \<Longrightarrow>
    worker_step E now (wal_address (nd_wallet nd)) i (nd_workers nd ! i) (nd_shared nd) = Inr (pc', s') \<Longrightarrow>
    conc_step E (pc, adders, locked, nd) (pc, adders, locked, nd\<lparr>nd_workers := (nd_workers nd)[i := pc'], nd_shared := s'\<rparr>)"
| hashrate: "conc_step E (pc, adders, locked, nd) (pc, adders, locked, nd\<lparr>nd_shared := hashrate_turn (nd_shared nd)\<rparr>)"

abbreviation conc_run :: "env \<Rightarrow> conc \<Rightarrow> conc \<Rightarrow> bool" where
  "conc_run E \<equiv> (conc_step E)\<^sup>*\<^sup>*"

definition conc_init :: "env \<Rightarrow> conc \<Rightarrow> bool" where
  "conc_init E c \<longleftrightarrow> (\<exists>nd. c = (Prompt, [], False, nd) \<and> node_init E nd
     \<and> CHR ''|'' \<notin> set (wal_address (nd_wallet nd)))"

subsection \<open>A handler alone\<close>

text \<open>How a handler ends when no other thread moves.\<close>

inductive main_ends :: "env \<Rightarrow> main_pc \<Rightarrow> node \<Rightarrow> outcome \<Rightarrow> bool" for E :: env where
  prompt: "main_ends E Prompt nd (Continue nd)"
| ended: "main_ends E Ended nd (Quit nd)"
| moves: "main_move E pc nd = Moves pc' nd' \<Longrightarrow> main_ends E pc' nd' out \<Longrightarrow> main_ends E pc nd out"
| waits: "main_move E (Joining a) nd = Waits \<Longrightarrow> main_ends E (Joining a) nd Waiting"
| hangs: "main_move E pc nd = Hangs \<Longrightarrow> main_ends E pc nd Hanging"
| throws: "main_move E pc nd = Throws e \<Longrightarrow> main_ends E pc nd (Crashed e)"

definition handler_ends :: "env \<Rightarrow> inputs \<Rightarrow> command \<Rightarrow> node \<Rightarrow> outcome \<Rightarrow> bool" where
  "handler_ends E i c nd out \<longleftrightarrow> (case main_begin E i c nd of
     Inl e \<Rightarrow> out = Crashed e
   | Inr (pc, nd') \<Rightarrow> main_ends E pc nd' out)"

end
