(* ===== verification/Pending_Lines.thy ===== *)
theory Pending_Lines
  imports Concurrent_Node
begin

text \<open>
  The mempool when its transactions may hold any text as their receiver, as the user of \<^verbatim>\<open>send\<close> can
  type it. \<open>represents\<close> asks that every line reads back; here a line may have more fields than a
  transaction, and then reads back as another transaction of the same sender, or not at all.
\<close>

subsection \<open>Lines with too many fields\<close>

definition barred :: "string \<Rightarrow> bool" where
  "barred line \<longleftrightarrow> 8 < length (split_on (CHR ''|'') [] line)"

lemma split_on_length: "length (split_on d cur s) = Suc (length (filter (\<lambda>c. c = d) s))"
  by (induction d cur s rule: split_on.induct) simp_all

lemma toLine_fields:
  "length (split_on (CHR ''|'') [] (tx_toLine tx)) = 8 + length (filter (\<lambda>c. c = CHR ''|'')
     (tx_type tx @ tx_sender tx @ tx_receiver tx @ tx_senderPubKeyHex tx @ tx_signatureHex tx))"
proof -
  have "filter (\<lambda>c. c = CHR ''|'') (show_u64 n) = []" "filter (\<lambda>c. c = CHR ''|'') (show_i64 n) = []" for n
    by (auto simp: filter_empty_conv)
  then show ?thesis by (simp add: split_on_length tx_toLine_def)
qed

lemma barred_toLine: "barred (tx_toLine tx) \<longleftrightarrow> \<not> bar_free tx"
  by (auto simp: barred_def toLine_fields bar_free_def filter_empty_conv)

definition sender_clear :: "transaction \<Rightarrow> bool" where
  "sender_clear tx \<longleftrightarrow> CHR ''|'' \<notin> set (tx_type tx) \<and> CHR ''|'' \<notin> set (tx_sender tx)"

lemma sender_clear_bar_free: "bar_free tx \<Longrightarrow> sender_clear tx"
  by (simp add: bar_free_def sender_clear_def)

text \<open>Whatever the other fields hold, the sender is read back.\<close>

lemma line_keeps_sender:
  assumes "sender_clear tx" "tx_fromLine (tx_toLine tx) = Inr tx'"
  shows "tx_sender tx' = tx_sender tx"
proof -
  let ?f = "split_on (CHR ''|'') [] (tx_toLine tx)"
  have "?f ! 1 = tx_sender tx" using assms(1) by (simp add: sender_clear_def tx_toLine_def)
  moreover have "\<not> length ?f < 8" by (simp add: toLine_fields)
  ultimately show ?thesis using assms(2) by (auto simp: tx_fromLine_def Let_def bind_res_Inr_iff)
qed

subsection \<open>The queue\<close>

definition queued :: "mempool \<Rightarrow> transaction list \<Rightarrow> bool" where
  "queued m txs \<longleftrightarrow> mp_pending m = map tx_toLine txs \<and> mp_pendingSenders m = set (map tx_sender txs)
     \<and> distinct (map tx_sender txs)"

lemma represents_queued: "represents m txs \<longleftrightarrow> queued m txs \<and> (\<forall>tx \<in> set txs. bar_free tx)"
  by (auto simp: represents_def queued_def)

text \<open>\<^verbatim>\<open>take\<close> hands out the oldest lines, or throws at one that has too many fields.\<close>

lemma take_loop_any_lines:
  assumes "\<forall>tx \<in> set txs. sender_clear tx"
  shows "case take_loop n out (map tx_toLine txs) senders of
      Inl e \<Rightarrow> \<exists>tx \<in> set txs. barred (tx_toLine tx)
    | Inr r \<Rightarrow> r = (let k = n - length out in (out @ map tx_toLine (take k txs), map tx_toLine (drop k txs),
        senders - set (map tx_sender (take k txs))))"
  using assms
proof (induction txs arbitrary: out senders)
  case Nil
  then show ?case by simp
next
  case (Cons tx txs)
  show ?case
  proof (cases "length out < n")
    case True
    then have k: "n - length out = Suc (n - Suc (length out))" by simp
    show ?thesis
    proof (cases "tx_fromLine (tx_toLine tx)")
      case (Inl e)
      then have "barred (tx_toLine tx)" using txc.dec_enc by (auto simp: barred_toLine)
      with True Inl show ?thesis by simp
    next
      case (Inr tx')
      then have "tx_sender tx' = tx_sender tx" using Cons.prems line_keeps_sender by simp
      with True Inr k Cons.IH[of "out @ [tx_toLine tx]" "senders - {tx_sender tx}"] Cons.prems show ?thesis
        by (auto simp: Let_def split: sum.splits)
    qed
  qed simp
qed

lemma mempool_take_queued:
  assumes "queued m txs" "\<forall>tx \<in> set txs. sender_clear tx"
  shows "case mempool_take n m of
      Inl e \<Rightarrow> \<exists>l \<in> set (mp_pending m). barred l
    | Inr (ls, m') \<Rightarrow> ls = map tx_toLine (take n txs) \<and> queued m' (drop n txs)"
proof -
  have split: "map tx_sender txs = map tx_sender (take n txs) @ map tx_sender (drop n txs)"
    by (metis append_take_drop_id map_append)
  have d: "distinct (map tx_sender (take n txs) @ map tx_sender (drop n txs))"
    using assms(1) split by (simp add: queued_def)
  then have "set (map tx_sender txs) - set (map tx_sender (take n txs)) = set (map tx_sender (drop n txs))"
    unfolding split set_append by auto
  with take_loop_any_lines[OF assms(2), of n "[]" "mp_pendingSenders m"] assms(1) d show ?thesis
    by (auto simp: mempool_take_def queued_def Let_def split: sum.splits)
qed

text \<open>What the queue of the running node keeps: verified transactions whose sender reads back.\<close>

definition clear_queue :: "env \<Rightarrow> mempool \<Rightarrow> bool" where
  "clear_queue E m \<longleftrightarrow> (\<exists>txs. queued m txs \<and> (\<forall>tx \<in> set txs. sender_clear tx \<and> tx_verify E tx = Inr True))"

definition clear_adder :: "env \<Rightarrow> transaction \<times> add_pc \<Rightarrow> bool" where
  "clear_adder E a \<longleftrightarrow> sender_clear (fst a) \<and> (verified (snd a) \<longrightarrow> tx_verify E (fst a) = Inr True)"

lemma clear_queue_empty: "clear_queue E mempool_empty"
  by (auto simp: clear_queue_def queued_def mempool_empty_def intro!: exI[of _ "[]"])

lemma clear_queue_insert:
  assumes "clear_queue E m" "tx_sender tx \<notin> mp_pendingSenders m" "sender_clear tx" "tx_verify E tx = Inr True"
  shows "clear_queue E (m\<lparr>mp_pendingSenders := insert (tx_sender tx) (mp_pendingSenders m),
    mp_pending := mp_pending m @ [tx_toLine tx]\<rparr>)"
proof -
  obtain txs where "queued m txs" "\<forall>t \<in> set txs. sender_clear t \<and> tx_verify E t = Inr True"
    using assms(1) by (auto simp: clear_queue_def)
  with assms(2-4) show ?thesis
    unfolding clear_queue_def by (intro exI[of _ "txs @ [tx]"]) (auto simp: queued_def)
qed

lemma add_move_clear:
  assumes "add_move E tx p s = Inr (p', s')" "clear_adder E (tx, p)" "clear_queue E (sh_mempool s)"
  shows "clear_queue E (sh_mempool s')" "clear_adder E (tx, p')"
  using assms clear_queue_insert[OF assms(3), of tx]
  by (cases p; auto simp: clear_adder_def bind_res_Inr_iff Let_def split: if_splits)+

lemma clear_queue_take:
  assumes "clear_queue E m"
  shows "case mempool_take n m of
      Inl e \<Rightarrow> \<exists>l \<in> set (mp_pending m). barred l
    | Inr (ls, m') \<Rightarrow> clear_queue E m'
        \<and> (\<exists>txs. ls = map tx_toLine txs \<and> (\<forall>tx \<in> set txs. sender_clear tx \<and> tx_verify E tx = Inr True))"
proof -
  obtain txs where txs: "queued m txs" "\<forall>tx \<in> set txs. sender_clear tx \<and> tx_verify E tx = Inr True"
    using assms by (auto simp: clear_queue_def)
  then have "\<forall>tx \<in> set (take n txs) \<union> set (drop n txs). sender_clear tx \<and> tx_verify E tx = Inr True"
    by (auto dest: in_set_takeD in_set_dropD)
  with mempool_take_queued[OF txs(1), of n] txs(2) show ?thesis
    unfolding clear_queue_def by (auto split: sum.splits)
qed

lemma worker_clear_queue:
  assumes "worker_step E now addr i p s = Inr (p', s')" "clear_queue E (sh_mempool s)"
  shows "clear_queue E (sh_mempool s')"
proof (cases "p = TakeTxs")
  case True
  with assms clear_queue_take[OF assms(2), of kMaxTxPerBlock] show ?thesis by (auto simp: bind_res_Inr_iff)
next
  case False
  with worker_mempool[OF assms(1)] assms(2) show ?thesis by simp
qed

end
