(* ===== verification/Concurrent_Laws.thy ===== *)
theory Concurrent_Laws
  imports Pending_Lines
begin

text \<open>
  What holds of the whole node one lock at a time: a handler alone does what \<^verbatim>\<open>Node\<close> makes it do
  in one step, and the invariant of all threads together, whatever their interleaving.
\<close>

subsection \<open>A handler alone\<close>

lemma main_ends_prompt [simp]: "main_ends E Prompt nd out \<longleftrightarrow> out = Continue nd"
  by (auto elim: main_ends.cases intro: main_ends.prompt)

lemma main_ends_ended [simp]: "main_ends E Ended nd out \<longleftrightarrow> out = Quit nd"
  by (auto elim: main_ends.cases intro: main_ends.ended)

lemma main_ends_moves: "main_move E pc nd = Moves pc' nd' \<Longrightarrow> main_ends E pc nd out \<longleftrightarrow> main_ends E pc' nd' out"
  by (auto elim: main_ends.cases intro: main_ends.moves)

lemma main_ends_waits: "main_move E (Joining a) nd = Waits \<Longrightarrow> main_ends E (Joining a) nd out \<longleftrightarrow> out = Waiting"
  by (auto elim: main_ends.cases intro: main_ends.waits)

lemma main_ends_hangs: "main_move E pc nd = Hangs \<Longrightarrow> main_ends E pc nd out \<longleftrightarrow> out = Hanging"
  by (auto elim: main_ends.cases intro: main_ends.hangs)

lemma main_ends_throws: "main_move E pc nd = Throws e \<Longrightarrow> main_ends E pc nd out \<longleftrightarrow> out = Crashed e"
  by (auto elim: main_ends.cases intro: main_ends.throws)

lemmas main_ends_step = main_ends_moves main_ends_waits main_ends_hangs main_ends_throws

text \<open>The parts that several handlers share: publishing, submitting, stopping, and the end of the sync.\<close>

lemma publish_ends:
  "main_ends E (Publishing SyncHeight) nd out \<longleftrightarrow>
     out = Continue (nd\<lparr>nd_shared := refreshHeightStatus (nd_shared nd)\<rparr>)"
  by (simp add: main_ends_moves refreshHeightStatus_def)

lemma replay_ends:
  "main_ends E (Publishing (SyncReplay bs)) nd out \<longleftrightarrow>
     (case fold_res (applyBlock E) bs (sh_state (nd_shared nd)) of
        Inl e \<Rightarrow> out = Crashed e
      | Inr st' \<Rightarrow> main_ends E (Publishing SyncHeight) (nd\<lparr>nd_shared := (nd_shared nd)\<lparr>sh_state := st'\<rparr>\<rparr>) out)"
proof (induction bs arbitrary: nd)
  case Nil
  then show ?case by (simp add: main_ends_moves)
next
  case (Cons b bs)
  then show ?case
    by (cases "applyBlock E b (sh_state (nd_shared nd))")
      (simp_all add: main_ends_moves main_ends_throws split: sum.split)
qed

lemma replace_ends:
  "main_ends E (Publishing (SyncReplace blocks)) nd out \<longleftrightarrow>
     (case replaceIfLongerAndValid E blocks (sh_chain (nd_shared nd)) of (ok, ch') \<Rightarrow>
        if ok
        then (case rebuildFromBlocks E blocks (sh_state (nd_shared nd)) of
                Inl e \<Rightarrow> out = Crashed e
              | Inr st' \<Rightarrow> out = Continue (nd\<lparr>nd_shared := refreshHeightStatus
                  ((nd_shared nd)\<lparr>sh_chain := ch', sh_state := st'\<rparr>)\<rparr>))
        else out = Continue (nd\<lparr>nd_shared := (nd_shared nd)\<lparr>sh_chain := ch'\<rparr>\<rparr>))"
proof -
  obtain ok ch' where r: "replaceIfLongerAndValid E blocks (sh_chain (nd_shared nd)) = (ok, ch')"
    by (cases "replaceIfLongerAndValid E blocks (sh_chain (nd_shared nd))")
  show ?thesis
    by (simp add: r main_ends_moves replay_ends publish_ends rebuild_eq state_empty_def split: sum.split)
qed

lemma submitting_ends:
  "main_ends E (Submitting tx AddVerify) nd out \<longleftrightarrow>
     (case mempool_add E (sh_state (nd_shared nd)) tx (sh_mempool (nd_shared nd)) of
        Inl e \<Rightarrow> out = Crashed e
      | Inr (err, m') \<Rightarrow> out = Continue (nd\<lparr>nd_shared := (nd_shared nd)\<lparr>sh_mempool := m'\<rparr>\<rparr>))"
proof (cases "tx_verify E tx")
  case (Inl e)
  then show ?thesis by (simp add: main_ends_throws mempool_add_def)
next
  case (Inr ok)
  then show ?thesis by (simp add: main_ends_moves mempool_add_def Let_def)
qed

lemma stopping_ends:
  "main_ends E (Stopping a) nd out \<longleftrightarrow>
     (if joined nd
      then main_ends E (case a of ThenPrompt \<Rightarrow> Prompt | ThenStart n \<Rightarrow> Starting n | ThenQuit \<Rightarrow> Closing)
             (cmd_stop_mining nd) out
      else out = Waiting)"
proof -
  have "joined (nd\<lparr>nd_shared := miner_stop_request (nd_shared nd)\<rparr>) = joined nd" by (simp add: joined_def)
  moreover have "(nd\<lparr>nd_shared := miner_stop_request (nd_shared nd)\<rparr>)\<lparr>nd_workers := [],
      nd_shared := miner_stop_done (nd_shared (nd\<lparr>nd_shared := miner_stop_request (nd_shared nd)\<rparr>))\<rparr> = cmd_stop_mining nd"
    by (simp add: cmd_stop_mining_def)
  ultimately show ?thesis
    by (cases "joined nd") (simp_all add: main_ends_moves main_ends_waits)
qed

text \<open>\<^verbatim>\<open>add\<close> alone does not retry: its block fits the tip it was built on.\<close>

lemma add_ends:
  "main_ends E (AddBuild now 0 tx) nd out \<longleftrightarrow> out =
     (case addTransactionAndMineSync E now (\<lambda>_ d. d) 0 tx (sh_chain (nd_shared nd)) of
        None \<Rightarrow> Hanging
      | Some (b, ch') \<Rightarrow> Continue (nd\<lparr>nd_shared := refreshHeightStatus ((nd_shared nd)\<lparr>sh_chain := ch'\<rparr>)\<rparr>))"
proof (cases "mineBlock E (buildCandidate E (now 0) [tx] (sh_chain (nd_shared nd)))")
  case None
  then show ?thesis by (simp add: main_ends_hangs addSync_unfold)
next
  case (Some b)
  let ?ch = "sh_chain (nd_shared nd)"
  have "tryAppendMinedBlock E b ?ch = (True, ?ch\<lparr>chn_blocks := chn_blocks ?ch @ [b]\<rparr>)"
    using mined_candidate(1)[OF Some] tryAppend_eq by simp
  then have "main_ends E (AddBuild now 0 tx) nd out \<longleftrightarrow> main_ends E (Publishing SyncHeight)
      (nd\<lparr>nd_shared := (nd_shared nd)\<lparr>sh_chain := ?ch\<lparr>chn_blocks := chn_blocks ?ch @ [b]\<rparr>\<rparr>\<rparr>) out"
    using Some by (simp add: main_ends_moves)
  then show ?thesis using addSync_undisturbed[of E now 0 tx ?ch b "\<lambda>_ d. d"] Some by (simp add: publish_ends)
qed

text \<open>The handlers.\<close>

lemma sync_handler: "handler_ends E i InitNode nd out \<longleftrightarrow> out = run_command E i InitNode nd"
proof -
  obtain oks cs1 where 1: "announceToAllPeers (wal_address (nd_wallet nd)) (nd_peers nd) (in_conns i) = (oks, cs1)"
    by (cases "announceToAllPeers (wal_address (nd_wallet nd)) (nd_peers nd) (in_conns i)")
  obtain bestHeight bestPeer cs2
    where 2: "query_peers (platform E) (nd_peers nd) cs1 (- 1) None = (bestHeight, bestPeer, cs2)"
    by (cases "query_peers (platform E) (nd_peers nd) cs1 (- 1) None") auto
  show ?thesis
    by (simp add: handler_ends_def sync_begin_def doInitNode_def 1 2 of_res_def replace_ends Let_def bind_res_def
        split: sum.split prod.split)
qed

lemma submit_handler:
  "main_ends E (Submitting tx AddVerify) nd out \<longleftrightarrow> out = of_res (submit_tx E tx cs nd)"
  by (auto simp: submitting_ends submit_tx_def of_res_def bind_res_def Let_def split: sum.split prod.split)

lemma mine_handler: "handler_ends E i (Mine n) nd out \<longleftrightarrow> out = run_command E i (Mine n) nd"
  by (cases "joined nd")
    (simp_all add: handler_ends_def stopping_ends main_ends_moves cmd_mine_def cmd_stop_mining_def miner_start_def Let_def)

lemma exit_handler: "handler_ends E i Exit nd out \<longleftrightarrow> out = run_command E i Exit nd"
  by (cases "joined nd") (simp_all add: handler_ends_def stopping_ends main_ends_moves node_shutdown_def Let_def)

subsection \<open>The invariant of all threads\<close>

text \<open>The lines of a block that a worker builds: its coinbase and verified transactions.\<close>

definition lines_safe :: "env \<Rightarrow> string list \<Rightarrow> bool" where
  "lines_safe E ls \<longleftrightarrow> (\<exists>addr txs. CHR ''|'' \<notin> set addr \<and> ls = coinbase_line addr kCoinbaseReward # map tx_toLine txs
     \<and> (\<forall>tx \<in> set txs. sender_clear tx \<and> tx_verify E tx = Inr True))"

fun pc_safe :: "env \<Rightarrow> pc \<Rightarrow> bool" where
  "pc_safe E (Building ls) \<longleftrightarrow> lines_safe E ls"
| "pc_safe E (InnerTest b) \<longleftrightarrow> lines_safe E (blk_transactions b)"
| "pc_safe E (TryHash b) \<longleftrightarrow> lines_safe E (blk_transactions b)"
| "pc_safe E (Append b) \<longleftrightarrow> lines_safe E (blk_transactions b)"
| "pc_safe E (Apply b) \<longleftrightarrow> lines_safe E (blk_transactions b)"
| "pc_safe E _ \<longleftrightarrow> True"

lemma coinbase_type:
  assumes "starts_with (tx_toLine tx) ''COINBASE|''" "bar_free tx"
  shows "tx_type tx = ''COINBASE''"
proof -
  obtain r where r: "tx_toLine tx = ''COINBASE|'' @ r" using assms(1) by (auto simp: starts_with_iff)
  have "takeWhile (\<lambda>c. c \<noteq> CHR ''|'') (tx_toLine tx) = tx_type tx"
    using assms(2) by (simp add: tx_toLine_def takeWhile_append bar_free_def)
  then show ?thesis by (simp add: r)
qed

lemma verified_line_applies:
  assumes "bar_free tx" "tx_verify E tx = Inr True" "tx_type tx \<noteq> ''COINBASE''"
  shows "\<exists>st'. applyLine E (tx_toLine tx) st = Inr st'"
proof -
  have "find_char (tx_toLine tx) (CHR ''|'') 0 \<noteq> None" by (simp add: find_char_0_None tx_toLine_def)
  then have "applyLine E (tx_toLine tx) st = applyTxLocked E tx st"
    using assms(1,3) coinbase_type by (auto simp: applyLine_def txc.dec_enc)
  then show ?thesis using applyTx_returns[OF assms(2)] by simp
qed

lemma verified_lines_apply:
  assumes "\<forall>tx \<in> set txs. bar_free tx \<and> tx_verify E tx = Inr True \<and> tx_type tx \<noteq> ''COINBASE''"
  shows "\<exists>st'. fold_res (applyLine E) (map tx_toLine txs) st = Inr st'"
  using assms
proof (induction txs arbitrary: st)
  case (Cons tx txs)
  then obtain st1 where "applyLine E (tx_toLine tx) st = Inr st1" using verified_line_applies by fastforce
  with Cons show ?case by simp
qed simp

text \<open>
  A block of safe lines is applied without exception, unless a transaction poses as a coinbase or a
  line has too many fields.
\<close>

definition has_forged_coinbase :: "block \<Rightarrow> bool" where
  "has_forged_coinbase b \<longleftrightarrow> (\<exists>tx. bar_free tx \<and> tx_type tx = ''COINBASE'' \<and> tx_toLine tx \<in> set (blk_transactions b))"

definition has_barred :: "block \<Rightarrow> bool" where
  "has_barred b \<longleftrightarrow> (\<exists>l \<in> set (blk_transactions b). barred l)"

lemma safe_block_applies:
  assumes "lines_safe E (blk_transactions b)" "\<not> has_forged_coinbase b" "\<not> has_barred b"
  shows "\<exists>st'. applyBlock E b st = Inr st'"
proof -
  obtain addr txs where b: "blk_transactions b = coinbase_line addr kCoinbaseReward # map tx_toLine txs"
    "CHR ''|'' \<notin> set addr" "\<forall>tx \<in> set txs. sender_clear tx \<and> tx_verify E tx = Inr True"
    using assms(1) by (auto simp: lines_safe_def)
  then have "\<forall>tx \<in> set txs. bar_free tx \<and> tx_verify E tx = Inr True \<and> tx_type tx \<noteq> ''COINBASE''"
    using assms(2,3) by (auto simp: has_forged_coinbase_def has_barred_def barred_toLine)
  from verified_lines_apply[OF this] b show ?thesis by (simp add: applyBlock_def applyLine_coinbase)
qed

text \<open>
  What a worker can throw at: a pending line, or a line of its block, that has too many fields, and
  a forged coinbase in its block.
\<close>

fun doomed :: "pc \<Rightarrow> shared \<Rightarrow> bool" where
  "doomed TakeTxs s \<longleftrightarrow> (\<exists>l \<in> set (mp_pending (sh_mempool s)). barred l)"
| "doomed (Apply b) s \<longleftrightarrow> has_forged_coinbase b \<or> has_barred b"
| "doomed _ s \<longleftrightarrow> False"

lemma worker_throws_only:
  assumes "worker_step E now addr i p s = Inl e" "pc_safe E p" "clear_queue E (sh_mempool s)"
  shows "doomed p s"
proof (cases p)
  case TakeTxs
  with assms(1) clear_queue_take[OF assms(3), of kMaxTxPerBlock] show ?thesis by (auto simp: bind_res_Inl_iff)
next
  case (Apply b)
  with assms(1,2) safe_block_applies[of E b "sh_state s"] show ?thesis by (auto simp: bind_res_Inl_iff)
qed (use assms(1) in \<open>auto simp: Let_def split: prod.splits\<close>)

lemma worker_pc_safe:
  assumes "worker_step E now addr i p s = Inr (p', s')" "pc_safe E p" "clear_queue E (sh_mempool s)" "CHR ''|'' \<notin> set addr"
  shows "pc_safe E p'"
proof (cases p)
  case TakeTxs
  with assms(1,4) clear_queue_take[OF assms(3), of kMaxTxPerBlock] show ?thesis
    by (auto simp: bind_res_Inr_iff lines_safe_def)
qed (use assms(1,2) in \<open>auto simp: Let_def bind_res_Inr_iff buildCandidate_def next_nonce_def split: prod.splits if_splits\<close>)

subsection \<open>The main thread in the invariant\<close>

fun main_ok :: "env \<Rightarrow> main_pc \<Rightarrow> bool" where
  "main_ok E (Submitting tx p) \<longleftrightarrow> clear_adder E (tx, p)"
| "main_ok E _ \<longleftrightarrow> True"

definition server_ok :: "main_pc \<Rightarrow> node \<Rightarrow> bool" where
  "server_ok pc nd \<longleftrightarrow> pc = Ended \<or> (nd_listening nd \<longleftrightarrow> ps_running (nd_server nd))"

text \<open>What the node keeps whichever thread moves.\<close>

definition node_safe :: "env \<Rightarrow> node \<Rightarrow> bool" where
  "node_safe E nd \<longleftrightarrow> chain_inv E (sh_chain (nd_shared nd)) \<and> clear_queue E (sh_mempool (nd_shared nd))
     \<and> ns_peerCount (sh_status (nd_shared nd)) = int (length (nd_peers nd))
     \<and> CHR ''|'' \<notin> set (wal_address (nd_wallet nd)) \<and> (\<forall>p \<in> set (nd_workers nd). pc_safe E p)"

lemma sync_move_frame:
  assumes "sync_move E q s = Inr (q', s')" "chain_inv E (sh_chain s)"
  shows "chain_inv E (sh_chain s')" "sh_mempool s' = sh_mempool s"
    "ns_peerCount (sh_status s') = ns_peerCount (sh_status s)"
proof -
  have "chain_inv E (sh_chain s') \<and> sh_mempool s' = sh_mempool s \<and> ns_peerCount (sh_status s') = ns_peerCount (sh_status s)"
  proof (cases q)
    case (SyncReplace bs)
    with assms replace_inv[OF assms(2), of bs] show ?thesis by (auto split: prod.splits)
  next
    case (SyncReplay bs)
    with assms show ?thesis by (cases bs) (auto simp: bind_res_Inr_iff)
  qed (use assms in auto)
  then show "chain_inv E (sh_chain s')" "sh_mempool s' = sh_mempool s"
    "ns_peerCount (sh_status s') = ns_peerCount (sh_status s)" by simp_all
qed

lemma add_move_status: "add_move E tx p s = Inr (p', s') \<Longrightarrow> sh_status s' = sh_status s"
  by (cases p) (auto simp: bind_res_Inr_iff Let_def split: if_splits)

lemma begin_safe:
  assumes "main_begin E i c nd = Inr (pc, nd')" "node_safe E nd" "server_ok Prompt nd"
  shows "node_safe E nd'" "server_ok pc nd'" "\<not> main_holds pc"
  using assms
  by (cases c; auto simp: sync_begin_def bind_res_Inr_iff Let_def node_safe_def server_ok_def remember_peer_def
      cmd_set_peer_def cmd_join_net_def cmd_listen_def ensureListening_def peer_server_start_def
      split: if_splits option.splits prod.splits)+

text \<open>A transaction of the user: whatever its receiver, its type is the command's and its sender the wallet.\<close>

lemma begin_main_ok:
  assumes "main_begin E i c nd = Inr (pc, nd')" "node_safe E nd"
  shows "main_ok E pc"
proof -
  have "CHR ''|'' \<notin> set (wal_address (nd_wallet nd))" using assms(2) by (simp add: node_safe_def)
  with assms(1) show ?thesis
    by (cases c) (auto simp: sync_begin_def bind_res_Inr_iff Let_def clear_adder_def sender_clear_def createSigned_def
        createUsernameRegistration_def split: if_splits option.splits prod.splits)
qed

lemma main_move_submitting:
  "\<nexists>err. p = AddEnd err \<Longrightarrow> main_move E (Submitting tx p) nd =
     (case add_move E tx p (nd_shared nd) of
        Inl e \<Rightarrow> Throws e
      | Inr (p', s) \<Rightarrow> Moves (Submitting tx p') (nd\<lparr>nd_shared := s\<rparr>))"
  by (cases p) simp_all

lemma main_move_publishing:
  "\<nexists>ok. q = SyncEnd ok \<Longrightarrow> main_move E (Publishing q) nd =
     (case sync_move E q (nd_shared nd) of
        Inl e \<Rightarrow> Throws e
      | Inr (q', s) \<Rightarrow> Moves (Publishing q') (nd\<lparr>nd_shared := s\<rparr>))"
  by (cases q) simp_all

lemma main_holder_moves: "main_holds pc \<Longrightarrow> \<exists>pc' nd'. main_move E pc nd = Moves pc' nd' \<and> pc' \<noteq> pc"
proof (cases pc)
  case (Submitting tx p)
  assume "main_holds pc"
  with Submitting have p: "holds p" by simp
  then have "\<nexists>err. p = AddEnd err" by auto
  from main_move_submitting[OF this] holder_moves[OF p, of E tx "nd_shared nd"] Submitting show ?thesis by auto
qed simp_all

lemma move_safe:
  assumes "main_move E pc nd = Moves pc' nd'" "node_safe E nd" "server_ok pc nd" "main_ok E pc"
  shows "node_safe E nd' \<and> server_ok pc' nd' \<and> main_ok E pc' \<and> (main_holds pc' \<longrightarrow> main_holds pc \<or> main_wants pc)"
proof (cases pc)
  case (Submitting tx p)
  show ?thesis
  proof (cases "\<exists>err. p = AddEnd err")
    case True
    with Submitting assms show ?thesis by (auto simp: server_ok_def)
  next
    case False
    with Submitting assms(1) obtain p' s' where a: "add_move E tx p (nd_shared nd) = Inr (p', s')"
      "pc' = Submitting tx p'" "nd' = nd\<lparr>nd_shared := s'\<rparr>"
      by (auto simp: main_move_submitting split: sum.splits)
    have ok: "clear_adder E (tx, p)" "clear_queue E (sh_mempool (nd_shared nd))"
      using assms(2,4) Submitting by (simp_all add: node_safe_def)
    have "holds p' \<longrightarrow> holds p \<or> p = AddLock"
      using a(1) by (cases p) (auto simp: bind_res_Inr_iff split: if_splits)
    with a add_move_clear[OF a(1) ok] add_move_frame[OF a(1)] add_move_status[OF a(1)] assms(2,3) Submitting
    show ?thesis by (simp add: node_safe_def server_ok_def)
  qed
next
  case (Publishing q)
  show ?thesis
  proof (cases "\<exists>ok. q = SyncEnd ok")
    case True
    with Publishing assms show ?thesis by (auto simp: server_ok_def)
  next
    case False
    with Publishing assms(1) obtain q' s' where a: "sync_move E q (nd_shared nd) = Inr (q', s')"
      "pc' = Publishing q'" "nd' = nd\<lparr>nd_shared := s'\<rparr>"
      by (auto simp: main_move_publishing split: sum.splits)
    have "chain_inv E (sh_chain (nd_shared nd))" using assms(2) by (simp add: node_safe_def)
    from sync_move_frame[OF a(1) this] a(2,3) assms(2,3) Publishing show ?thesis
      by (simp add: node_safe_def server_ok_def)
  qed
next
  case (AddTry now k tx b)
  with assms tryAppend_inv[of E "sh_chain (nd_shared nd)" b] show ?thesis
    by (auto simp: node_safe_def server_ok_def split: prod.splits if_splits)
qed (use assms in \<open>auto simp: node_safe_def server_ok_def miner_start_def miner_stop_request_def miner_stop_done_def
      setDifficulty_def chain_inv_def split: option.splits if_splits after_stop.splits\<close>)

subsection \<open>All threads in the invariant\<close>

definition conc_inv :: "env \<Rightarrow> conc \<Rightarrow> bool" where
  "conc_inv E c \<longleftrightarrow> (case c of (pc, adders, locked, nd) \<Rightarrow>
     node_safe E nd \<and> server_ok pc nd \<and> main_ok E pc \<and> (\<forall>a \<in> set adders. clear_adder E a)
     \<and> holders adders + (if main_holds pc then 1 else 0) = (if locked then 1 else 0))"

lemma conc_init_inv: "conc_init E c \<Longrightarrow> conc_inv E c"
proof -
  assume "conc_init E c"
  then obtain nd where c: "c = (Prompt, [], False, nd)" "node_init E nd" "CHR ''|'' \<notin> set (wal_address (nd_wallet nd))"
    by (auto simp: conc_init_def)
  have "node_inv E nd" using c(2) by (rule node_start_inv)
  moreover have "nd_workers nd = []" "sh_mempool (nd_shared nd) = mempool_empty"
    using c(2) by (auto simp: node_init_def node_start_def bind_res_Inr_iff)
  moreover note clear_queue_empty[of E]
  ultimately show ?thesis
    using c(1,3) by (simp add: conc_inv_def node_safe_def node_inv_def server_ok_def holders_def)
qed

lemma conc_step_inv:
  assumes "conc_step E c c'" "conc_inv E c"
  shows "conc_inv E c'"
  using assms(1)
proof cases
  case (typed i line nd pc nd' adders locked)
  with assms(2) have p: "node_safe E nd" "server_ok Prompt nd" by (simp_all add: conc_inv_def)
  note b = begin_safe[OF typed(3) p]
  with begin_main_ok[OF typed(3) p(1)] typed assms(2) show ?thesis by (simp add: conc_inv_def)
next
  case (main pc nd pc' nd' locked adders)
  with assms(2) have p: "node_safe E nd" "server_ok pc nd" "main_ok E pc"
    and h: "holders adders + (if main_holds pc then 1 else 0) = (if locked then 1 else 0)"
    by (simp_all add: conc_inv_def)
  from move_safe[OF main(3) p] h main assms(2) show ?thesis
    by (auto simp: conc_inv_def main_lock_def split: if_splits)
next
  case (arrive line tx pc adders locked nd)
  with assms(2) sender_clear_bar_free[OF tx_fromLine_bar_free[OF arrive(3)]] show ?thesis
    by (auto simp: conc_inv_def clear_adder_def holders_def)
next
  case (add k adders tx p locked nd p' s' pc)
  have inv: "node_safe E nd" "\<forall>a \<in> set adders. clear_adder E a" "server_ok pc nd" "main_ok E pc"
    "holders adders + (if main_holds pc then 1 else 0) = (if locked then 1 else 0)"
    using add(1) assms(2) by (simp_all add: conc_inv_def)
  have ok: "clear_adder E (tx, p)" "clear_queue E (sh_mempool (nd_shared nd))"
    using inv(1,2) add(3,4) by (auto simp: node_safe_def dest: nth_mem)
  have "node_safe E (nd\<lparr>nd_shared := s'\<rparr>)"
    using add_move_clear(1)[OF add(6) ok] add_move_frame[OF add(6)] add_move_status[OF add(6)] inv(1)
    by (simp add: node_safe_def)
  moreover have "\<forall>a \<in> set (adders[k := (tx, p')]). clear_adder E a"
    using add_move_clear(2)[OF add(6) ok] inv(2) by (auto dest!: set_update_subset_insert[THEN subsetD])
  moreover have "holders (adders[k := (tx, p')]) + (if main_holds pc then 1 else 0) = (if lock_after p p' locked then 1 else 0)"
  proof -
    have "\<not> locked \<Longrightarrow> \<not> holds p"
      using inv(5) add(3,4) holders_unlocked[of adders tx p] by (metis add_is_0 nth_mem)
    moreover have "holds p \<Longrightarrow> \<not> main_holds pc"
    proof
      assume "holds p" "main_holds pc"
      with inv(5) have "holders adders = 0" by (simp split: if_splits)
      with holders_unlocked[of adders tx p] add(3,4) \<open>holds p\<close> show False by (metis nth_mem)
    qed
    moreover have "holds p' \<Longrightarrow> holds p \<or> p = AddLock"
      using add(6) by (cases p) (auto simp: bind_res_Inr_iff split: if_splits)
    ultimately show ?thesis
      using holders_update[OF add(3), of tx p'] add(4,5) inv(5) by (auto simp: lock_after_def split: if_splits)
  qed
  ultimately show ?thesis using add(2) inv(3,4) by (simp add: conc_inv_def server_ok_def)
next
  case (worker i nd locked now pc' s' pc adders)
  have inv: "node_safe E nd" using worker(1) assms(2) by (simp add: conc_inv_def)
  then have p: "pc_safe E (nd_workers nd ! i)" "clear_queue E (sh_mempool (nd_shared nd))"
    "CHR ''|'' \<notin> set (wal_address (nd_wallet nd))" "chain_inv E (sh_chain (nd_shared nd))"
    using worker(3) by (auto simp: node_safe_def)
  have "chain_inv E (sh_chain s')" "ns_peerCount (sh_status s') = ns_peerCount (sh_status (nd_shared nd))"
    using worker_chain[OF worker(5)] p(4) tryAppend_inv[OF p(4)] by auto
  with worker_pc_safe[OF worker(5) p(1-3)] worker_clear_queue[OF worker(5) p(2)] inv
  have "node_safe E (nd\<lparr>nd_workers := (nd_workers nd)[i := pc'], nd_shared := s'\<rparr>)"
    by (auto simp: node_safe_def dest!: set_update_subset_insert[THEN subsetD])
  with worker(1,2) assms(2) show ?thesis by (simp add: conc_inv_def server_ok_def)
next
  case (hashrate pc adders locked nd)
  with assms(2) show ?thesis by (simp add: conc_inv_def node_safe_def server_ok_def hashrate_turn_def)
qed

interpretation concurrent: invariant_system "conc_init E" "conc_step E" "conc_inv E" for E
  by unfold_locales (auto intro: conc_init_inv conc_step_inv)

text \<open>Seen from the chain, every step of the node is one of the chain's operations or none.\<close>

lemma move_chain:
  assumes "main_move E pc nd = Moves pc' nd'"
  shows "(chain_step E)\<^sup>*\<^sup>* (sh_chain (nd_shared nd)) (sh_chain (nd_shared nd'))"
proof (cases pc)
  case (AddTry now k tx b)
  with assms chain_step.append[of E "sh_chain (nd_shared nd)" b] show ?thesis by (auto split: prod.splits)
next
  case (Retargeting d)
  with assms chain_step.set_difficulty[of E "sh_chain (nd_shared nd)" d] show ?thesis by auto
next
  case (Submitting tx p)
  with assms show ?thesis
    by (cases "\<exists>err. p = AddEnd err") (auto simp: main_move_submitting add_move_frame split: sum.splits)
next
  case (Publishing q)
  then show ?thesis
  proof (cases q)
    case (SyncReplace bs)
    with assms Publishing chain_step.replace[of E "sh_chain (nd_shared nd)" bs] show ?thesis by (auto split: prod.splits)
  next
    case (SyncReplay bs)
    with assms Publishing show ?thesis by (cases bs) (auto simp: bind_res_def split: sum.splits)
  qed (use assms Publishing in auto)
qed (use assms in \<open>auto simp: miner_start_def miner_stop_request_def miner_stop_done_def
      split: option.splits if_splits after_stop.splits\<close>)

lemma begin_chain:
  "main_begin E i c nd = Inr (pc, nd') \<Longrightarrow> sh_chain (nd_shared nd') = sh_chain (nd_shared nd)"
  by (cases c; auto simp: bind_res_Inr_iff Let_def remember_peer_def cmd_set_peer_def cmd_join_net_def cmd_listen_def
      ensureListening_def split: if_splits option.splits prod.splits)

interpretation node_chain: refining_system "conc_init E" "conc_step E" "chain_init E" "chain_step E"
    "\<lambda>(pc, adders, locked, nd). sh_chain (nd_shared nd)" for E
proof unfold_locales
  show "conc_init E c \<Longrightarrow> chain_init E (case c of (pc, adders, locked, nd) \<Rightarrow> sh_chain (nd_shared nd))" for c
    by (auto simp: conc_init_def node_init_def node_start_def chain_init_def bind_res_Inr_iff)
  show "(chain_step E)\<^sup>*\<^sup>* (case c of (pc, adders, locked, nd) \<Rightarrow> sh_chain (nd_shared nd))
      (case c' of (pc, adders, locked, nd) \<Rightarrow> sh_chain (nd_shared nd))" if "conc_step E c c'" for c c'
    using that
  proof cases
    case (worker i nd locked now pc' s' pc adders)
    from worker_chain[OF worker(5)] chain_step.append[of E "sh_chain (nd_shared nd)"] worker(1,2) show ?thesis by auto
  qed (auto simp: begin_chain move_chain add_move_frame hashrate_turn_def)
qed

subsection \<open>Properties\<close>

text \<open>
  C4: Every handler is the sequence of its locked steps. When no other thread moves, the steps of the
  main thread from the start of a command end in exactly the outcome that the model of the
  node gives the command as a whole, for every command, every input and every node: the node
  afterwards, an exception, a search without end, or waiting for threads that have not finished.
\<close>

theorem handler_is_its_steps:
  "handler_ends E i c nd out \<longleftrightarrow> out = run_command E i c nd"
proof (cases c)
  case (Send a n)
  then show ?thesis
    using submit_handler by (auto simp: handler_ends_def cmd_send_def Let_def of_res_def)
next
  case (RegisterUsername u)
  then show ?thesis
    using submit_handler by (auto simp: handler_ends_def cmd_register_username_def Let_def of_res_def)
next
  case (Add rest)
  then show ?thesis
    by (simp add: handler_ends_def add_ends cmd_add_def Let_def split: option.split)
next
  case (Difficulty d)
  then show ?thesis
    by (cases d) (simp_all add: handler_ends_def main_ends_moves cmd_difficulty_def)
next
  case Exit
  then show ?thesis using exit_handler by simp
next
  case InitNode
  then show ?thesis using sync_handler by simp
next
  case (Mine n)
  then show ?thesis using mine_handler by simp
qed (simp_all add: handler_ends_def stopping_ends)

text \<open>
  C3: The whole node, lock by lock. In every state that the user's commands, any number of mining
  threads, any number of peers that submit and the hash rate thread can reach, in any
  interleaving of their locked steps: the chain is one that its operations produce from a first
  block, and valid; the mempool holds the lines of verified
  transactions of distinct senders, one thread at most holds its mutex and then has a next
  step, the published number of peers is right, and no mining thread is about to throw, except one
  that reads a line of more than eight fields from the mempool or from its block, or one that applies a
  block holding a transaction whose type poses as a coinbase.
\<close>

theorem concurrent_node_safe:
  assumes "reach_from (conc_init E) (conc_step E) (pc, adders, locked, nd)"
  shows "reach_from (chain_init E) (chain_step E) (sh_chain (nd_shared nd)) \<and> isValid E (sh_chain (nd_shared nd))
    \<and> (\<exists>txs. queued (sh_mempool (nd_shared nd)) txs \<and> (\<forall>tx \<in> set txs. tx_verify E tx = Inr True))
    \<and> holders adders + (if main_holds pc then 1 else 0) = (if locked then 1 else 0)
    \<and> (\<forall>(tx, p) \<in> set adders. holds p \<longrightarrow> (\<exists>q s'. add_move E tx p (nd_shared nd) = Inr (q, s') \<and> q \<noteq> p))
    \<and> (main_holds pc \<longrightarrow> (\<exists>pc' nd'. main_move E pc nd = Moves pc' nd' \<and> pc' \<noteq> pc))
    \<and> ns_peerCount (sh_status (nd_shared nd)) = int (length (nd_peers nd))
    \<and> (\<forall>i now e. i < length (nd_workers nd)
        \<and> worker_step E now (wal_address (nd_wallet nd)) i (nd_workers nd ! i) (nd_shared nd) = Inl e
        \<longrightarrow> doomed (nd_workers nd ! i) (nd_shared nd))"
proof -
  have inv: "node_safe E nd" "holders adders + (if main_holds pc then 1 else 0) = (if locked then 1 else 0)"
    using concurrent.reach_inv[OF assms] by (simp_all add: conc_inv_def)
  then have "doomed (nd_workers nd ! i) (nd_shared nd)"
    if "i < length (nd_workers nd)"
      "worker_step E now (wal_address (nd_wallet nd)) i (nd_workers nd ! i) (nd_shared nd) = Inl e" for i now e
    using worker_throws_only[OF that(2)] that(1) by (auto simp: node_safe_def)
  moreover have "reach_from (chain_init E) (chain_step E) (sh_chain (nd_shared nd))"
    using node_chain.abs_reach[OF assms] by simp
  moreover have "\<forall>(tx, p) \<in> set adders. holds p \<longrightarrow> (\<exists>q s'. add_move E tx p (nd_shared nd) = Inr (q, s') \<and> q \<noteq> p)"
    using holder_moves by blast
  moreover have "main_holds pc \<longrightarrow> (\<exists>pc' nd'. main_move E pc nd = Moves pc' nd' \<and> pc' \<noteq> pc)"
    using main_holder_moves by blast
  ultimately show ?thesis using inv by (auto simp: node_safe_def clear_queue_def isValid_iff chain_inv_def)
qed

text \<open>The sample node has started mining while a peer's submission holds the mutex.\<close>

lemma sample_mine_reach:
  "\<exists>nd. reach_from (conc_init sample_env) (conc_step sample_env) (Prompt, [], False, nd)
    \<and> nd_workers nd = [OuterTest] \<and> sh_chain (nd_shared nd) = sample_chain"
proof -
  let ?reach = "reach_from (conc_init sample_env) (conc_step sample_env)"
  let ?nd1 = "sample_node\<lparr>nd_shared := miner_stop_request (nd_shared sample_node)\<rparr>"
  let ?nd2 = "?nd1\<lparr>nd_workers := [], nd_shared := miner_stop_done (nd_shared ?nd1)\<rparr>"
  let ?nd3 = "?nd2\<lparr>nd_workers := fst (miner_start 1 (nd_shared ?nd2)), nd_shared := snd (miner_start 1 (nd_shared ?nd2))\<rparr>"
  have a: "CHR ''|'' \<notin> set (wal_address (nd_wallet sample_node))"
    using sample_wallet_ok sample_env_ok by (simp add: sample_node_def wallet_ok_def)
  have "?reach (Prompt, [], False, sample_node)"
    by (rule reach_init) (use sample_node_init a in \<open>simp add: conc_init_def\<close>)
  moreover have "conc_step sample_env (Prompt, [], False, sample_node) (Stopping (ThenStart 1), [], False, sample_node)"
  proof (rule typed)
    have "stream_tokens ''mine'' = [''mine'']" by (rule stream_tokens_last) (simp add: solid_def is_space_def)
    then have "parse_command ''mine'' = Mine 1" by (simp add: parse_command_def token_arg_def)
    then show "main_begin sample_env i (parse_command ''mine'') sample_node = Inr (Stopping (ThenStart 1), sample_node)" for i
      by simp
  qed
  moreover have "conc_step sample_env (Stopping (ThenStart 1), [], False, sample_node) (Joining (ThenStart 1), [], False, ?nd1)"
    using conc_step.main[of sample_env "Stopping (ThenStart 1)" sample_node "Joining (ThenStart 1)" ?nd1 False "[]"]
    by (simp add: main_lock_def)
  moreover have "conc_step sample_env (Joining (ThenStart 1), [], False, ?nd1) (Starting 1, [], False, ?nd2)"
    using conc_step.main[of sample_env "Joining (ThenStart 1)" ?nd1 "Starting 1" ?nd2 False "[]"]
    by (simp add: main_lock_def joined_def sample_node_def)
  moreover have "conc_step sample_env (Starting 1, [], False, ?nd2) (Prompt, [], False, ?nd3)"
    using conc_step.main[of sample_env "Starting 1" ?nd2 Prompt ?nd3 False "[]"]
    by (simp add: main_lock_def case_prod_beta)
  ultimately have "?reach (Prompt, [], False, ?nd3)" by (meson reach_step)
  moreover have "nd_workers ?nd3 = [OuterTest]" "sh_chain (nd_shared ?nd3) = sample_chain"
    by (simp_all add: miner_start_def miner_stop_done_def miner_stop_request_def sample_node_def sample_shared_def)
  ultimately show ?thesis by blast
qed

theorem concurrent_node_safe_witness:
  "\<exists>nd. reach_from (conc_init sample_env) (conc_step sample_env) (Prompt, [(sample_tx, AddNonce)], True, nd)
     \<and> nd_workers nd = [OuterTest] \<and> isValid sample_env (sh_chain (nd_shared nd))"
proof -
  let ?reach = "reach_from (conc_init sample_env) (conc_step sample_env)"
  obtain nd where nd: "?reach (Prompt, [], False, nd)" "nd_workers nd = [OuterTest]"
    using sample_mine_reach by blast
  have v: "tx_verify sample_env sample_tx = Inr True" using sample_admissible by (simp add: admissible_def)
  have "tx_fromLine (tx_toLine sample_tx) = Inr sample_tx" using sample_tx_ok(1) by (rule txc.dec_enc)
  from reach_step[OF nd(1) conc_step.arrive[OF this]] have "?reach (Prompt, [(sample_tx, AddVerify)], False, nd)" by simp
  moreover have "conc_step sample_env (Prompt, [(sample_tx, AddVerify)], False, nd) (Prompt, [(sample_tx, AddLock)], False, nd)"
    using conc_step.add[of 0 "[(sample_tx, AddVerify)]" sample_tx AddVerify False sample_env nd AddLock "nd_shared nd" Prompt] v
    by (simp add: lock_after_def)
  moreover have "conc_step sample_env (Prompt, [(sample_tx, AddLock)], False, nd) (Prompt, [(sample_tx, AddNonce)], True, nd)"
    using conc_step.add[of 0 "[(sample_tx, AddLock)]" sample_tx AddLock False sample_env nd AddNonce "nd_shared nd" Prompt]
    by (simp add: lock_after_def)
  ultimately have r: "?reach (Prompt, [(sample_tx, AddNonce)], True, nd)" by (meson reach_step)
  with concurrent_node_safe[OF r] nd(2) show ?thesis by blast
qed

end
