(* ===== verification/Stop_Mining.thy ===== *)
theory Stop_Mining
  imports Node_Theorems
begin

text \<open>
  \<^verbatim>\<open>stop-mining\<close> ends. \<^verbatim>\<open>Miner::stop\<close> sets the stop flag and joins every worker; each worker reads the
  flag in both of its loops. Once the flag is set, every step of a worker brings it closer to
  its end, whatever the difficulty and whatever the other threads do in between, and no thread
  clears the flag.
\<close>

subsection \<open>How far a worker is from its end\<close>

fun pc_rank :: "pc \<Rightarrow> nat" where
  "pc_rank Finished = 0"
| "pc_rank OuterTest = 1"
| "pc_rank (StoreDifficulty d) = 2"
| "pc_rank (InnerTest b) = 2"
| "pc_rank PubDifficulty = 3"
| "pc_rank (Building ls) = 3"
| "pc_rank (StoreHeight h) = 4"
| "pc_rank TakeTxs = 4"
| "pc_rank PubHeight = 5"
| "pc_rank (Apply b) = 6"
| "pc_rank (Append b) = 7"
| "pc_rank (TryHash b) = 8"

lemma pc_rank_zero [simp]: "pc_rank p = 0 \<longleftrightarrow> p = Finished"
  by (cases p) simp_all

lemma pc_rank_bound: "pc_rank p \<le> 8"
  by (cases p) simp_all

text \<open>The flag is kept, and a worker that is not finished moves down.\<close>

lemma worker_flag: "worker_step E now addr i p s = Inr (p', s') \<Longrightarrow> sh_stopFlag s' = sh_stopFlag s"
  by (cases p) (auto simp: bind_res_Inr_iff Let_def split: prod.splits)

lemma worker_rank:
  assumes "worker_step E now addr i p s = Inr (p', s')" "sh_stopFlag s" "p \<noteq> Finished"
  shows "pc_rank p' < pc_rank p"
  using assms by (cases p) (auto simp: bind_res_Inr_iff Let_def split: prod.splits if_splits)

definition total_rank :: "pc list \<Rightarrow> nat" where
  "total_rank pcs = sum_list (map pc_rank pcs)"

lemma total_rank_zero: "total_rank pcs = 0 \<longleftrightarrow> (\<forall>p \<in> set pcs. p = Finished)"
  by (auto simp: total_rank_def)

lemma total_rank_bound: "total_rank pcs \<le> 8 * length pcs"
  using sum_list_mono[of pcs pc_rank "\<lambda>_. 8"] pc_rank_bound
  by (simp add: total_rank_def sum_list_triv mult.commute)

lemma total_rank_update:
  "i < length pcs \<Longrightarrow> total_rank (pcs[i := p]) + pc_rank (pcs ! i) = total_rank pcs + pc_rank p"
proof (induction pcs arbitrary: i)
  case (Cons q pcs)
  then show ?case by (cases i) (auto simp: total_rank_def)
qed simp

subsection \<open>Runs, counting the steps of unfinished workers\<close>

inductive stopping :: "env \<Rightarrow> string \<Rightarrow> nat \<Rightarrow> node_threads \<Rightarrow> node_threads \<Rightarrow> bool"
  for E :: env and addr :: string where
  start: "stopping E addr 0 ps ps"
| busy: "stopping E addr n ps (pcs, s) \<Longrightarrow> i < length pcs \<Longrightarrow> pcs ! i \<noteq> Finished \<Longrightarrow>
    worker_step E now addr i (pcs ! i) s = Inr (pc', s') \<Longrightarrow>
    stopping E addr (Suc n) ps (pcs[i := pc'], s')"
| others: "stopping E addr n ps (pcs, s) \<Longrightarrow> mining_step E addr (pcs, s) (pcs, s') \<Longrightarrow>
    stopping E addr n ps (pcs, s')"

lemma mining_step_flag:
  "mining_step E addr (pcs, s) (pcs', s') \<Longrightarrow> sh_stopFlag s \<Longrightarrow> sh_stopFlag s'"
  by (cases rule: mining_step.cases)
    (auto simp: hashrate_turn_def miner_stop_request_def dest: worker_flag)

lemma stopping_rank:
  assumes "stopping E addr n (pcs, s) (pcs', s')" "sh_stopFlag s"
  shows "sh_stopFlag s' \<and> n + total_rank pcs' \<le> total_rank pcs \<and> length pcs' = length pcs"
proof -
  have "fst ps = pcs \<and> snd ps = s \<Longrightarrow> sh_stopFlag (snd ps')
      \<and> n + total_rank (fst ps') \<le> total_rank pcs \<and> length (fst ps') = length pcs"
    if "stopping E addr n ps ps'" for n ps ps'
    using that
  proof (induction rule: stopping.induct)
    case (start ps)
    with assms(2) show ?case by simp
  next
    case (busy n ps pcs1 s1 i now pc' s1')
    from worker_rank[OF busy(4) _ busy(3)] worker_flag[OF busy(4)] total_rank_update[OF busy(2), of pc'] busy(5,6)
    show ?case by simp
  next
    case (others n ps pcs1 s1 s1')
    with mining_step_flag[OF others(2)] show ?case by simp
  qed
  from this[OF assms(1)] show ?thesis by simp
qed

text \<open>Every mining step is the step of an unfinished worker or leaves the workers alone.\<close>

lemma mining_step_stopping:
  assumes "stopping E addr n ps (pcs, s)" "mining_step E addr (pcs, s) (pcs', s')"
  shows "\<exists>m \<ge> n. stopping E addr m ps (pcs', s')"
  using assms(2)
proof cases
  case (worker i now pc')
  show ?thesis
  proof (cases "pcs ! i = Finished")
    case True
    with worker have "pcs' = pcs" "s' = s" by (auto simp: list_update_same_conv)
    with assms(1) show ?thesis by auto
  next
    case False
    from stopping.busy[OF assms(1) worker(2) False worker(3)] worker(1) show ?thesis by (intro exI[of _ "Suc n"]) simp
  qed
qed (use stopping.others[OF assms(1)] assms(2) in \<open>auto intro!: exI[of _ n]\<close>)

subsection \<open>Properties\<close>

text \<open>
  C27: Stopping the miner ends. Once the stop flag is set, in any interleaving of any number of
  workers with the other threads, the workers make at most eight steps each before all of them
  have finished, even when no nonce solves the block they work on; until then some worker has
  a next step (or one that throws), and when they have finished the command that joins them
  returns with no workers left.
\<close>

theorem stop_mining_ends:
  assumes "sh_stopFlag s" "stopping E addr n (pcs, s) (pcs', s')"
  shows "n \<le> 8 * length pcs
    \<and> (n = 8 * length pcs \<longrightarrow> (\<forall>p \<in> set pcs'. p = Finished))
    \<and> ((\<exists>p \<in> set pcs'. p \<noteq> Finished) \<longrightarrow>
        (\<exists>i < length pcs'. pcs' ! i \<noteq> Finished
          \<and> ((\<exists>ps''. stopping E addr (Suc n) (pcs, s) ps'') \<or> (\<exists>e. worker_step E now addr i (pcs' ! i) s' = Inl e))))
    \<and> ((\<forall>p \<in> set pcs'. p = Finished) \<longrightarrow>
        (\<exists>nd'. run_command E inp StopMining (nd\<lparr>nd_workers := pcs', nd_shared := s'\<rparr>) = Continue nd' \<and> nd_workers nd' = []))"
proof (intro conjI impI)
  note r = stopping_rank[OF assms(2,1)]
  show "n \<le> 8 * length pcs" using r total_rank_bound[of pcs] by linarith
  show "\<forall>p \<in> set pcs'. p = Finished" if "n = 8 * length pcs"
    using r total_rank_bound[of pcs] that total_rank_zero[of pcs'] by linarith
  show "\<exists>i < length pcs'. pcs' ! i \<noteq> Finished
      \<and> ((\<exists>ps''. stopping E addr (Suc n) (pcs, s) ps'') \<or> (\<exists>e. worker_step E now addr i (pcs' ! i) s' = Inl e))"
    if busy: "\<exists>p \<in> set pcs'. p \<noteq> Finished"
  proof -
    obtain i where i: "i < length pcs'" "pcs' ! i \<noteq> Finished" using busy by (auto simp: in_set_conv_nth)
    show ?thesis
    proof (cases "worker_step E now addr i (pcs' ! i) s'")
      case (Inr q)
      then show ?thesis using stopping.busy[OF assms(2) i] i by (cases q) blast
    qed (use i in auto)
  qed
  show "\<exists>nd'. run_command E inp StopMining (nd\<lparr>nd_workers := pcs', nd_shared := s'\<rparr>) = Continue nd' \<and> nd_workers nd' = []"
    if "\<forall>p \<in> set pcs'. p = Finished"
    using that by (simp add: joined_def cmd_stop_mining_def)
qed

theorem stop_mining_ends_witness:
  "\<exists>s'. stopping sample_env ''m'' 2 ([InnerTest sample_round_block], miner_stop_request sample_shared) ([Finished], s')
    \<and> (\<exists>nd'. run_command sample_env \<lparr>in_clock = \<lambda>_. 0, in_conns = [], in_listening = 3\<rparr> StopMining
           (sample_node\<lparr>nd_workers := [Finished], nd_shared := s'\<rparr>) = Continue nd'
         \<and> nd_workers nd' = [])"
proof -
  let ?s = "miner_stop_request sample_shared"
  have stop: "sh_stopFlag ?s" by (simp add: miner_stop_request_def)
  have 1: "worker_step sample_env 0 ''m'' 0 (InnerTest sample_round_block) ?s = Inr (OuterTest, ?s)"
    "worker_step sample_env 0 ''m'' 0 OuterTest ?s = Inr (Finished, ?s)" using stop by simp_all
  have "stopping sample_env ''m'' (Suc 0) ([InnerTest sample_round_block], ?s) ([OuterTest], ?s)"
    using stopping.busy[OF stopping.start, of 0 "[InnerTest sample_round_block]" sample_env 0 "''m''" ?s OuterTest ?s] 1 by simp
  from stopping.busy[OF this, of 0 0 Finished ?s] 1(2)
  have st: "stopping sample_env ''m'' 2 ([InnerTest sample_round_block], ?s) ([Finished], ?s)"
    by (simp add: numeral_2_eq_2)
  have "\<forall>p \<in> set [Finished]. p = Finished" by simp
  with stop_mining_ends[OF stop st] st show ?thesis by blast
qed

end
