(* ===== verification/Concurrent_Stop.thy ===== *)
theory Concurrent_Stop
  imports Concurrent_Laws Stop_Mining
begin

text \<open>
  Nothing keeps the user from stopping the miner. In the whole node, one lock at a time, the main
  thread joins the workers while submissions may hold the mutex that a worker waits for; there
  is always a way on to the prompt, unless a worker ends the process on a line that it cannot take.
\<close>

text \<open>A state in which a worker is about to throw.\<close>

definition about_to_throw :: "env \<Rightarrow> node \<Rightarrow> bool" where
  "about_to_throw E nd \<longleftrightarrow> (\<exists>i < length (nd_workers nd). doomed (nd_workers nd ! i) (nd_shared nd)
     \<and> (\<exists>now e. worker_step E now (wal_address (nd_wallet nd)) i (nd_workers nd ! i) (nd_shared nd) = Inl e))"

subsection \<open>The mutex is given back\<close>

fun add_rank :: "add_pc \<Rightarrow> nat" where
  "add_rank AddNonce = 3"
| "add_rank AddBalance = 2"
| "add_rank AddInsert = 1"
| "add_rank _ = 0"

lemma holder_rank:
  "holds p \<Longrightarrow> add_move E tx p s = Inr (p', s') \<Longrightarrow>
     sh_stopFlag s' = sh_stopFlag s \<and> (if holds p' then add_rank p' < add_rank p else True)"
  by (cases p) (auto simp: Let_def split: if_splits)

lemma mutex_given_back:
  assumes "k < length adders" "adders ! k = (tx, p)" "holds p"
  shows "\<exists>adders' s'. conc_run E (pc, adders, True, nd) (pc, adders', False, nd\<lparr>nd_shared := s'\<rparr>)
    \<and> sh_stopFlag s' = sh_stopFlag (nd_shared nd)"
  using assms
proof (induction "add_rank p" arbitrary: p adders nd rule: less_induct)
  case less
  obtain p' s' where m: "add_move E tx p (nd_shared nd) = Inr (p', s')" using holder_moves[OF less.prems(3)] by blast
  note r = holder_rank[OF less.prems(3) m]
  have "p = AddLock \<Longrightarrow> \<not> True" using less.prems(3) by auto
  from conc_step.add[OF less.prems(1,2) this m]
  have step: "conc_step E (pc, adders, True, nd) (pc, adders[k := (tx, p')], lock_after p p' True, nd\<lparr>nd_shared := s'\<rparr>)" .
  show ?case
  proof (cases "holds p'")
    case False
    then have "lock_after p p' True = False" using less.prems(3) by (simp add: lock_after_def)
    with step r show ?thesis by auto
  next
    case True
    then have "lock_after p p' True" by (simp add: lock_after_def)
    moreover obtain adders' s2 where "conc_run E (pc, adders[k := (tx, p')], True, nd\<lparr>nd_shared := s'\<rparr>)
        (pc, adders', False, nd\<lparr>nd_shared := s2\<rparr>)" "sh_stopFlag s2 = sh_stopFlag s'"
      using less.hyps[of p' "adders[k := (tx, p')]" "nd\<lparr>nd_shared := s'\<rparr>"] r True less.prems(1) by auto
    ultimately show ?thesis using step r by (auto intro: converse_rtranclp_into_rtranclp)
  qed
qed

lemma unlock:
  assumes "conc_inv E (pc, adders, locked, nd)" "\<not> main_holds pc"
  shows "\<exists>adders' s'. conc_run E (pc, adders, locked, nd) (pc, adders', False, nd\<lparr>nd_shared := s'\<rparr>)
    \<and> sh_stopFlag s' = sh_stopFlag (nd_shared nd)"
proof (cases locked)
  case False
  then show ?thesis by (intro exI[of _ adders] exI[of _ "nd_shared nd"]) auto
next
  case True
  with assms have "holders adders = 1" by (simp add: conc_inv_def)
  then have "filter (\<lambda>(tx, p). holds p) adders \<noteq> []" by (auto simp: holders_def)
  then obtain tx p where "(tx, p) \<in> set adders" "holds p" by (auto simp: filter_empty_conv)
  then show ?thesis using mutex_given_back True by (metis in_set_conv_nth)
qed

subsection \<open>The workers end\<close>

lemma workers_end:
  assumes "conc_inv E (Joining a, adders, locked, nd)" "sh_stopFlag (nd_shared nd)"
  shows "\<exists>adders' locked' nd'. conc_run E (Joining a, adders, locked, nd) (Joining a, adders', locked', nd')
    \<and> (joined nd' \<or> about_to_throw E nd')"
  using assms
proof (induction "total_rank (nd_workers nd)" arbitrary: adders locked nd rule: less_induct)
  case less
  show ?case
  proof (cases "joined nd")
    case False
    then obtain i where i: "i < length (nd_workers nd)" "nd_workers nd ! i \<noteq> Finished"
      by (auto simp: joined_def in_set_conv_nth)
    obtain adders1 s1 where free: "conc_run E (Joining a, adders, locked, nd) (Joining a, adders1, False, nd\<lparr>nd_shared := s1\<rparr>)"
      "sh_stopFlag s1" using unlock[OF less.prems(1)] less.prems(2) by auto
    let ?nd1 = "nd\<lparr>nd_shared := s1\<rparr>" and ?addr = "wal_address (nd_wallet nd)"
    have inv1: "conc_inv E (Joining a, adders1, False, ?nd1)"
      using concurrent.steps_inv[OF free(1) less.prems(1)] .
    show ?thesis
    proof (cases "worker_step E 0 ?addr i (nd_workers nd ! i) s1")
      case (Inl e)
      have "pc_safe E (nd_workers nd ! i)" "clear_queue E (sh_mempool s1)"
        using inv1 i(1) by (auto simp: conc_inv_def node_safe_def)
      with worker_throws_only[OF Inl] Inl i(1) have "about_to_throw E ?nd1" by (auto simp: about_to_throw_def)
      with free(1) show ?thesis by blast
    next
      case (Inr r)
      then obtain p' s2 where w: "worker_step E 0 ?addr i (nd_workers nd ! i) s1 = Inr (p', s2)" by (cases r) simp
      let ?nd2 = "nd\<lparr>nd_workers := (nd_workers nd)[i := p'], nd_shared := s2\<rparr>"
      have "conc_step E (Joining a, adders1, False, ?nd1) (Joining a, adders1, False, ?nd2)"
        using conc_step.worker[of i ?nd1 False E 0 p' s2 "Joining a" adders1] i(1) w by simp
      with free(1) have run: "conc_run E (Joining a, adders, locked, nd) (Joining a, adders1, False, ?nd2)" by simp
      have "total_rank (nd_workers ?nd2) < total_rank (nd_workers nd)"
        using worker_rank[OF w free(2) i(2)] total_rank_update[OF i(1), of p'] by simp
      from less.hyps[OF this concurrent.steps_inv[OF run less.prems(1)]] worker_flag[OF w] free(2)
      obtain adders' locked' nd' where "conc_run E (Joining a, adders1, False, ?nd2) (Joining a, adders', locked', nd')"
        "joined nd' \<or> about_to_throw E nd'" by auto
      with run show ?thesis by (meson rtranclp_trans)
    qed
  qed blast
qed

text \<open>While the main thread joins, the stop flag is set.\<close>

definition joining_flag :: "conc \<Rightarrow> bool" where
  "joining_flag c \<longleftrightarrow> (case c of (pc, adders, locked, nd) \<Rightarrow> (\<exists>a. pc = Joining a) \<longrightarrow> sh_stopFlag (nd_shared nd))"

lemma move_joining: "main_move E pc nd = Moves (Joining a) nd' \<Longrightarrow> sh_stopFlag (nd_shared nd')"
proof (cases pc)
  case (Submitting tx p)
  assume "main_move E pc nd = Moves (Joining a) nd'"
  with Submitting show ?thesis
    by (cases "\<exists>err. p = AddEnd err") (auto simp: main_move_submitting split: sum.splits)
next
  case (Publishing q)
  assume "main_move E pc nd = Moves (Joining a) nd'"
  with Publishing show ?thesis
    by (cases "\<exists>ok. q = SyncEnd ok") (auto simp: main_move_publishing split: sum.splits)
qed (auto simp: miner_start_def miner_stop_request_def split: option.splits if_splits prod.splits after_stop.splits)

lemma begin_not_joining: "main_begin E i c nd = Inr (pc, nd') \<Longrightarrow> pc \<noteq> Joining a"
  by (cases c) (auto simp: sync_begin_def bind_res_Inr_iff Let_def split: if_splits option.splits prod.splits)

lemma add_move_flag: "add_move E tx p s = Inr (p', s') \<Longrightarrow> sh_stopFlag s' = sh_stopFlag s"
  by (cases p) (auto simp: bind_res_Inr_iff Let_def split: if_splits)

interpretation joins: invariant_system "conc_init E" "conc_step E" joining_flag for E
proof unfold_locales
  show "conc_init E c \<Longrightarrow> joining_flag c" for c by (auto simp: conc_init_def joining_flag_def)
  show "joining_flag c'" if "joining_flag c" "conc_step E c c'" for c c'
    using that(2)
  proof cases
    case (typed i line nd pc nd' adders locked)
    with begin_not_joining show ?thesis by (auto simp: joining_flag_def)
  next
    case (main pc nd pc' nd' locked adders)
    with move_joining show ?thesis by (auto simp: joining_flag_def)
  qed (use that(1) in \<open>auto simp: joining_flag_def hashrate_turn_def worker_flag add_move_flag\<close>)
qed

subsection \<open>The end of the process\<close>

text \<open>
  The end of \<^verbatim>\<open>main\<close> waits for the workers and for the accepting thread, but the threads of
  \<^verbatim>\<open>handleClient\<close> are detached: \<^verbatim>\<open>main\<close> can return, and destroy the chain, the state and the mempool,
  with any submissions still on their way, even one that holds the mempool's mutex.
\<close>

lemma exit_leaves_handlers:
  assumes "reach_from (conc_init E) (conc_step E) (Prompt, adders, locked, nd)" "joined nd"
  shows "\<exists>nd'. reach_from (conc_init E) (conc_step E) (Ended, adders, locked, nd')"
proof -
  have "stream_tokens ''exit'' = [''exit'']" by (rule stream_tokens_last) (simp add: solid_def is_space_def)
  then have "parse_command ''exit'' = Exit" by (simp add: parse_command_def)
  then have "main_begin E i (parse_command ''exit'') n = Inr (Stopping ThenQuit, n)" for i n by simp
  then have 1: "conc_step E (Prompt, adders, locked, nd) (Stopping ThenQuit, adders, locked, nd)"
    by (rule conc_step.typed)
  have run: "conc_step E (pc, adders, locked, n) (pc', adders, locked, n')"
    if "main_move E pc n = Moves pc' n'" "\<not> main_wants pc" "\<not> main_holds pc" "\<not> main_holds pc'" for pc pc' n n'
    using conc_step.main[OF that(1), of locked adders] that(2-4) by (simp add: main_lock_def)
  let ?nd1 = "nd\<lparr>nd_shared := miner_stop_request (nd_shared nd)\<rparr>"
  let ?nd2 = "?nd1\<lparr>nd_workers := [], nd_shared := miner_stop_done (nd_shared ?nd1)\<rparr>"
  have 2: "conc_step E (Stopping ThenQuit, adders, locked, nd) (Joining ThenQuit, adders, locked, ?nd1)"
    by (rule run) simp_all
  have "joined ?nd1" using assms(2) by (simp add: joined_def)
  then have 3: "conc_step E (Joining ThenQuit, adders, locked, ?nd1) (Closing, adders, locked, ?nd2)"
    by (intro run) simp_all
  have 4: "\<exists>nd'. conc_step E (Closing, adders, locked, ?nd2) (Ended, adders, locked, nd')"
    by (intro exI run) simp_all
  from reach_step[OF reach_step[OF reach_step[OF assms(1) 1] 2] 3] 4 show ?thesis by (meson reach_step)
qed

subsection \<open>Properties\<close>

text \<open>
  C5: Mining can always be stopped. From every state that the whole node can reach, lock by lock, with
  the main thread at the prompt or anywhere in \<^verbatim>\<open>stop-mining\<close>, whatever workers and submissions are
  in the middle of and whoever holds the mutex, there is a way to the prompt with no worker left
  and the published state not mining, unless a worker meets a forged coinbase or a line of too many
  fields and ends the process.
\<close>

theorem stop_never_deadlocks:
  assumes "reach_from (conc_init E) (conc_step E) (pc, adders, locked, nd)"
    and "pc \<in> {Prompt, Stopping ThenPrompt, Joining ThenPrompt}"
  shows "\<exists>pc' adders' locked' nd'. conc_run E (pc, adders, locked, nd) (pc', adders', locked', nd')
    \<and> (pc' = Prompt \<and> nd_workers nd' = [] \<and> \<not> ns_mining (sh_status (nd_shared nd')) \<or> about_to_throw E nd')"
proof -
  have "stream_tokens ''stop-mining'' = [''stop-mining'']" by (rule stream_tokens_last) (simp add: solid_def is_space_def)
  then have "parse_command ''stop-mining'' = StopMining" by (simp add: parse_command_def)
  then have "main_begin E i (parse_command ''stop-mining'') n = Inr (Stopping ThenPrompt, n)" for i n by simp
  then have 1: "conc_step E (Prompt, adders, locked, n) (Stopping ThenPrompt, adders, locked, n)" for n
    by (rule conc_step.typed)
  let ?nd1 = "nd\<lparr>nd_shared := miner_stop_request (nd_shared nd)\<rparr>"
  have 2: "conc_step E (Stopping ThenPrompt, adders, locked, nd) (Joining ThenPrompt, adders, locked, ?nd1)"
    using conc_step.main[of E "Stopping ThenPrompt" nd "Joining ThenPrompt" ?nd1 locked adders] by (simp add: main_lock_def)
  have "conc_run E (Prompt, adders, locked, nd) (Joining ThenPrompt, adders, locked, ?nd1)"
    "conc_run E (Stopping ThenPrompt, adders, locked, nd) (Joining ThenPrompt, adders, locked, ?nd1)"
    using 1[of nd] 2 by simp_all
  then obtain nd0 where start: "conc_run E (pc, adders, locked, nd) (Joining ThenPrompt, adders, locked, nd0)"
    using assms(2) by blast
  have reach: "reach_from (conc_init E) (conc_step E) (Joining ThenPrompt, adders, locked, nd0)"
    using start assms(1) by (rule reach_run)
  obtain adders' locked' nd' where ends: "conc_run E (Joining ThenPrompt, adders, locked, nd0) (Joining ThenPrompt, adders', locked', nd')"
    "joined nd' \<or> about_to_throw E nd'"
    using workers_end[OF concurrent.reach_inv[OF reach]] joins.reach_inv[OF reach] by (auto simp: joining_flag_def)
  have run: "conc_run E (pc, adders, locked, nd) (Joining ThenPrompt, adders', locked', nd')"
    using start ends(1) by (rule rtranclp_trans)
  show ?thesis
  proof (cases "joined nd'")
    case True
    let ?nd2 = "nd'\<lparr>nd_workers := [], nd_shared := miner_stop_done (nd_shared nd')\<rparr>"
    have "conc_step E (Joining ThenPrompt, adders', locked', nd') (Prompt, adders', locked', ?nd2)"
      using conc_step.main[of E "Joining ThenPrompt" nd' Prompt ?nd2 locked' adders'] True by (simp add: main_lock_def)
    with run have "conc_run E (pc, adders, locked, nd) (Prompt, adders', locked', ?nd2)"
      by (rule rtranclp.rtrancl_into_rtrancl)
    then show ?thesis
      by (intro exI[of _ Prompt] exI[of _ adders'] exI[of _ locked'] exI[of _ ?nd2]) (simp add: miner_stop_done_def)
  next
    case False
    with ends(2) run show ?thesis by blast
  qed
qed

theorem stop_never_deadlocks_witness:
  "\<exists>nd pc' adders' locked' nd'. nd_workers nd = [OuterTest]
    \<and> conc_run sample_env (Prompt, [], False, nd) (pc', adders', locked', nd')
    \<and> (pc' = Prompt \<and> nd_workers nd' = [] \<or> about_to_throw sample_env nd')"
proof -
  obtain nd where nd: "reach_from (conc_init sample_env) (conc_step sample_env) (Prompt, [], False, nd)" "nd_workers nd = [OuterTest]"
    using sample_mine_reach by blast
  from stop_never_deadlocks[OF nd(1)] nd(2) show ?thesis by blast
qed

text \<open>The sample node returns from \<^verbatim>\<open>main\<close> while a submission is about to check its signature.\<close>

lemma exit_leaves_handlers_example:
  "\<exists>nd. reach_from (conc_init sample_env) (conc_step sample_env) (Ended, [(sample_tx, AddVerify)], False, nd)"
proof -
  have "CHR ''|'' \<notin> set (wal_address (nd_wallet sample_node))"
    using sample_wallet_ok sample_env_ok by (simp add: sample_node_def wallet_ok_def)
  then have r: "reach_from (conc_init sample_env) (conc_step sample_env) (Prompt, [], False, sample_node)"
    by (intro reach_init) (use sample_node_init in \<open>simp add: conc_init_def\<close>)
  have "tx_fromLine (tx_toLine sample_tx) = Inr sample_tx" using sample_tx_ok(1) by (rule txc.dec_enc)
  from reach_step[OF r conc_step.arrive[OF this]]
  have "reach_from (conc_init sample_env) (conc_step sample_env) (Prompt, [(sample_tx, AddVerify)], False, sample_node)"
    by simp
  then show ?thesis by (rule exit_leaves_handlers) (simp add: joined_def sample_node_def)
qed

end
