(* ===== verification/Submission_Order.thy ===== *)
theory Submission_Order
  imports Submission
begin

text \<open>
  The mempool's operations in an order. Here \<^verbatim>\<open>add\<close>, \<^verbatim>\<open>take\<close> and \<^verbatim>\<open>size\<close> of
  \<^verbatim>\<open>src/mempool/mempool.hpp\<close> are taken apart to single accesses to the queue, the set of senders
  and the state store, with the mutex as a flag, for any number of threads that call them. As
  long as the state store does not change, the calls are what the same operations do one after
  the other, each as a whole and with the same result: the mutex makes the class linearizable,
  and the other theories may take an operation, or the end of one, as a step. Without the condition
  this is false (\<open>add_never_admissible\<close>).
\<close>

subsection \<open>The calls, access by access\<close>

datatype call =
    AddEnters transaction
  | AddWaits transaction
  | AddAsksNonce transaction
  | AddAsksBalance transaction
  | AddCounts transaction
  | AddMarks transaction
  | AddPushes transaction
  | AddReturned transaction string
  | TakeWaits nat
  | TakeTests nat "string list"
  | TakeReads nat "string list"
  | TakeErases nat "string list" string
  | TakeKeeps nat "string list"
  | TakePops nat "string list"
  | TakeReturned nat "string list"
  | SizeWaits
  | SizeReads
  | SizeReturned nat

text \<open>The points at which \<^verbatim>\<open>lock_guard\<close> waits for the mutex, and those at which it holds it.\<close>

fun waits :: "call \<Rightarrow> bool" where
  "waits (AddWaits _) \<longleftrightarrow> True"
| "waits (TakeWaits _) \<longleftrightarrow> True"
| "waits SizeWaits \<longleftrightarrow> True"
| "waits _ \<longleftrightarrow> False"

fun has_lock :: "call \<Rightarrow> bool" where
  "has_lock (AddAsksNonce _) \<longleftrightarrow> True"
| "has_lock (AddAsksBalance _) \<longleftrightarrow> True"
| "has_lock (AddCounts _) \<longleftrightarrow> True"
| "has_lock (AddMarks _) \<longleftrightarrow> True"
| "has_lock (AddPushes _) \<longleftrightarrow> True"
| "has_lock (TakeTests _ _) \<longleftrightarrow> True"
| "has_lock (TakeReads _ _) \<longleftrightarrow> True"
| "has_lock (TakeErases _ _ _) \<longleftrightarrow> True"
| "has_lock (TakeKeeps _ _) \<longleftrightarrow> True"
| "has_lock (TakePops _ _) \<longleftrightarrow> True"
| "has_lock SizeReads \<longleftrightarrow> True"
| "has_lock _ \<longleftrightarrow> False"

text \<open>\<^verbatim>\<open>front\<close> and \<^verbatim>\<open>pop_front\<close> of an empty \<^verbatim>\<open>deque\<close> are undefined.\<close>

definition front :: "mempool \<Rightarrow> string res" where
  "front m = (case mp_pending m of [] \<Rightarrow> Inl BufferOverflow | line # _ \<Rightarrow> Inr line)"

fun call_move :: "env \<Rightarrow> state_store \<Rightarrow> call \<Rightarrow> mempool \<Rightarrow> (call \<times> mempool) res" where
  "call_move E st (AddEnters tx) m =
     bind_res (tx_verify E tx) (\<lambda>ok. Inr (if \<not> ok then AddReturned tx ''invalid signature'' else AddWaits tx, m))"
| "call_move E st (AddWaits tx) m = Inr (AddAsksNonce tx, m)"
| "call_move E st (AddAsksNonce tx) m =
     (let expectedNonce = getNonce st (tx_sender tx)
      in Inr (if tx_nonce tx \<noteq> expectedNonce
              then AddReturned tx (''bad nonce (expected '' @ show_u64 expectedNonce @ '')'')
              else AddAsksBalance tx, m))"
| "call_move E st (AddAsksBalance tx) m =
     Inr (if tx_type tx = ''TRANSFER'' \<and> getBalance st (tx_sender tx) < tx_amount tx
          then AddReturned tx ''insufficient balance'' else AddCounts tx, m)"
| "call_move E st (AddCounts tx) m =
     Inr (if tx_sender tx \<in> mp_pendingSenders m
          then AddReturned tx ''sender already has a pending tx'' else AddMarks tx, m)"
| "call_move E st (AddMarks tx) m =
     Inr (AddPushes tx, m\<lparr>mp_pendingSenders := insert (tx_sender tx) (mp_pendingSenders m)\<rparr>)"
| "call_move E st (AddPushes tx) m = Inr (AddReturned tx [], m\<lparr>mp_pending := mp_pending m @ [tx_toLine tx]\<rparr>)"
| "call_move E st (TakeWaits n) m = Inr (TakeTests n [], m)"
| "call_move E st (TakeTests n out) m =
     Inr (if mp_pending m \<noteq> [] \<and> length out < n then TakeReads n out else TakeReturned n out, m)"
| "call_move E st (TakeReads n out) m =
     bind_res (front m) (\<lambda>line. bind_res (tx_fromLine line) (\<lambda>tx. Inr (TakeErases n out (tx_sender tx), m)))"
| "call_move E st (TakeErases n out sender) m =
     Inr (TakeKeeps n out, m\<lparr>mp_pendingSenders := mp_pendingSenders m - {sender}\<rparr>)"
| "call_move E st (TakeKeeps n out) m = bind_res (front m) (\<lambda>line. Inr (TakePops n (out @ [line]), m))"
| "call_move E st (TakePops n out) m = bind_res (front m) (\<lambda>_. Inr (TakeTests n out, m\<lparr>mp_pending := tl (mp_pending m)\<rparr>))"
| "call_move E st SizeWaits m = Inr (SizeReads, m)"
| "call_move E st SizeReads m = Inr (SizeReturned (length (mp_pending m)), m)"
| "call_move E st c m = Inr (c, m)"

text \<open>Each thread's call, the mutex and the mempool; the mutex is given back with the last access.\<close>

type_synonym calls = "call list \<times> bool \<times> mempool"

definition mutex_after :: "call \<Rightarrow> call \<Rightarrow> bool \<Rightarrow> bool" where
  "mutex_after c c' locked = (if has_lock c' then True else if has_lock c then False else locked)"

fun entered :: "call \<Rightarrow> bool" where
  "entered (AddEnters _) \<longleftrightarrow> True"
| "entered (TakeWaits _) \<longleftrightarrow> True"
| "entered SizeWaits \<longleftrightarrow> True"
| "entered _ \<longleftrightarrow> False"

inductive call_step :: "env \<Rightarrow> state_store \<Rightarrow> calls \<Rightarrow> calls \<Rightarrow> bool" for E :: env and st :: state_store where
  enter: "entered c \<Longrightarrow> call_step E st (cs, locked, m) (cs @ [c], locked, m)"
| move: "k < length cs \<Longrightarrow> (waits (cs ! k) \<Longrightarrow> \<not> locked) \<Longrightarrow> call_move E st (cs ! k) m = Inr (c', m') \<Longrightarrow>
    call_step E st (cs, locked, m) (cs[k := c'], mutex_after (cs ! k) c' locked, m')"

abbreviation call_run :: "env \<Rightarrow> state_store \<Rightarrow> calls \<Rightarrow> calls \<Rightarrow> bool" where
  "call_run E st \<equiv> (call_step E st)\<^sup>*\<^sup>*"

subsection \<open>Sequences of whole operations\<close>

datatype mempool_event = Added transaction string | Took nat "string list" | Sized nat

text \<open>One operation as a whole, with the result it is said to have.\<close>

definition event_effect :: "env \<Rightarrow> state_store \<Rightarrow> mempool_event \<Rightarrow> mempool \<Rightarrow> mempool option" where
  "event_effect E st e m =
     (case e of
        Added tx err \<Rightarrow> (case mempool_add E st tx m of Inr (err', m') \<Rightarrow> if err' = err then Some m' else None | _ \<Rightarrow> None)
      | Took n ls \<Rightarrow> (case mempool_take n m of Inr (ls', m') \<Rightarrow> if ls' = ls then Some m' else None | _ \<Rightarrow> None)
      | Sized k \<Rightarrow> (if mempool_size m = k then Some m else None))"

fun replay_events :: "env \<Rightarrow> state_store \<Rightarrow> mempool_event list \<Rightarrow> mempool \<Rightarrow> mempool option" where
  "replay_events E st [] m = Some m"
| "replay_events E st (e # es) m = Option.bind (event_effect E st e m) (replay_events E st es)"

lemma replay_events_append:
  "replay_events E st (es @ fs) m = Option.bind (replay_events E st es m) (replay_events E st fs)"
  by (induction es arbitrary: m) (simp_all split: Option.bind_split)

text \<open>The results that the threads have been given.\<close>

fun result :: "call \<Rightarrow> mempool_event option" where
  "result (AddReturned tx err) = Some (Added tx err)"
| "result (TakeReturned n ls) = Some (Took n ls)"
| "result (SizeReturned k) = Some (Sized k)"
| "result _ = None"

definition results :: "call list \<Rightarrow> mempool_event multiset" where
  "results cs = mset (List.map_filter result cs)"

lemma results_append: "results (cs @ ds) = results cs + results ds"
  by (simp add: results_def map_filter_def)

lemma results_update:
  assumes "k < length cs" "result (cs ! k) = None"
  shows "results (cs[k := c']) = results cs + (case result c' of None \<Rightarrow> {#} | Some e \<Rightarrow> {#e#})"
proof -
  have "results (c # ds) = (case result c of None \<Rightarrow> {#} | Some e \<Rightarrow> {#e#}) + results ds" for c ds
    by (cases "result c") (simp_all add: results_def map_filter_def)
  then show ?thesis
    using assms unfolding upd_conv_take_nth_drop[OF assms(1)]
    by (subst (3) id_take_nth_drop[OF assms(1)]) (simp add: results_append)
qed


subsection \<open>What a call has done so far\<close>

text \<open>
  \<open>a\<close> is the mempool that the calls which have returned leave behind, \<open>m\<close> the one in memory. A call
  that holds the mutex has made \<open>m\<close> from \<open>a\<close> by the first part of its operation; a call that
  does not has done nothing to it.
\<close>

fun progress :: "env \<Rightarrow> state_store \<Rightarrow> mempool \<Rightarrow> mempool \<Rightarrow> call \<Rightarrow> bool" where
  "progress E st a m (AddWaits tx) \<longleftrightarrow> tx_verify E tx = Inr True"
| "progress E st a m (AddAsksNonce tx) \<longleftrightarrow> tx_verify E tx = Inr True \<and> m = a"
| "progress E st a m (AddAsksBalance tx) \<longleftrightarrow>
     tx_verify E tx = Inr True \<and> tx_nonce tx = getNonce st (tx_sender tx) \<and> m = a"
| "progress E st a m (AddCounts tx) \<longleftrightarrow>
     tx_verify E tx = Inr True \<and> tx_nonce tx = getNonce st (tx_sender tx)
     \<and> \<not> (tx_type tx = ''TRANSFER'' \<and> getBalance st (tx_sender tx) < tx_amount tx) \<and> m = a"
| "progress E st a m (AddMarks tx) \<longleftrightarrow> admissible E st tx a \<and> m = a"
| "progress E st a m (AddPushes tx) \<longleftrightarrow>
     admissible E st tx a \<and> m = a\<lparr>mp_pendingSenders := insert (tx_sender tx) (mp_pendingSenders a)\<rparr>"
| "progress E st a m (TakeTests n out) \<longleftrightarrow>
     take_loop n [] (mp_pending a) (mp_pendingSenders a) = take_loop n out (mp_pending m) (mp_pendingSenders m)"
| "progress E st a m (TakeReads n out) \<longleftrightarrow> length out < n
     \<and> take_loop n [] (mp_pending a) (mp_pendingSenders a) = take_loop n out (mp_pending m) (mp_pendingSenders m)"
| "progress E st a m (TakeErases n out sender) \<longleftrightarrow> (\<exists>line ls. mp_pending m = line # ls
     \<and> take_loop n [] (mp_pending a) (mp_pendingSenders a)
       = take_loop n (out @ [line]) ls (mp_pendingSenders m - {sender}))"
| "progress E st a m (TakeKeeps n out) \<longleftrightarrow> (\<exists>line ls. mp_pending m = line # ls
     \<and> take_loop n [] (mp_pending a) (mp_pendingSenders a) = take_loop n (out @ [line]) ls (mp_pendingSenders m))"
| "progress E st a m (TakePops n out) \<longleftrightarrow> (\<exists>line ls. mp_pending m = line # ls
     \<and> take_loop n [] (mp_pending a) (mp_pendingSenders a) = take_loop n out ls (mp_pendingSenders m))"
| "progress E st a m SizeReads \<longleftrightarrow> m = a"
| "progress E st a m c \<longleftrightarrow> True"

lemma progress_outside: "\<not> has_lock c \<Longrightarrow> progress E st a m c \<longleftrightarrow> progress E st a' m' c"
  by (cases c) simp_all

text \<open>
  One access. As long as the call has not returned it is further along; when it returns, its
  operation as a whole leads from \<open>a\<close> to the mempool in memory, or leaves \<open>a\<close> alone.
\<close>

lemma call_move_progress:
  assumes "call_move E st c m = Inr (c', m')" "progress E st a m c" "waits c \<Longrightarrow> m = a" "result c = None"
  shows "case result c' of
      None \<Rightarrow> progress E st a m' c' \<and> (\<not> has_lock c' \<longrightarrow> \<not> has_lock c) \<and> (has_lock c' \<longrightarrow> has_lock c \<or> waits c)
    | Some e \<Rightarrow> \<not> has_lock c' \<and> progress E st m' m' c'
        \<and> event_effect E st e a = Some (if has_lock c then m' else a)"
proof (cases c)
  case (AddEnters tx)
  with assms show ?thesis
    by (auto simp: bind_res_Inr_iff event_effect_def mempool_add_def)
next
  case (AddAsksNonce tx)
  with assms show ?thesis by (auto simp: Let_def event_effect_def mempool_add_def)
next
  case (AddAsksBalance tx)
  with assms show ?thesis by (auto simp: event_effect_def mempool_add_def)
next
  case (AddCounts tx)
  with assms show ?thesis by (auto simp: event_effect_def mempool_add_def admissible_def not_less)
next
  case (AddPushes tx)
  with assms show ?thesis
    using mempool_add_accept[of E st tx a] by (auto simp: event_effect_def)
next
  case (TakeTests n out)
  show ?thesis
  proof (cases "mp_pending m \<noteq> [] \<and> length out < n")
    case True
    with TakeTests assms show ?thesis by auto
  next
    case False
    then have "take_loop n out (mp_pending m) (mp_pendingSenders m) = Inr (out, mp_pending m, mp_pendingSenders m)"
      by (cases "mp_pending m") auto
    with False TakeTests assms show ?thesis by (auto simp: event_effect_def mempool_take_def)
  qed
next
  case (TakeReads n out)
  with assms show ?thesis by (auto simp: bind_res_Inr_iff front_def split: list.splits)
next
  case (TakeKeeps n out)
  with assms show ?thesis by (auto simp: bind_res_Inr_iff front_def split: list.splits)
next
  case (TakePops n out)
  with assms show ?thesis by (auto simp: bind_res_Inr_iff front_def split: list.splits)
next
  case SizeReads
  with assms show ?thesis by (auto simp: event_effect_def mempool_size_def)
qed (use assms in auto)

subsection \<open>Every run has an order\<close>

definition lock_count :: "call list \<Rightarrow> nat" where
  "lock_count cs = length (filter has_lock cs)"

lemma lock_count_update:
  assumes "k < length cs"
  shows "lock_count (cs[k := c']) + (if has_lock (cs ! k) then 1 else 0) = lock_count cs + (if has_lock c' then 1 else 0)"
  using assms
proof (induction cs arbitrary: k)
  case (Cons c cs)
  then show ?case by (cases k) (auto simp: lock_count_def)
qed simp

text \<open>At most one call holds the mutex.\<close>

lemma lock_count_other:
  assumes "lock_count cs \<le> 1" "k < length cs" "has_lock (cs ! k)" "j < length cs" "j \<noteq> k"
  shows "\<not> has_lock (cs ! j)"
proof
  assume "has_lock (cs ! j)"
  with assms have "{j, k} \<subseteq> {i. i < length cs \<and> has_lock (cs ! i)}" by auto
  then have "card {j, k} \<le> card {i. i < length cs \<and> has_lock (cs ! i)}" by (intro card_mono) auto
  with assms(1,5) show False by (simp add: lock_count_def length_filter_conv_card)
qed

lemma lock_count_zero: "lock_count cs = 0 \<Longrightarrow> c \<in> set cs \<Longrightarrow> \<not> has_lock c"
  by (auto simp: lock_count_def filter_empty_conv)

definition explained :: "env \<Rightarrow> state_store \<Rightarrow> mempool \<Rightarrow> mempool_event list \<Rightarrow> calls \<Rightarrow> bool" where
  "explained E st m0 es x \<longleftrightarrow> (case x of (cs, locked, m) \<Rightarrow>
     mset es = results cs \<and> lock_count cs = (if locked then 1 else 0)
     \<and> (\<exists>a. replay_events E st es m0 = Some a \<and> (\<forall>c \<in> set cs. progress E st a m c) \<and> (\<not> locked \<longrightarrow> m = a)))"


lemma call_move_outside: "call_move E st c m = Inr (c', m') \<Longrightarrow> \<not> has_lock c \<Longrightarrow> m' = m"
  by (cases c) (auto simp: bind_res_Inr_iff)

lemma call_move_returned: "call_move E st c m = Inr (c', m') \<Longrightarrow> result c \<noteq> None \<Longrightarrow> c' = c \<and> m' = m \<and> \<not> has_lock c"
  by (cases c) auto

lemma replay_snoc: "replay_events E st es m0 = Some a \<Longrightarrow> replay_events E st (es @ [e]) m0 = event_effect E st e a"
  by (cases "event_effect E st e a") (simp_all add: replay_events_append)

lemma explained_step:
  assumes "call_step E st x y" "explained E st m0 es x"
  shows "\<exists>fs. explained E st m0 (es @ fs) y"
  using assms(1)
proof cases
  case (enter c cs locked m)
  have "result c = None" "\<not> has_lock c" "progress E st a m c" for a using enter(3) by (cases c; simp)+
  with assms(2) enter(1,2) have "explained E st m0 (es @ []) y"
    by (auto simp: explained_def results_append lock_count_def results_def map_filter_def)
  then show ?thesis ..
next
  case (move k cs locked m c' m')
  let ?c = "cs ! k"
  obtain a where ex: "mset es = results cs" "lock_count cs = (if locked then 1 else 0)"
    "replay_events E st es m0 = Some a" "\<forall>c \<in> set cs. progress E st a m c" "\<not> locked \<longrightarrow> m = a"
    using assms(2) move(1) by (auto simp: explained_def)
  have inside: "has_lock ?c \<Longrightarrow> locked" using lock_count_zero[of cs ?c] move(3) ex(2) by (metis nth_mem)
  note count = lock_count_update[OF move(3), of c']
  show ?thesis
  proof (cases "result ?c = None")
    case False
    from call_move_returned[OF move(5) this] have "y = x" using move(1,2) by (simp add: mutex_after_def)
    with assms(2) have "explained E st m0 (es @ []) y" by simp
    then show ?thesis ..
  next
    case True
    have "progress E st a m ?c" using ex(4) move(3) by simp
    note p = call_move_progress[OF move(5) this _ True]
    have others: "progress E st a'' m' c" if "c \<in> set (cs[k := c'])" "progress E st a'' m' c'"
      "\<not> has_lock ?c \<Longrightarrow> a'' = a \<and> m' = m" for a'' c
    proof -
      from that(1) obtain j where j: "j < length cs" "c = cs[k := c'] ! j" by (auto simp: in_set_conv_nth)
      show ?thesis
      proof (cases "j = k")
        case True
        with that(2) j move(3) show ?thesis by simp
      next
        case False
        with j have c: "c = cs ! j" by simp
        with ex(4) j(1) have "progress E st a m c" by simp
        with lock_count_other[of cs k j] that(3) progress_outside[of c E st a m a'' m'] ex(2) move(3) j(1) False c
        show ?thesis by (cases "has_lock ?c") (auto split: if_splits)
      qed
    qed
    show ?thesis
    proof (cases "result c'")
      case None
      then have q: "progress E st a m' c'" "\<not> has_lock c' \<longrightarrow> \<not> has_lock ?c" "has_lock c' \<longrightarrow> has_lock ?c \<or> waits ?c"
        using p ex(5) move(4) by auto
      have out: "\<not> has_lock ?c \<Longrightarrow> m' = m" using call_move_outside[OF move(5)] .
      have "lock_count (cs[k := c']) = (if mutex_after ?c c' locked then 1 else 0)"
        using count ex(2) inside q(2,3) move(4) by (auto simp: mutex_after_def split: if_splits)
      moreover have "results (cs[k := c']) = results cs" using results_update[OF move(3) True, of c'] None by simp
      moreover have "\<forall>c \<in> set (cs[k := c']). progress E st a m' c" using others[of _ a] q(1) out by blast
      moreover have "\<not> mutex_after ?c c' locked \<longrightarrow> m' = a"
        using q(2) out ex(5) by (auto simp: mutex_after_def split: if_splits)
      ultimately have "explained E st m0 (es @ []) y" using ex(1,3) move(2) by (auto simp: explained_def)
      then show ?thesis ..
    next
      case (Some e)
      then have q: "\<not> has_lock c'" "progress E st m' m' c'" "event_effect E st e a = Some (if has_lock ?c then m' else a)"
        using p ex(5) move(4) by auto
      have out: "\<not> has_lock ?c \<Longrightarrow> m' = m" using call_move_outside[OF move(5)] .
      let ?a = "if has_lock ?c then m' else a"
      have "lock_count (cs[k := c']) = (if mutex_after ?c c' locked then 1 else 0)"
        using count ex(2) inside q(1) by (auto simp: mutex_after_def split: if_splits)
      moreover have "results (cs[k := c']) = results cs + {#e#}" using results_update[OF move(3) True, of c'] Some by simp
      moreover have "progress E st ?a m' c'" using q(1,2) progress_outside by blast
      then have "\<forall>c \<in> set (cs[k := c']). progress E st ?a m' c" using others[of _ ?a] out by auto
      moreover have "\<not> mutex_after ?c c' locked \<longrightarrow> m' = ?a"
        using q(1) out ex(5) by (auto simp: mutex_after_def split: if_splits)
      ultimately have "explained E st m0 (es @ [e]) y"
        using ex(1) move(2) replay_snoc[OF ex(3), of e] q(3) by (auto simp: explained_def)
      then show ?thesis ..
    qed
  qed
qed

lemma explained_run:
  assumes "call_run E st x y" "explained E st m0 es x"
  shows "\<exists>fs. explained E st m0 (es @ fs) y"
  using assms
proof (induction rule: rtranclp_induct)
  case base
  then have "explained E st m0 (es @ []) x" by simp
  then show ?case ..
next
  case (step y z)
  then obtain fs where "explained E st m0 (es @ fs) y" by blast
  from explained_step[OF step(2) this] show ?case by auto
qed

lemma explained_start: "explained E st m0 [] ([], False, m0)"
  by (simp add: explained_def results_def map_filter_def lock_count_def)

interpretation calls: invariant_system "\<lambda>x. x = ([], False, m0)" "call_step E st" "\<lambda>x. \<exists>es. explained E st m0 es x" for E st m0
proof unfold_locales
  show "\<exists>es. explained E st m0 es x" if "x = ([], False, m0)" for x using that explained_start by blast
  show "\<exists>es. explained E st m0 es y" if "\<exists>es. explained E st m0 es x" "call_step E st x y" for x y
    using that explained_step by blast
qed

subsection \<open>A call alone\<close>

lemma step_alone:
  assumes "call_move E st c m = Inr (c', m')" "k < length cs" "waits c \<Longrightarrow> \<not> locked" "mutex_after c c' locked = locked'"
  shows "call_step E st (cs[k := c], locked, m) (cs[k := c'], locked', m')"
  using call_step.move[of k "cs[k := c]" locked E st m c' m'] assms by simp

text \<open>The end of \<^verbatim>\<open>add\<close> that \<open>add_move\<close> takes as one step.\<close>

lemma add_insert_steps:
  assumes "add_move E tx AddInsert s = Inr (AddEnd err, s')" "k < length cs"
  shows "call_run E st (cs[k := AddCounts tx], True, sh_mempool s) (cs[k := AddReturned tx err], False, sh_mempool s')"
proof (cases "tx_sender tx \<in> mp_pendingSenders (sh_mempool s)")
  case True
  then have "call_step E st (cs[k := AddCounts tx], True, sh_mempool s) (cs[k := AddReturned tx err], False, sh_mempool s')"
    using assms by (intro step_alone) (auto simp: Let_def mutex_after_def)
  then show ?thesis ..
next
  case False
  let ?m = "sh_mempool s" and ?senders = "insert (tx_sender tx) (mp_pendingSenders (sh_mempool s))"
  have "call_step E st (cs[k := AddCounts tx], True, ?m) (cs[k := AddMarks tx], True, ?m)"
    using False assms(2) by (intro step_alone) (simp_all add: mutex_after_def)
  moreover have "call_step E st (cs[k := AddMarks tx], True, ?m) (cs[k := AddPushes tx], True, ?m\<lparr>mp_pendingSenders := ?senders\<rparr>)"
    using assms(2) by (intro step_alone) (simp_all add: mutex_after_def)
  moreover have "call_step E st (cs[k := AddPushes tx], True, ?m\<lparr>mp_pendingSenders := ?senders\<rparr>)
      (cs[k := AddReturned tx err], False, sh_mempool s')"
    using False assms by (intro step_alone) (auto simp: Let_def mutex_after_def)
  ultimately show ?thesis by (meson converse_rtranclp_into_rtranclp rtranclp.rtrancl_refl)
qed


text \<open>\<^verbatim>\<open>take\<close>, when nothing moves in between, is the loop of \<open>mempool_take\<close>.\<close>

lemma take_loop_steps:
  assumes "take_loop n out (mp_pending m) (mp_pendingSenders m) = Inr (out', ls', ss')" "k < length cs"
  shows "call_run E st (cs[k := TakeTests n out], True, m)
    (cs[k := TakeReturned n out'], False, \<lparr>mp_pending = ls', mp_pendingSenders = ss'\<rparr>)"
  using assms(1)
proof (induction "mp_pending m" arbitrary: m out)
  case Nil
  then have "out' = out" "m = \<lparr>mp_pending = ls', mp_pendingSenders = ss'\<rparr>" by (cases m; auto)+
  then show ?case
    using assms(2) Nil.hyps by (intro r_into_rtranclp step_alone) (simp_all add: mutex_after_def)
next
  case (Cons line ls)
  show ?case
  proof (cases "length out < n")
    case False
    then have "out' = out" "m = \<lparr>mp_pending = ls', mp_pendingSenders = ss'\<rparr>"
      using Cons.prems Cons.hyps(2)[symmetric] by (cases m; auto)+
    then show ?thesis
      using assms(2) False by (intro r_into_rtranclp step_alone) (simp_all add: mutex_after_def)
  next
    case True
    note line = Cons.hyps(2)[symmetric]
    obtain tx where tx: "tx_fromLine line = Inr tx"
      "take_loop n (out @ [line]) ls (mp_pendingSenders m - {tx_sender tx}) = Inr (out', ls', ss')"
      using Cons.prems True line by (auto simp: bind_res_Inr_iff)
    let ?m1 = "m\<lparr>mp_pendingSenders := mp_pendingSenders m - {tx_sender tx}\<rparr>"
    let ?m2 = "?m1\<lparr>mp_pending := ls\<rparr>"
    have "call_step E st (cs[k := TakeTests n out], True, m) (cs[k := TakeReads n out], True, m)"
      using assms(2) True line by (intro step_alone) (simp_all add: mutex_after_def)
    moreover have "call_step E st (cs[k := TakeReads n out], True, m) (cs[k := TakeErases n out (tx_sender tx)], True, m)"
      using assms(2) line tx(1) by (intro step_alone) (simp_all add: mutex_after_def front_def)
    moreover have "call_step E st (cs[k := TakeErases n out (tx_sender tx)], True, m) (cs[k := TakeKeeps n out], True, ?m1)"
      using assms(2) by (intro step_alone) (simp_all add: mutex_after_def)
    moreover have "call_step E st (cs[k := TakeKeeps n out], True, ?m1) (cs[k := TakePops n (out @ [line])], True, ?m1)"
      using assms(2) line by (intro step_alone) (simp_all add: mutex_after_def front_def)
    moreover have "call_step E st (cs[k := TakePops n (out @ [line])], True, ?m1) (cs[k := TakeTests n (out @ [line])], True, ?m2)"
      using assms(2) line by (intro step_alone) (simp_all add: mutex_after_def front_def)
    ultimately have "call_run E st (cs[k := TakeTests n out], True, m) (cs[k := TakeTests n (out @ [line])], True, ?m2)"
      by (meson converse_rtranclp_into_rtranclp rtranclp.rtrancl_refl)
    moreover have "call_run E st (cs[k := TakeTests n (out @ [line])], True, ?m2)
        (cs[k := TakeReturned n out'], False, \<lparr>mp_pending = ls', mp_pendingSenders = ss'\<rparr>)"
      by (rule Cons.hyps(1)) (use tx(2) in simp_all)
    ultimately show ?thesis by (rule rtranclp_trans)
  qed
qed

lemma take_alone:
  assumes "mempool_take n m = Inr (out, m')" "k < length cs"
  shows "call_run E st (cs[k := TakeWaits n], False, m) (cs[k := TakeReturned n out], False, m')"
proof -
  have "call_step E st (cs[k := TakeWaits n], False, m) (cs[k := TakeTests n []], True, m)"
    using assms(2) by (intro step_alone) (simp_all add: mutex_after_def)
  moreover obtain ls ss where "take_loop n [] (mp_pending m) (mp_pendingSenders m) = Inr (out, ls, ss)"
    "m' = \<lparr>mp_pending = ls, mp_pendingSenders = ss\<rparr>"
    using assms(1) by (auto simp: mempool_take_def bind_res_Inr_iff)
  ultimately show ?thesis using take_loop_steps[of n "[]" m out ls ss k cs E st] assms(2) by simp
qed

subsection \<open>Properties\<close>

text \<open>
  C22: The mempool is linearizable while no block is applied. For any number of threads that call \<^verbatim>\<open>add\<close>,
  \<^verbatim>\<open>take\<close> and \<^verbatim>\<open>size\<close>, access by access in any interleaving that the mutex allows, there is an order
  of whole operations, each with the result that its caller was given, that leads from the
  first mempool to the one in memory whenever the mutex is free. It respects time: the calls that
  had returned at any moment between come first, and alone explain the mempool of that moment. At
  most one call is between locking and unlocking, exactly when the mutex is taken.
\<close>

theorem submissions_linearize:
  assumes "call_run E st ([], False, m0) (cs1, locked1, m1)"
    and "call_run E st (cs1, locked1, m1) (cs2, locked2, m2)"
  shows "\<exists>es1 es2. mset es1 = results cs1 \<and> mset (es1 @ es2) = results cs2
    \<and> (\<exists>a1. replay_events E st es1 m0 = Some a1 \<and> (\<not> locked1 \<longrightarrow> a1 = m1))
    \<and> (\<exists>a2. replay_events E st (es1 @ es2) m0 = Some a2 \<and> (\<not> locked2 \<longrightarrow> a2 = m2))
    \<and> length (filter has_lock cs2) = (if locked2 then 1 else 0)"
proof -
  obtain es1 where e1: "explained E st m0 es1 (cs1, locked1, m1)"
    using explained_run[OF assms(1) explained_start] by auto
  obtain es2 where e2: "explained E st m0 (es1 @ es2) (cs2, locked2, m2)"
    using explained_run[OF assms(2) e1] by blast
  from e1 e2 show ?thesis
    by (intro exI[of _ es1] exI[of _ es2]) (auto simp: explained_def lock_count_def)
qed

text \<open>The submission of the sample owner, during which another thread takes and waits.\<close>

lemma sample_calls:
  "call_run sample_env sample_state ([], False, mempool_empty) ([AddPushes sample_tx, TakeWaits 20], True,
     mempool_empty\<lparr>mp_pendingSenders := {tx_sender sample_tx}\<rparr>)"
  "call_run sample_env sample_state ([AddPushes sample_tx, TakeWaits 20], True,
     mempool_empty\<lparr>mp_pendingSenders := {tx_sender sample_tx}\<rparr>)
     ([AddReturned sample_tx [], TakeReturned 20 [tx_toLine sample_tx]], False, mempool_empty)"
proof -
  let ?E = sample_env and ?st = sample_state and ?tx = sample_tx
  have a: "tx_verify ?E ?tx = Inr True" "tx_nonce ?tx = getNonce ?st (tx_sender ?tx)"
    "\<not> getBalance ?st (tx_sender ?tx) < tx_amount ?tx"
    using sample_admissible by (simp_all add: admissible_def sample_tx_fields not_less)
  have alone: "call_run ?E ?st ([c], l, m) ([c'], l', m')"
    if "call_move ?E ?st c m = Inr (c', m')" "waits c \<Longrightarrow> \<not> l" "mutex_after c c' l = l'" for c c' m m' l l'
    using step_alone[of ?E ?st c m c' m' 0 "[c]" l l'] that by auto
  have "call_run ?E ?st ([], False, mempool_empty) ([AddEnters ?tx], False, mempool_empty)"
    using call_step.enter[of "AddEnters ?tx" ?E ?st "[]"] by auto
  also have "call_run ?E ?st \<dots> ([AddWaits ?tx], False, mempool_empty)"
    by (rule alone) (simp_all add: a mutex_after_def)
  also have "call_run ?E ?st \<dots> ([AddAsksNonce ?tx], True, mempool_empty)"
    by (rule alone) (simp_all add: mutex_after_def)
  also have "call_run ?E ?st \<dots> ([AddAsksBalance ?tx], True, mempool_empty)"
    by (rule alone) (simp_all add: a(2) mutex_after_def Let_def)
  also have "call_run ?E ?st \<dots> ([AddCounts ?tx], True, mempool_empty)"
    by (rule alone) (simp_all add: a(3) mutex_after_def)
  also have "call_run ?E ?st \<dots> ([AddMarks ?tx], True, mempool_empty)"
    by (rule alone) (simp_all add: mutex_after_def mempool_empty_def)
  also have "call_run ?E ?st \<dots> ([AddPushes ?tx], True, mempool_empty\<lparr>mp_pendingSenders := {tx_sender ?tx}\<rparr>)"
    by (rule alone) (simp_all add: mutex_after_def mempool_empty_def)
  also have "call_run ?E ?st \<dots> ([AddPushes ?tx, TakeWaits 20], True, mempool_empty\<lparr>mp_pendingSenders := {tx_sender ?tx}\<rparr>)"
    using call_step.enter[of "TakeWaits 20" ?E ?st "[AddPushes ?tx]"] by auto
  finally show "call_run ?E ?st ([], False, mempool_empty) ([AddPushes ?tx, TakeWaits 20], True,
     mempool_empty\<lparr>mp_pendingSenders := {tx_sender ?tx}\<rparr>)" .
  let ?m = "\<lparr>mp_pending = [tx_toLine ?tx], mp_pendingSenders = {tx_sender ?tx}\<rparr>"
  have "call_step ?E ?st ([AddPushes ?tx, TakeWaits 20], True, mempool_empty\<lparr>mp_pendingSenders := {tx_sender ?tx}\<rparr>)
      ([AddReturned ?tx [], TakeWaits 20], False, ?m)"
    using step_alone[of ?E ?st "AddPushes ?tx" "mempool_empty\<lparr>mp_pendingSenders := {tx_sender ?tx}\<rparr>" "AddReturned ?tx []" ?m 0
        "[AddPushes ?tx, TakeWaits 20]" True False] by (simp add: mutex_after_def mempool_empty_def)
  moreover have "tx_fromLine (tx_toLine ?tx) = Inr ?tx" using sample_tx_ok(1) by (rule txc.dec_enc)
  then have "mempool_take 20 ?m = Inr ([tx_toLine ?tx], mempool_empty)" by (simp add: mempool_take_def mempool_empty_def)
  from take_alone[OF this, of 1 "[AddReturned ?tx [], TakeWaits 20]" ?E ?st]
  have "call_run ?E ?st ([AddReturned ?tx [], TakeWaits 20], False, ?m)
      ([AddReturned ?tx [], TakeReturned 20 [tx_toLine ?tx]], False, mempool_empty)" by simp
  ultimately show "call_run ?E ?st ([AddPushes ?tx, TakeWaits 20], True, mempool_empty\<lparr>mp_pendingSenders := {tx_sender ?tx}\<rparr>)
     ([AddReturned ?tx [], TakeReturned 20 [tx_toLine ?tx]], False, mempool_empty)"
    by (rule converse_rtranclp_into_rtranclp)
qed

theorem submissions_linearize_witness:
  "\<exists>es. mset es = {#Added sample_tx [], Took 20 [tx_toLine sample_tx]#}
    \<and> replay_events sample_env sample_state es mempool_empty = Some mempool_empty"
  using submissions_linearize[OF sample_calls] by (auto simp: results_def map_filter_def)

end
