(* ===== verification/Wire_Laws.thy ===== *)
theory Wire_Laws
  imports Peer_Protocol
begin

text \<open>
  What comes in over the wire: every line that decodes gives a value that can be sent on unchanged,
  for blocks and for transactions, so that a chain fetched from one peer can be served to the
  next; how decoding depends on the platform's \<^verbatim>\<open>unsigned long\<close>; and which requests end the
  server's process.
\<close>

subsection \<open>Decoded blocks\<close>

lemma scan_fields_parts:
  assumes "scan_fields flds cur line = (fs, blob)" "f \<in> set fs" "c \<in> set f"
  shows "c \<in> set line \<union> set cur \<union> \<Union> (set ` set flds)"
  using assms by (induction flds cur line rule: scan_fields.induct) (fastforce split: if_splits)+

lemma scan_fields_rest:
  "scan_fields flds cur line = (fs, blob) \<Longrightarrow> set blob \<subseteq> set line"
  by (induction flds cur line rule: scan_fields.induct) (auto split: if_splits)

lemma split_on_subset: "f \<in> set (split_on d cur s) \<Longrightarrow> set f \<subseteq> set cur \<union> set s"
  by (induction d cur s rule: split_on.induct) (fastforce split: if_splits)+

lemma split_on_not_empty_text: "s \<noteq> [] \<Longrightarrow> split_on d [] s \<noteq> [[]]"
  using join_split_on[of d "[]" s] by auto

text \<open>The shape of a successful decoding.\<close>

lemma block_fromLine_cases:
  assumes "block_fromLine dm line = Inr b"
  obtains (short) "b = block_default" "count_list line (CHR ''|'') < 5"
  | (full) flds blob d where "scan_fields [] [] line = (flds, blob)" "5 \<le> length flds"
      "stoull (flds ! 0) = Inr (blk_height b)" "stoll (flds ! 1) = Inr (blk_timestamp b)"
      "stoul dm 10 (flds ! 2) = Inr d" "blk_difficulty b = word_of_nat d"
      "stoull (flds ! 3) = Inr (blk_nonce b)" "blk_previousHash b = flds ! 4"
      "blk_transactions b = (if blob = [] then [] else split_on (CHR '','') [] blob)"
proof -
  obtain flds blob where f: "scan_fields [] [] line = (flds, blob)" by (cases "scan_fields [] [] line")
  have n: "length flds = min 5 (count_list line (CHR ''|''))" using scan_fields_count[of "[]" "[]" line] f by simp
  show thesis
  proof (cases "length flds < 5")
    case True
    with n have c: "count_list line (CHR ''|'') < 5" by simp
    from block_fromLine_short[OF c, of dm] assms c show thesis by (intro short) simp_all
  next
    case False
    with assms f obtain h t d nn where
      "stoull (flds ! 0) = Inr h" "stoll (flds ! 1) = Inr t" "stoul dm 10 (flds ! 2) = Inr d"
      "stoull (flds ! 3) = Inr nn" "b = \<lparr>blk_height = h, blk_timestamp = t,
         blk_difficulty = word_of_nat d, blk_nonce = nn, blk_previousHash = flds ! 4,
         blk_transactions = (if blob = [] then [] else split_on (CHR '','') [] blob)\<rparr>"
      by (auto simp: block_fromLine_def bind_res_Inr_iff)
    with f False show thesis by (intro full[of flds blob d]) simp_all
  qed
qed

lemma block_fromLine_wire_ok:
  assumes "CHR 0x0A \<notin> set line" "block_fromLine dm line = Inr b"
  shows "block_wire_ok b"
  using assms(2)
proof (cases rule: block_fromLine_cases)
  case short
  then show ?thesis by (simp add: block_wire_ok_def block_default_def)
next
  case (full flds blob d)
  have "CHR 0x0A \<notin> set (flds ! 4)"
    using scan_fields_parts[OF full(1), of "flds ! 4" "CHR 0x0A"] full(2) assms(1) by auto
  moreover have "CHR 0x0A \<notin> set tx" if "tx \<in> set (blk_transactions b)" for tx
    using that full(9) split_on_subset[of tx "CHR '',''" "[]" blob] scan_fields_rest[OF full(1)] assms(1)
    by (auto split: if_splits)
  moreover have "blk_transactions b \<noteq> [[]]"
    using full(9) split_on_not_empty_text[of blob] by auto
  ultimately show ?thesis
    using block_fromLine_no_bar[OF assms(2)] full(8) by (auto simp: block_wire_ok_def)
qed

interpretation blkr: relay_codec block_toLine "block_fromLine dm" block_wire_ok for dm
  by unfold_locales (rule block_fromLine_wire_ok)

subsection \<open>Decoded transactions\<close>

lemma tx_fromLine_newline_free:
  assumes "CHR 0x0A \<notin> set line" "tx_fromLine line = Inr tx"
  shows "newline_free tx"
proof -
  let ?f = "split_on (CHR ''|'') [] line"
  have part: "CHR 0x0A \<notin> set (?f ! i)" if "i < length ?f" for i
    using split_on_subset[of "?f ! i" "CHR ''|''" "[]" line] that assms(1) by auto
  show ?thesis
  proof (cases "length ?f < 8")
    case True
    with assms(2) show ?thesis by (auto simp: tx_fromLine_def newline_free_def tx_default_def)
  next
    case False
    with assms(2) show ?thesis by (auto simp: tx_fromLine_def newline_free_def part bind_res_Inr_iff Let_def)
  qed
qed

interpretation txr: relay_codec tx_toLine tx_fromLine tx_wire_ok
  by unfold_locales (simp add: tx_wire_ok_def tx_fromLine_bar_free tx_fromLine_newline_free)

subsection \<open>A chain that was fetched\<close>

lemma readLine_no_newline:
  "readLine rd rs = (line, rd', rs') \<Longrightarrow> CHR 0x0A \<notin> set line"
proof (induction rd rs rule: readLine.induct)
  case (1 rd rs)
  show ?case
  proof (cases "find_char (rd_buf rd) (CHR 0x0A) 0")
    case (Some nl)
    then have "line = take nl (rd_buf rd)" "nl = length (line_of (rd_buf rd))" "CHR 0x0A \<in> set (rd_buf rd)"
      using 1(4) find_newline_buf[OF Some] by (simp_all add: readLine_line substr_def)
    then have "line = line_of (rd_buf rd)"
      using line_split[of "rd_buf rd"] by (metis append_eq_conv_conj)
    then show ?thesis by simp
  next
    case None
    show ?thesis
    proof (cases "rd_atEof rd")
      case True
      with None 1(4) show ?thesis by (auto simp: readLine_more(1) find_char_0_None)
    next
      case False
      show ?thesis
      proof (cases rs)
        case Nil
        with False None 1(1)[OF None False Nil] 1(4) show ?thesis by (simp add: readLine_more(2))
      next
        case (Cons chunk rest)
        with False None 1(2,3)[OF None False Cons] 1(4) show ?thesis
          by (cases "chunk = []") (simp_all add: readLine_more(3,4))
      qed
    qed
  qed
qed

lemma fetch_loop_wire_ok:
  "fetch_loop dm blocks rd rs = Inr bs \<Longrightarrow> \<forall>b \<in> set blocks. block_wire_ok b \<Longrightarrow> \<forall>b \<in> set bs. block_wire_ok b"
proof (induction dm blocks rd rs rule: fetch_loop.induct)
  case (1 dm blocks rd rs)
  obtain line rd' rs' where r: "readLine rd rs = (line, rd', rs')" by (cases "readLine rd rs")
  show ?case
  proof (cases "line = ''END'' \<or> (line = [] \<and> reader_eof rd')")
    case True
    with r 1(2) have "bs = blocks" by (auto simp: fetch_loop.simps[of dm blocks rd rs])
    with 1(3) show ?thesis by simp
  next
    case False
    from 1(2) have "(case block_fromLine dm line of Inl e \<Rightarrow> Inl e
        | Inr b \<Rightarrow> fetch_loop dm (blocks @ [b]) rd' rs') = Inr bs"
      unfolding fetch_loop.simps[of dm blocks rd rs] r prod.case using False by simp
    then obtain b where b: "block_fromLine dm line = Inr b"
      and rest: "fetch_loop dm (blocks @ [b]) rd' rs' = Inr bs"
      by (cases "block_fromLine dm line") simp_all
    have "block_wire_ok b" using readLine_no_newline[OF r] b by (rule blkr.dec_wf)
    with 1(3) have "\<forall>b \<in> set (blocks @ [b]). block_wire_ok b" by simp
    with rest show ?thesis by (rule 1(1)[OF r[symmetric] refl False b])
  qed
qed

subsection \<open>The width of \<^verbatim>\<open>unsigned long\<close>\<close>

lemma word_of_nat_mod: "LENGTH('a) \<le> n \<Longrightarrow> (word_of_nat (m mod 2 ^ n) :: 'a::len word) = word_of_nat m"
  by (simp add: word_of_nat_eq_iff flip: take_bit_eq_mod)

lemma word_of_nat_neg:
  assumes "LENGTH('a) \<le> n" "v < 2 ^ n"
  shows "(word_of_nat ((2 ^ n - v) mod 2 ^ n) :: 'a::len word) = - word_of_nat v"
proof -
  have "(word_of_nat ((2 ^ n - v) mod 2 ^ n) :: 'a word) = word_of_nat (2 ^ n - v)"
    by (rule word_of_nat_mod[OF assms(1)])
  also have "\<dots> = word_of_nat (2 ^ n) - word_of_nat v" using assms(2) by (intro of_nat_diff) simp
  also have "(word_of_nat (2 ^ n) :: 'a word) = 0"
    using assms(1) by (simp add: word_of_nat_eq_0_iff le_imp_power_dvd)
  finally show ?thesis by simp
qed

text \<open>A number read at a narrow width is read at a wider one, as the same 32-bit value.\<close>

lemma strtou_wider:
  assumes "strtou bits base s = Inr v" "bits \<le> bits'" "32 \<le> bits"
  shows "\<exists>v'. strtou bits' base s = Inr v' \<and> (word_of_nat v' :: u32) = word_of_nat v"
proof -
  obtain neg n where n: "scan_int base s = Some (neg, n)" "n < 2 ^ bits"
    "v = (if neg then (2 ^ bits - n) mod 2 ^ bits else n)"
    using assms(1) by (auto simp: strtou_def split: option.splits if_splits prod.splits)
  have n': "n < 2 ^ bits'" using n(2) power_increasing[OF assms(2), of "2::nat"] by (simp add: less_le_trans)
  have "(word_of_nat ((2 ^ bits - n) mod 2 ^ bits) :: u32) = word_of_nat ((2 ^ bits' - n) mod 2 ^ bits')"
    using assms(2,3) n(2) n' by (simp add: word_of_nat_neg)
  with n n' show ?thesis by (simp add: strtou_def)
qed

lemma strtou_narrower:
  "strtou bits' base s = Inr v' \<Longrightarrow> bits \<le> bits' \<Longrightarrow>
   (\<exists>v. strtou bits base s = Inr v) \<or> strtou bits base s = Inl OutOfRange"
  by (auto simp: strtou_def split: option.splits if_splits prod.splits)

lemma stoul_order:
  assumes "dm \<le> dm'"
  shows "stoul dm base s = Inr v \<Longrightarrow> \<exists>v'. stoul dm' base s = Inr v' \<and> (word_of_nat v' :: u32) = word_of_nat v"
    and "stoul dm' base s = Inr v' \<Longrightarrow> (\<exists>v. stoul dm base s = Inr v) \<or> stoul dm base s = Inl OutOfRange"
  using assms strtou_wider strtou_narrower unfolding stoul_def data_model_le by simp_all

lemma block_fromLine_wider:
  assumes "dm \<le> dm'" "block_fromLine dm line = Inr b"
  shows "block_fromLine dm' line = Inr b"
  using assms(2)
proof (cases rule: block_fromLine_cases)
  case short
  then show ?thesis by (simp add: block_fromLine_short)
next
  case (full flds blob d)
  from stoul_order(1)[OF assms(1) full(5)] obtain d' where
    "stoul dm' 10 (flds ! 2) = Inr d'" "(word_of_nat d' :: u32) = word_of_nat d" by blast
  with full show ?thesis by (simp add: block_fromLine_def)
qed

lemma block_fromLine_narrower:
  assumes "dm \<le> dm'" "block_fromLine dm' line = Inr b"
  shows "block_fromLine dm line \<in> {Inr b, Inl OutOfRange}"
  using assms(2)
proof (cases rule: block_fromLine_cases)
  case short
  then show ?thesis by (simp add: block_fromLine_short)
next
  case (full flds blob d)
  from stoul_order(2)[OF assms(1) full(5)] show ?thesis
  proof
    assume "\<exists>v. stoul dm 10 (flds ! 2) = Inr v"
    with full obtain b' where b': "block_fromLine dm line = Inr b'" by (auto simp: block_fromLine_def)
    from block_fromLine_wider[OF assms(1) b'] assms(2) b' show ?thesis by simp
  next
    assume "stoul dm 10 (flds ! 2) = Inl OutOfRange"
    with full show ?thesis by (simp add: block_fromLine_def)
  qed
qed

subsection \<open>Requests that throw\<close>

lemma answer_Inl_iff:
  "answer E ch st request m = Inl e \<longleftrightarrow>
     (\<exists>line. request = ''TX '' @ line \<and>
       (tx_fromLine line = Inl e \<or> (\<exists>tx. tx_fromLine line = Inr tx \<and> tx_verify E tx = Inl e)))"
proof (cases "starts_with request ''TX ''")
  case True
  then obtain line where r: "request = ''TX '' @ line" by (auto simp: starts_with_iff)
  have "answer E ch st request m = Inl e \<longleftrightarrow>
      tx_fromLine line = Inl e \<or> (\<exists>tx. tx_fromLine line = Inr tx \<and> mempool_add E st tx m = Inl e)"
    using starts_with_literals(2,3,5)[of line] unfolding r answer_def
    by (auto simp: bind_res_Inl_iff Let_def)
  with r show ?thesis by (simp add: mempool_add_Inl_iff)
next
  case False
  then have "\<nexists>line. request = ''TX '' @ line" by (simp add: starts_with_iff)
  with False show ?thesis by (simp add: answer_def Let_def)
qed

subsection \<open>Properties\<close>

text \<open>
  C37: Whatever comes in can be passed on. Every block of a chain fetched over any connection, from
  any peer, is one the line format carries; a node of either data model that decodes the line
  written for it obtains the same block, and the line breaks neither the framing nor the end
  marker. The same holds of a transaction decoded from any single line.
\<close>

theorem decoded_relays:
  assumes "fst (fetchChain dm c) = Inr bs" "b \<in> set bs"
    and "CHR 0x0A \<notin> set line" "tx_fromLine line = Inr tx"
  shows "block_wire_ok b \<and> block_fromLine dm' (block_toLine b) = Inr b
    \<and> CHR 0x0A \<notin> set (block_toLine b) \<and> block_toLine b \<noteq> ''END''
    \<and> tx_wire_ok tx \<and> tx_fromLine (tx_toLine tx) = Inr tx"
proof -
  have "block_wire_ok b"
    using assms(1,2) fetch_loop_wire_ok[of dm "[]" reader_new] by (cases c) (auto simp: fetchChain_def Let_def)
  moreover have "tx_wire_ok tx" using assms(3,4) by (rule txr.dec_wf)
  ultimately show ?thesis
    by (simp add: blk.dec_enc blk.enc_no_newline blk.enc_not_end txl.dec_enc)
qed

theorem decoded_relays_witness:
  "\<exists>b. fst (fetchChain LP64 (Some \<lparr>cn_sends = [], cn_recvs = [''1|2'']\<rparr>)) = Inr [b]
    \<and> block_wire_ok b \<and> block_fromLine LLP64 (block_toLine b) = Inr b"
proof -
  have "block_fromLine LP64 ''1|2'' = Inr block_default" by (simp add: block_fromLine_def)
  then have f: "fst (fetchChain LP64 (Some \<lparr>cn_sends = [], cn_recvs = [''1|2'']\<rparr>)) = Inr [block_default]"
    using fetchChain_broken[of "\<lparr>cn_sends = [], cn_recvs = [''1|2'']\<rparr>" "[]" "''1|2''" LP64]
    by (simp add: chunks_ok_def)
  have "tx_fromLine [] = Inr tx_default" by (simp add: tx_fromLine_def)
  from decoded_relays[OF f _ _ this, of block_default LLP64] f show ?thesis by simp
qed

text \<open>
  The two platforms read the same blocks, up to one case. What the platform with the narrower
  \<^verbatim>\<open>long\<close> decodes, the wider one decodes to the same block; what the wider one decodes, the
  narrower one decodes to the same block or refuses with \<^verbatim>\<open>out_of_range\<close>.
\<close>

lemma decoding_portable:
  assumes "dm \<le> dm'"
  shows "(\<forall>b. block_fromLine dm line = Inr b \<longrightarrow> block_fromLine dm' line = Inr b)
    \<and> (\<forall>b. block_fromLine dm' line = Inr b \<longrightarrow> block_fromLine dm line \<in> {Inr b, Inl OutOfRange})"
  using block_fromLine_wider[OF assms] block_fromLine_narrower[OF assms] by blast

text \<open>The exception is real: a difficulty of \<open>2 ^ 32 + 1\<close> is difficulty one on the wide platform.\<close>

lemma wide_difficulty:
  "block_fromLine LP64 (show_u64 1 @ ''|'' @ show_i64 0 @ ''|'' @ show_nat 4294967297 @ ''|'' @ show_u64 5 @ ''|ab|'')
     = Inr \<lparr>blk_height = 1, blk_timestamp = 0, blk_difficulty = 1, blk_nonce = 5,
            blk_previousHash = ''ab'', blk_transactions = []\<rparr>"
  "block_fromLine LLP64 (show_u64 1 @ ''|'' @ show_i64 0 @ ''|'' @ show_nat 4294967297 @ ''|'' @ show_u64 5 @ ''|ab|'')
     = Inl OutOfRange"
proof -
  have s: "scan_fields [] [] (show_u64 1 @ ''|'' @ show_i64 0 @ ''|'' @ show_nat 4294967297 @ ''|'' @ show_u64 5 @ ''|ab|'')
    = ([show_u64 1, show_i64 0, show_nat 4294967297, show_u64 5, ''ab''], [])"
    by (simp add: scan_fields_field)
  show "block_fromLine LP64 (show_u64 1 @ ''|'' @ show_i64 0 @ ''|'' @ show_nat 4294967297 @ ''|'' @ show_u64 5 @ ''|ab|'')
     = Inr \<lparr>blk_height = 1, blk_timestamp = 0, blk_difficulty = 1, blk_nonce = 5,
            blk_previousHash = ''ab'', blk_transactions = []\<rparr>"
    unfolding block_fromLine_def s by (simp add: stoul_def strtou_def scan_int_show_nat)
  show "block_fromLine LLP64 (show_u64 1 @ ''|'' @ show_i64 0 @ ''|'' @ show_nat 4294967297 @ ''|'' @ show_u64 5 @ ''|ab|'')
     = Inl OutOfRange"
    unfolding block_fromLine_def s by (simp add: stoul_def strtou_def scan_int_show_nat)
qed

lemma decoding_portable_example:
  "(\<exists>line b. block_fromLine LP64 line = Inr b \<and> block_fromLine LLP64 line = Inl OutOfRange)
    \<and> block_fromLine LP64 (block_toLine sample_block) = Inr sample_block"
proof -
  have le: "LLP64 \<le> LP64" by (simp add: data_model_le)
  have "block_fromLine LLP64 (block_toLine sample_block) = Inr sample_block"
    using sample_block_ok(1) by (rule blk.dec_enc)
  with decoding_portable[OF le, of "block_toLine sample_block"] wide_difficulty show ?thesis by blast
qed

text \<open>
  C36: The requests that end the server's process. \<^verbatim>\<open>handleClient\<close> lets an exception out exactly when
  the request line submits a transaction whose numbers do not read, or whose key or signature
  is not hexadecimal text; whatever the chain, the state and the mempool hold.
\<close>

theorem request_crashes:
  "handleClient E ch st c m = Inl e \<longleftrightarrow>
     (\<exists>line. fst (recvLine (cn_recvs c)) = ''TX '' @ line \<and>
       (tx_fromLine line = Inl e \<or> (\<exists>tx. tx_fromLine line = Inr tx \<and> tx_verify E tx = Inl e)))"
  by (auto simp: handleClient_def bind_res_Inl_iff answer_Inl_iff split: option.splits)

theorem request_crashes_witness:
  "handleClient sample_env sample_chain sample_state
     \<lparr>cn_sends = [], cn_recvs = byte_calls (''TX |||x||||'' @ newline)\<rparr> mempool_empty = Inl InvalidArgument"
proof -
  have "split_on (CHR ''|'') [] ''|||x||||'' = [[], [], [], ''x'', [], [], [], []]" by simp
  then have "tx_fromLine ''|||x||||'' = Inl InvalidArgument"
    by (simp add: tx_fromLine_def stoull_def strtou_def scan_int_def scan_sign_def skip_0x_def
        is_space_def is_digit_def digit_val_def Let_def)
  then show ?thesis
    unfolding request_crashes using recv_bytes_line[of "''TX |||x||||''"]
    by (intro exI[of _ "''|||x||||''"]) simp
qed

end
