(* ===== verification/Books.thy ===== *)
theory Books
  imports Node_Theorems
begin

text \<open>
  When the ledger of a node is the replay of its chain. Three uses break that: two workers, the
  command \<^verbatim>\<open>add\<close>, and a sync while a worker runs (\<open>two_workers_diverge\<close>, \<open>add_mints\<close>, \<open>sync_race_mints\<close>).
  A node that is used without them keeps its books, whatever its peers send, and then the hash of
  its tip stands for its ledger.
\<close>

subsection \<open>Careful use\<close>

text \<open>A sync takes over a chain, so that a worker may not be in the middle of a block.\<close>

definition careful :: "command \<Rightarrow> node \<Rightarrow> bool" where
  "careful c nd \<longleftrightarrow> (case c of Add _ \<Rightarrow> False | Mine n \<Rightarrow> n \<le> 1 | InitNode \<Rightarrow> joined nd | _ \<Rightarrow> True)"

inductive careful_step :: "env \<Rightarrow> node \<Rightarrow> node \<Rightarrow> bool" for E :: env where
  command: "careful (parse_command line) nd \<Longrightarrow> run_command E i (parse_command line) nd = Continue nd' \<Longrightarrow>
    careful_step E nd nd'"
| threads: "mining_step E (wal_address (nd_wallet nd)) (nd_workers nd, nd_shared nd) (pcs, s) \<Longrightarrow>
    careful_step E nd (nd\<lparr>nd_workers := pcs, nd_shared := s\<rparr>)"

lemma careful_is_node_step: "careful_step E nd nd' \<Longrightarrow> node_step E nd nd'"
  by (auto elim!: careful_step.cases intro: node_step.intros)

text \<open>Without workers the books are as with one that has finished.\<close>

definition worker_of :: "node \<Rightarrow> pc list" where
  "worker_of nd = (if nd_workers nd = [] then [Finished] else nd_workers nd)"

definition books_kept :: "env \<Rightarrow> node \<Rightarrow> bool" where
  "books_kept E nd \<longleftrightarrow> solo_inv E (worker_of nd, nd_shared nd)"

lemma books_chain:
  "books_kept E nd \<Longrightarrow> chain_inv E (sh_chain (nd_shared nd)) \<and> heights_count (chn_blocks (sh_chain (nd_shared nd)))"
  by (simp add: books_kept_def solo_inv_def)

definition settled :: "node \<Rightarrow> bool" where
  "settled nd \<longleftrightarrow> (\<forall>b. Apply b \<notin> set (nd_workers nd))"

lemma joined_settled: "joined nd \<Longrightarrow> settled nd"
  by (auto simp: joined_def settled_def)

lemma books_replay:
  assumes "books_kept E nd" "settled nd"
  shows "rebuildFromBlocks E (chn_blocks (sh_chain (nd_shared nd))) st0 = Inr (sh_state (nd_shared nd))"
proof -
  obtain pc where pc: "worker_of nd = [pc]" using assms(1) by (auto simp: books_kept_def solo_inv_def)
  with assms(2) have "\<forall>b. pc \<noteq> Apply b"
    by (auto simp: worker_of_def settled_def split: if_splits)
  with assms(1) pc show ?thesis unfolding books_kept_def by (metis solo_inv_replay)
qed

lemma books_keptI:
  assumes "joined nd" "length (nd_workers nd) \<le> 1" "chain_inv E (sh_chain (nd_shared nd))"
    and "heights_count (chn_blocks (sh_chain (nd_shared nd)))"
    and "rebuildFromBlocks E (chn_blocks (sh_chain (nd_shared nd))) state_empty = Inr (sh_state (nd_shared nd))"
  shows "books_kept E nd"
proof -
  have "worker_of nd = [Finished]"
    using assms(1,2) by (cases "nd_workers nd") (auto simp: worker_of_def joined_def)
  with assms(3-5) show ?thesis by (simp add: books_kept_def solo_inv_def)
qed

text \<open>The books depend on the chain and the state only.\<close>

lemma books_frame:
  assumes "books_kept E nd" "sh_chain (nd_shared nd') = sh_chain (nd_shared nd)"
    and "sh_state (nd_shared nd') = sh_state (nd_shared nd)" "nd_workers nd' = nd_workers nd"
  shows "books_kept E nd'"
  using assms by (auto simp: books_kept_def worker_of_def solo_inv_def)

lemma books_difficulty:
  assumes "books_kept E nd" "sh_chain (nd_shared nd') = setDifficulty d (sh_chain (nd_shared nd))"
    and "sh_state (nd_shared nd') = sh_state (nd_shared nd)" "nd_workers nd' = nd_workers nd"
  shows "books_kept E nd'"
proof -
  have "candidate_height (setDifficulty d c) p = candidate_height c p" for c p
    by (cases p) (simp_all add: setDifficulty_def chain_height_def)
  with assms show ?thesis
    by (auto simp: books_kept_def worker_of_def solo_inv_def setDifficulty_def chain_inv_def)
qed

subsection \<open>Careful use keeps the books\<close>

lemma submit_frame:
  "submit_tx E tx cs nd = Inr (r, nd') \<Longrightarrow> sh_chain (nd_shared nd') = sh_chain (nd_shared nd)
     \<and> sh_state (nd_shared nd') = sh_state (nd_shared nd) \<and> nd_workers nd' = nd_workers nd"
  by (auto simp: submit_tx_def bind_res_Inr_iff Let_def split: if_splits)

lemma submit_books: "submit_tx E tx cs nd = Inr (r, nd') \<Longrightarrow> books_kept E nd \<Longrightarrow> books_kept E nd'"
  using submit_frame books_frame by metis

lemma peers_books:
  assumes "books_kept E nd"
  shows "books_kept E (remember_peer a nd)" "books_kept E (ensureListening l nd)"
    "books_kept E (snd (cmd_listen port l nd))" "books_kept E (snd (cmd_difficulty d nd))"
proof -
  show "books_kept E (remember_peer a nd)"
    by (rule books_frame[OF assms]) (simp_all add: remember_peer_def Let_def)
  show "books_kept E (ensureListening l nd)"
    by (rule books_frame[OF assms]) (simp_all add: ensureListening_def split: prod.split)
  show "books_kept E (snd (cmd_listen port l nd))"
    by (rule books_frame[OF assms]) (simp_all add: cmd_listen_def split: prod.split)
  show "books_kept E (snd (cmd_difficulty d nd))"
    using assms books_difficulty[OF assms, of "snd (cmd_difficulty d nd)" "the d"]
    by (cases d) (simp_all add: cmd_difficulty_def)
qed

text \<open>The sync: the state is the replay of the blocks that became the chain, whoever sent them.\<close>

lemma sync_books:
  assumes "doInitNode E nd cs = Inr (r, nd')" "books_kept E nd" "joined nd"
  shows "books_kept E nd' \<and> nd_workers nd' = nd_workers nd"
  using assms(1)
proof (cases rule: doInitNode_cases)
  case kept
  with assms(2) show ?thesis by simp
next
  case (kept_local blocks)
  then have "snd (replaceIfLongerAndValid E blocks (sh_chain (nd_shared nd))) = sh_chain (nd_shared nd)"
    by (auto simp: replaceIfLongerAndValid_def split: if_splits)
  with kept_local have "nd' = nd" by simp
  with assms(2) show ?thesis by simp
next
  case (synced blocks st')
  let ?ch' = "snd (replaceIfLongerAndValid E blocks (sh_chain (nd_shared nd)))"
  have b: "chn_blocks ?ch' = blocks"
    using synced(2) by (auto simp: replaceIfLongerAndValid_def split: if_splits)
  have inv: "chain_inv E ?ch'" "heights_count (chn_blocks ?ch')"
    using books_chain[OF assms(2)] replace_inv replace_heights by blast+
  have w: "nd_workers nd' = nd_workers nd" "sh_chain (nd_shared nd') = ?ch'" "sh_state (nd_shared nd') = st'"
    using synced(3) by simp_all
  have "length (nd_workers nd) \<le> 1"
    using assms(2) by (auto simp: books_kept_def solo_inv_def worker_of_def split: if_splits)
  moreover have "joined nd'" using assms(3) w(1) by (simp add: joined_def)
  moreover have "rebuildFromBlocks E (chn_blocks ?ch') state_empty = Inr st'"
    using synced(1) b by (simp add: rebuild_eq)
  ultimately have "books_kept E nd'" using w inv by (intro books_keptI) simp_all
  with w show ?thesis by simp
qed

lemma mine_books:
  assumes "books_kept E nd" "joined nd" "n \<le> 1"
  shows "books_kept E (cmd_mine n nd)"
proof -
  have r: "rebuildFromBlocks E (chn_blocks (sh_chain (nd_shared nd))) state_empty = Inr (sh_state (nd_shared nd))"
    using books_replay[OF assms(1) joined_settled[OF assms(2)]] .
  have n: "nat (if n < 1 then 1 else n) = 1" using assms(3) by auto
  have "nd_workers (cmd_mine n nd) = [OuterTest]" "sh_chain (nd_shared (cmd_mine n nd)) = sh_chain (nd_shared nd)"
    "sh_state (nd_shared (cmd_mine n nd)) = sh_state (nd_shared nd)"
    unfolding cmd_mine_def Let_def miner_start_def n
    by (simp_all add: miner_stop_done_def miner_stop_request_def)
  with books_chain[OF assms(1)] r show ?thesis by (simp add: books_kept_def worker_of_def solo_inv_def)
qed

lemma stop_books:
  assumes "books_kept E nd" "joined nd"
  shows "books_kept E (cmd_stop_mining nd)"
proof (rule books_keptI)
  show "rebuildFromBlocks E (chn_blocks (sh_chain (nd_shared (cmd_stop_mining nd)))) state_empty
      = Inr (sh_state (nd_shared (cmd_stop_mining nd)))"
    using books_replay[OF assms(1) joined_settled[OF assms(2)]]
    by (simp add: cmd_stop_mining_def miner_stop_done_def miner_stop_request_def)
qed (use books_chain[OF assms(1)] in \<open>simp_all add: cmd_stop_mining_def miner_stop_done_def miner_stop_request_def joined_def\<close>)

lemma command_books:
  assumes "run_command E i c nd = Continue nd'" "careful c nd" "books_kept E nd"
  shows "books_kept E nd'"
proof (cases c)
  case (Send a n)
  with assms show ?thesis
    by (auto simp: of_res_def cmd_send_def Let_def split: sum.splits if_splits intro: submit_books)
next
  case (RegisterUsername u)
  with assms show ?thesis
    by (auto simp: of_res_def cmd_register_username_def Let_def split: sum.splits if_splits intro: submit_books)
next
  case InitNode
  with assms show ?thesis by (auto simp: of_res_def careful_def split: sum.splits dest: sync_books)
next
  case (Mine n)
  with assms show ?thesis by (auto simp: careful_def mine_books split: if_splits)
next
  case (Add rest)
  with assms(2) show ?thesis by (simp add: careful_def)
next
  case (JoinNet a)
  with assms show ?thesis
    by (auto simp: cmd_join_net_def Let_def split: option.splits if_splits intro: peers_books)
qed (use assms peers_books[OF assms(3)] stop_books[OF assms(3)] in
    \<open>auto simp: cmd_set_peer_def split: option.splits if_splits\<close>)

lemma threads_books:
  assumes "mining_step E addr (nd_workers nd, nd_shared nd) (pcs, s)" "books_kept E nd"
  shows "books_kept E (nd\<lparr>nd_workers := pcs, nd_shared := s\<rparr>)"
proof (cases "nd_workers nd = []")
  case True
  from assms(1) have "mining_step E addr ([Finished], nd_shared nd) ([Finished], s) \<and> pcs = []"
    by (cases rule: mining_step.cases) (use True in \<open>auto intro: mining_step.intros\<close>)
  with solo_step[of E addr "([Finished], nd_shared nd)" "([Finished], s)"] assms(2) True show ?thesis
    by (simp add: books_kept_def worker_of_def)
next
  case False
  have "length pcs = length (nd_workers nd)"
    using assms(1) by (cases rule: mining_step.cases) auto
  with False solo_step[OF assms(1)] assms(2) show ?thesis
    by (auto simp: books_kept_def worker_of_def)
qed

text \<open>The text of the first block is no transaction.\<close>

lemma new_chain_replay:
  "new_chain E now = Some ch \<Longrightarrow> rebuildFromBlocks E (chn_blocks ch) state_empty = Inr state_empty"
  by (erule new_chain_Some)
    (simp add: rebuild_eq applyBlock_def applyLine_def starts_with_def find_char_0_None)

lemma start_books:
  assumes "node_init E nd"
  shows "books_kept E nd"
proof -
  obtain now ch where ch: "new_chain E now = Some ch" and nd: "nd_workers nd = []"
    "sh_chain (nd_shared nd) = ch" "sh_state (nd_shared nd) = state_empty"
    using assms by (auto simp: node_init_def node_start_def bind_res_Inr_iff)
  show ?thesis
    using nd new_chain_inv[OF ch] new_chain_replay[OF ch] by (intro books_keptI) (simp_all add: joined_def)
qed

interpretation books: invariant_system "node_init E" "careful_step E" "books_kept E" for E
proof
  show "books_kept E nd \<Longrightarrow> careful_step E nd nd' \<Longrightarrow> books_kept E nd'" for nd nd'
    by (auto elim!: careful_step.cases intro: command_books threads_books)
qed (rule start_books)

end
