(* ===== verification/Convergence.thy ===== *)
theory Convergence
  imports Books
begin

text \<open>
  Any number of nodes that know each other by address and sync. A sync asks every known peer for its
  height and the tallest for its chain; the answers come from the handlers of the other nodes, as
  these are at that moment, over connections that cut the chain's text anywhere.
\<close>

subsection \<open>The connections of a sync\<close>

text \<open>\<open>at p\<close> is the node that listens at the address \<open>p\<close>, if any.\<close>

type_synonym addressing = "peer_address \<Rightarrow> nat option"

definition member_says :: "env \<Rightarrow> node \<Rightarrow> string \<Rightarrow> string \<Rightarrow> bool" where
  "member_says E nd request text \<longleftrightarrow> (\<exists>console m'. answer E (sh_chain (nd_shared nd)) (sh_state (nd_shared nd)) request
     (sh_mempool (nd_shared nd)) = Inr (Some text, console, m'))"

definition height_conn :: "env \<Rightarrow> addressing \<Rightarrow> node list \<Rightarrow> peer_address \<Rightarrow> conn option \<Rightarrow> bool" where
  "height_conn E at ns p c \<longleftrightarrow> (case at p of
     None \<Rightarrow> c = None
   | Some k \<Rightarrow> \<exists>c' h. c = Some c' \<and> member_says E (ns ! k) ''HEIGHT'' h \<and> cn_recvs c' = byte_calls h)"

definition chain_conn :: "env \<Rightarrow> addressing \<Rightarrow> node list \<Rightarrow> peer_address \<Rightarrow> conn option \<Rightarrow> bool" where
  "chain_conn E at ns p c \<longleftrightarrow> (case at p of
     None \<Rightarrow> c = None
   | Some k \<Rightarrow> \<exists>c' text. c = Some c' \<and> member_says E (ns ! k) ''GET_CHAIN'' text
       \<and> chunks_ok (cn_recvs c') \<and> concat (cn_recvs c') = text)"

text \<open>An announcement for each peer, whatever becomes of it, a height of each, and the chain of the best.\<close>

definition sync_conns :: "env \<Rightarrow> addressing \<Rightarrow> node list \<Rightarrow> node \<Rightarrow> conns \<Rightarrow> bool" where
  "sync_conns E at ns nd cs \<longleftrightarrow> (\<exists>as hs c. cs = as @ hs @ [c] \<and> length as = length (nd_peers nd)
     \<and> list_all2 (height_conn E at ns) (nd_peers nd) hs
     \<and> (case fst (snd (query_peers (platform E) (nd_peers nd) hs (- 1) None)) of
          None \<Rightarrow> True | Some p \<Rightarrow> chain_conn E at ns p c))"

definition net_sync :: "env \<Rightarrow> addressing \<Rightarrow> node list \<Rightarrow> nat \<Rightarrow> node list \<Rightarrow> bool" where
  "net_sync E at ns i ns' \<longleftrightarrow> (\<exists>cs r nd'. sync_conns E at ns (ns ! i) cs \<and> doInitNode E (ns ! i) cs = Inr (r, nd')
     \<and> ns' = ns[i := nd'])"

fun net_syncs :: "env \<Rightarrow> addressing \<Rightarrow> node list \<Rightarrow> nat list \<Rightarrow> node list \<Rightarrow> bool" where
  "net_syncs E at ns [] ns' \<longleftrightarrow> ns' = ns"
| "net_syncs E at ns (i # is) ns' \<longleftrightarrow> (\<exists>ns1. net_sync E at ns i ns1 \<and> net_syncs E at ns1 is ns')"

subsection \<open>Asking the peers\<close>

lemma announce_append: "length as = length ps \<Longrightarrow> \<exists>oks. announceToAllPeers a ps (as @ rest) = (oks, rest)"
proof (induction ps arbitrary: as)
  case (Cons p ps)
  then obtain c cs where "as = c # cs" "length cs = length ps" by (cases as) auto
  with Cons.IH[of cs] show ?case by auto
qed simp

lemma query_append:
  "length hs = length ps \<Longrightarrow> query_peers dm ps (hs @ rest) b o1 =
     (case query_peers dm ps hs b o1 of (h, best, _) \<Rightarrow> (h, best, rest))"
proof (induction ps arbitrary: hs b o1)
  case (Cons p ps)
  then obtain c cs where "hs = c # cs" "length cs = length ps" by (cases hs) auto
  with Cons.IH[of cs] show ?case by (simp add: Let_def)
qed simp

text \<open>The best peer is one whose height no other exceeds.\<close>

lemma query_best:
  assumes "query_peers dm ps hs b o1 = (h, best, rest)" "length hs = length ps"
  shows "b \<le> h \<and> (\<forall>i < length ps. fst (queryHeight dm (hs ! i)) \<le> h)
    \<and> (best = o1 \<and> h = b \<or> (\<exists>i < length ps. best = Some (ps ! i) \<and> h = fst (queryHeight dm (hs ! i)) \<and> b < h))"
  using assms
proof (induction ps arbitrary: hs b o1)
  case (Cons p ps)
  then obtain c cs where hs: "hs = c # cs" "length cs = length ps" by (cases hs) auto
  let ?k = "fst (queryHeight dm c)"
  have all: "(\<forall>i < length (p # ps). fst (queryHeight dm ((c # cs) ! i)) \<le> h)
      \<longleftrightarrow> ?k \<le> h \<and> (\<forall>i < length ps. fst (queryHeight dm (cs ! i)) \<le> h)"
    by (auto simp: less_Suc_eq_0_disj)
  have ex: "(\<exists>i < length (p # ps). best = Some ((p # ps) ! i) \<and> h = fst (queryHeight dm ((c # cs) ! i)) \<and> b < h)
      \<longleftrightarrow> best = Some p \<and> h = ?k \<and> b < h \<or> (\<exists>i < length ps. best = Some (ps ! i) \<and> h = fst (queryHeight dm (cs ! i)) \<and> b < h)"
    by (auto simp: less_Suc_eq_0_disj)
  show ?case
  proof (cases "b < ?k")
    case True
    then have "query_peers dm ps cs ?k (Some p) = (h, best, rest)" using Cons.prems(1) hs(1) by (simp add: Let_def)
    from Cons.IH[OF this hs(2)] True show ?thesis unfolding hs(1) all ex by auto
  next
    case False
    then have "query_peers dm ps cs b o1 = (h, best, rest)" using Cons.prems(1) hs(1) by (simp add: Let_def)
    from Cons.IH[OF this hs(2)] False show ?thesis unfolding hs(1) all ex by auto
  qed
qed simp

subsection \<open>One sync\<close>

abbreviation blocks_of :: "node \<Rightarrow> block list" where
  "blocks_of nd \<equiv> chn_blocks (sh_chain (nd_shared nd))"

lemma height_conn_reply:
  assumes "height_conn E at ns p c"
    and "\<And>k. at p = Some k \<Longrightarrow> chain_inv E (sh_chain (nd_shared (ns ! k))) \<and> heights_count (blocks_of (ns ! k))
      \<and> length (blocks_of (ns ! k)) \<le> 2 ^ (long_bits (platform E) - 1)"
  shows "fst (queryHeight (platform E) c) =
    (case at p of None \<Rightarrow> - 1 | Some k \<Rightarrow> int (length (blocks_of (ns ! k)) - 1))"
proof (cases "at p")
  case None
  with assms(1) show ?thesis by (simp add: height_conn_def queryHeight_def)
next
  case (Some k)
  let ?ch = "sh_chain (nd_shared (ns ! k))"
  obtain c' h where c: "c = Some c'" "member_says E (ns ! k) ''HEIGHT'' h" "cn_recvs c' = byte_calls h"
    using assms(1) Some by (auto simp: height_conn_def)
  then have "h = show_u64 (chain_height ?ch) @ newline" by (auto simp: member_says_def answer_height)
  moreover note ch = assms(2)[OF Some]
  ultimately have "fst (queryHeight (platform E) c) = int (unat (chain_height ?ch))"
    using queryHeight_reply[OF chain_heights(2)[of E ?ch "platform E"], of "cn_sends c'"] c(1,3)
    by (metis conn.surjective old.unit.exhaust)
  with chain_heights(1)[of E ?ch "platform E"] ch Some show ?thesis by simp
qed

lemma chain_conn_fetch:
  assumes "chain_conn E at ns p c" "at p = Some k" "\<forall>b \<in> set (blocks_of (ns ! k)). block_wire_ok b"
  shows "fst (fetchChain (platform E) c) = Inr (blocks_of (ns ! k))"
proof -
  obtain c' t console m' where c: "c = Some c'" "chunks_ok (cn_recvs c')" "concat (cn_recvs c') = t"
    "answer E (sh_chain (nd_shared (ns ! k))) (sh_state (nd_shared (ns ! k))) ''GET_CHAIN''
      (sh_mempool (nd_shared (ns ! k))) = Inr (Some t, console, m')"
    using assms(1,2) by (auto simp: chain_conn_def member_says_def)
  show ?thesis unfolding c(1) by (rule fetchChain_answer[OF c(4,2,3) assms(3)])
qed

text \<open>The sync ends with the tallest chain, if it is the chain of every peer as tall and one peer has it.\<close>

lemma sync_tallest:
  assumes conns: "sync_conns E at ns nd cs"
    and members: "\<And>p k. p \<in> set (nd_peers nd) \<Longrightarrow> at p = Some k \<Longrightarrow>
        chain_inv E (sh_chain (nd_shared (ns ! k))) \<and> heights_count (blocks_of (ns ! k))
        \<and> (length (blocks_of (ns ! k)) < length (chn_blocks ch) \<or> blocks_of (ns ! k) = chn_blocks ch)"
    and known: "p \<in> set (nd_peers nd)" "at p = Some j" "blocks_of (ns ! j) = chn_blocks ch"
    and valid: "chain_inv E ch" "heights_count (chn_blocks ch)"
      "length (chn_blocks ch) \<le> 2 ^ (long_bits (platform E) - 1)" "\<forall>b \<in> set (chn_blocks ch). block_wire_ok b"
    and own: "chain_inv E (sh_chain (nd_shared nd))" "heights_count (blocks_of nd)"
      "length (blocks_of nd) < length (chn_blocks ch) \<or> blocks_of nd = chn_blocks ch"
  shows "doInitNode E nd cs = (if blocks_of nd = chn_blocks ch then Inr (AlreadyAsTall, nd)
    else bind_res (rebuildFromBlocks E (chn_blocks ch) state_empty) (\<lambda>st'.
      Inr (Synced (chain_height ch), nd\<lparr>nd_shared := refreshHeightStatus ((nd_shared nd)\<lparr>sh_chain :=
        \<lparr>chn_blocks = chn_blocks ch, chn_difficulty = blk_difficulty (last (chn_blocks ch))\<rparr>, sh_state := st'\<rparr>)\<rparr>)))"
proof -
  let ?dm = "platform E" and ?ps = "nd_peers nd"
  have ne: "chn_blocks ch \<noteq> []" using valid(1) by (simp add: chain_inv_def)
  obtain as hs c where cs: "cs = as @ hs @ [c]" "length as = length ?ps" "list_all2 (height_conn E at ns) ?ps hs"
    and best: "case fst (snd (query_peers ?dm ?ps hs (- 1) None)) of None \<Rightarrow> True | Some p \<Rightarrow> chain_conn E at ns p c"
    using conns by (auto simp: sync_conns_def)
  have lhs: "length hs = length ?ps" using cs(3) by (simp add: list_all2_lengthD)
  have reply: "fst (queryHeight ?dm (hs ! i)) = (case at (?ps ! i) of None \<Rightarrow> - 1 | Some k \<Rightarrow> int (length (blocks_of (ns ! k)) - 1))"
    if "i < length ?ps" for i
  proof (rule height_conn_reply)
    show "height_conn E at ns (?ps ! i) (hs ! i)" using cs(3) that by (simp add: list_all2_conv_all_nth)
    fix k assume "at (?ps ! i) = Some k"
    with members[of "?ps ! i" k] that valid(3) show "chain_inv E (sh_chain (nd_shared (ns ! k)))
      \<and> heights_count (blocks_of (ns ! k)) \<and> length (blocks_of (ns ! k)) \<le> 2 ^ (long_bits ?dm - 1)" by auto
  qed
  obtain h bp rest where q: "query_peers ?dm ?ps hs (- 1) None = (h, bp, rest)"
    by (cases "query_peers ?dm ?ps hs (- 1) None") auto
  note max = query_best[OF q lhs]
  obtain i0 where i0: "i0 < length ?ps" "?ps ! i0 = p" using known(1) by (auto simp: in_set_conv_nth)
  have low: "int (length (chn_blocks ch) - 1) \<le> h" using max reply[OF i0(1)] i0 known(2,3) by force
  then obtain i where i: "i < length ?ps" "bp = Some (?ps ! i)" "h = fst (queryHeight ?dm (hs ! i))"
    using max by force
  have "at (?ps ! i) \<noteq> None" using reply[OF i(1)] i(3) low by (cases "at (?ps ! i)") simp_all
  then obtain k where k: "at (?ps ! i) = Some k" by blast
  have h: "h = int (length (blocks_of (ns ! k)) - 1)" using reply[OF i(1)] i(3) k by simp
  have bk: "blocks_of (ns ! k) = chn_blocks ch"
  proof (rule ccontr)
    assume "blocks_of (ns ! k) \<noteq> chn_blocks ch"
    with members[OF nth_mem[OF i(1)] k] have "length (blocks_of (ns ! k)) < length (chn_blocks ch)"
      "blocks_of (ns ! k) \<noteq> []" by (auto simp: chain_inv_def)
    then have "length (blocks_of (ns ! k)) - 1 < length (chn_blocks ch) - 1" by (cases "blocks_of (ns ! k)") auto
    with low h show False by simp
  qed
  have hh: "h = int (unat (chain_height ch))" using h bk chain_heights(1)[OF valid(1-3)] by simp
  have conn: "chain_conn E at ns (?ps ! i) c" using best q i(2) by simp
  have f: "fst (fetchChain ?dm c) = Inr (chn_blocks ch)"
    using chain_conn_fetch[OF conn k] valid(4) bk by simp
  obtain oks where a: "announceToAllPeers (wal_address (nd_wallet nd)) ?ps cs = (oks, hs @ [c])"
    using announce_append[OF cs(2)] cs(1) by blast
  have q2: "query_peers ?dm ?ps (hs @ [c]) (- 1) None = (int (unat (chain_height ch)), Some (?ps ! i), [c])"
    using query_append[OF lhs, of ?dm "[c]"] q i(2) hh by simp
  show ?thesis
  proof (cases "blocks_of nd = chn_blocks ch")
    case True
    then have "chain_height (sh_chain (nd_shared nd)) = chain_height ch" by (simp add: chain_height_def)
    moreover have "?ps \<noteq> []" using known(1) by auto
    moreover have "0 \<le> h" using hh by simp
    ultimately have "doInitNode E nd cs = Inr (AlreadyAsTall, nd)"
      by (simp add: doInitNode_def a q2)
    with True show ?thesis by simp
  next
    case False
    then have "length (blocks_of nd) < length (chn_blocks ch)" using own(3) by simp
    from sync_from_best[OF a q2 f valid(1-3) own(1,2) this] False show ?thesis by simp
  qed
qed

subsection \<open>Every node in turn\<close>

text \<open>
  A network whose nodes have stopped mining. \<open>ch\<close> is the tallest chain: some node has it, at an
  address that every other node knows, and every other chain is shorter.
\<close>

definition network :: "env \<Rightarrow> addressing \<Rightarrow> chain \<Rightarrow> state_store \<Rightarrow> nat \<Rightarrow> node list \<Rightarrow> bool" where
  "network E at ch st j ns \<longleftrightarrow>
     (\<forall>nd \<in> set ns. books_kept E nd \<and> joined nd \<and> (length (blocks_of nd) < length (chn_blocks ch) \<or> blocks_of nd = chn_blocks ch))
     \<and> (\<forall>i < length ns. \<forall>p \<in> set (nd_peers (ns ! i)). \<forall>k. at p = Some k \<longrightarrow> k < length ns)
     \<and> (\<forall>i < length ns. i \<noteq> j \<longrightarrow> (\<exists>p \<in> set (nd_peers (ns ! i)). at p = Some j))
     \<and> j < length ns \<and> sh_chain (nd_shared (ns ! j)) = ch \<and> sh_state (nd_shared (ns ! j)) = st
     \<and> chain_inv E ch \<and> heights_count (chn_blocks ch) \<and> length (chn_blocks ch) \<le> 2 ^ (long_bits (platform E) - 1)
     \<and> (\<forall>b \<in> set (chn_blocks ch). block_wire_ok b) \<and> rebuildFromBlocks E (chn_blocks ch) state_empty = Inr st"

lemma network_sync:
  assumes "network E at ch st j ns" "i < length ns" "i \<noteq> j" "sync_conns E at ns (ns ! i) cs"
  shows "\<exists>r nd'. doInitNode E (ns ! i) cs = Inr (r, nd') \<and> blocks_of nd' = chn_blocks ch
    \<and> network E at ch st j (ns[i := nd'])"
proof -
  have ok: "books_kept E nd \<and> joined nd \<and> (length (blocks_of nd) < length (chn_blocks ch) \<or> blocks_of nd = chn_blocks ch)"
    if "nd \<in> set ns" for nd using assms(1) that by (simp add: network_def)
  have own: "ns ! i \<in> set ns" using assms(2) by simp
  have ch: "chain_inv E ch" "heights_count (chn_blocks ch)" "length (chn_blocks ch) \<le> 2 ^ (long_bits (platform E) - 1)"
    "\<forall>b \<in> set (chn_blocks ch). block_wire_ok b" "rebuildFromBlocks E (chn_blocks ch) state_empty = Inr st"
    "j < length ns" "blocks_of (ns ! j) = chn_blocks ch"
    using assms(1) by (simp_all add: network_def)
  obtain p where p: "p \<in> set (nd_peers (ns ! i))" "at p = Some j"
    using assms(1-3) by (auto simp: network_def)
  have mem: "ns ! k \<in> set ns" if "q \<in> set (nd_peers (ns ! i))" "at q = Some k" for q k
    using assms(1,2) that by (auto simp: network_def)
  have sync: "doInitNode E (ns ! i) cs = (if blocks_of (ns ! i) = chn_blocks ch then Inr (AlreadyAsTall, ns ! i)
    else Inr (Synced (chain_height ch), (ns ! i)\<lparr>nd_shared := refreshHeightStatus ((nd_shared (ns ! i))\<lparr>sh_chain :=
      \<lparr>chn_blocks = chn_blocks ch, chn_difficulty = blk_difficulty (last (chn_blocks ch))\<rparr>, sh_state := st\<rparr>)\<rparr>))"
    using sync_tallest[OF assms(4) _ p ch(7,1-4)] books_chain[of E] ok[OF own] ok[OF mem] ch(5)
    by (simp split: if_splits)
  then obtain r nd' where d: "doInitNode E (ns ! i) cs = Inr (r, nd')" "blocks_of nd' = chn_blocks ch"
    "nd_peers nd' = nd_peers (ns ! i)"
    by (cases "blocks_of (ns ! i) = chn_blocks ch") auto
  have kept: "books_kept E nd' \<and> joined nd'"
    using sync_books[OF d(1)] ok[OF own] by (auto simp: joined_def)
  have "network E at ch st j (ns[i := nd'])"
    unfolding network_def
  proof (intro conjI)
    show "\<forall>nd \<in> set (ns[i := nd']). books_kept E nd \<and> joined nd
        \<and> (length (blocks_of nd) < length (chn_blocks ch) \<or> blocks_of nd = chn_blocks ch)"
      using ok kept d(2) set_update_subset_insert[of ns i nd'] by auto
    have peers: "nd_peers (ns[i := nd'] ! k) = nd_peers (ns ! k)" for k
      using d(3) assms(2) by (cases "k = i") simp_all
    show "\<forall>k < length (ns[i := nd']). \<forall>p \<in> set (nd_peers (ns[i := nd'] ! k)). \<forall>l. at p = Some l \<longrightarrow> l < length (ns[i := nd'])"
      "\<forall>k < length (ns[i := nd']). k \<noteq> j \<longrightarrow> (\<exists>p \<in> set (nd_peers (ns[i := nd'] ! k)). at p = Some j)"
      using assms(1) unfolding peers length_list_update network_def by blast+
  qed (use assms(1,3) in \<open>simp_all add: network_def\<close>)
  with d show ?thesis by blast
qed

text \<open>The other nodes' handlers can always answer.\<close>

lemma sync_conns_exist: "\<exists>cs. sync_conns E at ns nd cs"
proof -
  let ?reply = "\<lambda>k. show_u64 (chain_height (sh_chain (nd_shared (ns ! k)))) @ newline"
  let ?chain = "\<lambda>k. concat (map (\<lambda>line. line @ newline) (dumpLines (sh_chain (nd_shared (ns ! k))))) @ ''END'' @ newline"
  let ?hs = "map (\<lambda>p. case at p of None \<Rightarrow> None | Some k \<Rightarrow> Some \<lparr>cn_sends = [], cn_recvs = byte_calls (?reply k)\<rparr>) (nd_peers nd)"
  have h: "height_conn E at ns p (case at p of None \<Rightarrow> None | Some k \<Rightarrow> Some \<lparr>cn_sends = [], cn_recvs = byte_calls (?reply k)\<rparr>)" for p
    by (cases "at p") (auto simp: height_conn_def member_says_def answer_height)
  have c: "\<exists>c. chain_conn E at ns p c" for p
  proof (cases "at p")
    case (Some k)
    then have "chain_conn E at ns p (Some \<lparr>cn_sends = [], cn_recvs = [?chain k]\<rparr>)"
      by (simp add: chain_conn_def member_says_def answer_chain chunks_ok_def)
    then show ?thesis ..
  qed (simp add: chain_conn_def)
  have hs: "list_all2 (height_conn E at ns) (nd_peers nd) ?hs"
    using h by (simp add: list_all2_conv_all_nth)
  obtain c where "case fst (snd (query_peers (platform E) (nd_peers nd) ?hs (- 1) None)) of
      None \<Rightarrow> True | Some p \<Rightarrow> chain_conn E at ns p c"
    using c by (cases "fst (snd (query_peers (platform E) (nd_peers nd) ?hs (- 1) None))") auto
  with hs have "sync_conns E at ns nd (replicate (length (nd_peers nd)) None @ ?hs @ [c])"
    unfolding sync_conns_def by (intro exI[of _ "replicate (length (nd_peers nd)) None"] exI[of _ ?hs] exI[of _ c]) simp
  then show ?thesis ..
qed

lemma network_syncs_return:
  assumes "network E at ch st j ns" "set order \<subseteq> {..<length ns} - {j}"
  shows "\<exists>ns'. net_syncs E at ns order ns'"
  using assms
proof (induction order arbitrary: ns)
  case (Cons i order)
  have i: "i < length ns" "i \<noteq> j" using Cons.prems(2) by auto
  obtain cs where cs: "sync_conns E at ns (ns ! i) cs" using sync_conns_exist by blast
  then obtain r nd' where d: "doInitNode E (ns ! i) cs = Inr (r, nd')" "network E at ch st j (ns[i := nd'])"
    using network_sync[OF Cons.prems(1) i cs] by blast
  then have "net_sync E at ns i (ns[i := nd'])" using cs unfolding net_sync_def by blast
  moreover obtain ns' where "net_syncs E at (ns[i := nd']) order ns'"
    using Cons.IH[OF d(2)] Cons.prems(2) by auto
  ultimately show ?case unfolding net_syncs.simps by blast
next
  case Nil
  have "net_syncs E at ns [] ns" by simp
  then show ?case ..
qed

lemma network_syncs_agree:
  assumes "net_syncs E at ns order ns'" "network E at ch st j ns" "set order \<subseteq> {..<length ns} - {j}"
  shows "network E at ch st j ns' \<and> length ns' = length ns
    \<and> (\<forall>i < length ns. blocks_of (ns ! i) = chn_blocks ch \<or> i \<in> set order \<longrightarrow> blocks_of (ns' ! i) = chn_blocks ch)"
  using assms
proof (induction order arbitrary: ns)
  case (Cons i order)
  have i: "i < length ns" "i \<noteq> j" using Cons.prems(3) by auto
  obtain cs r nd' where d: "sync_conns E at ns (ns ! i) cs" "doInitNode E (ns ! i) cs = Inr (r, nd')"
    "net_syncs E at (ns[i := nd']) order ns'" using Cons.prems(1) by (auto simp: net_sync_def)
  then have n: "network E at ch st j (ns[i := nd'])" "blocks_of nd' = chn_blocks ch"
    using network_sync[OF Cons.prems(2) i d(1)] by auto
  have "network E at ch st j ns' \<and> length ns' = length (ns[i := nd']) \<and>
      (\<forall>k < length (ns[i := nd']). blocks_of (ns[i := nd'] ! k) = chn_blocks ch \<or> k \<in> set order \<longrightarrow>
        blocks_of (ns' ! k) = chn_blocks ch)"
    using Cons.prems(3) by (intro Cons.IH[OF d(3) n(1)]) simp
  with i(1) n(2) show ?case by (auto simp: nth_list_update)
qed simp

end
