(* ===== verification/Agreement.thy ===== *)
theory Agreement
  imports Convergence
begin

text \<open>
  What nodes agree on: a network that has stopped mining and syncs ends with one chain and one
  ledger, and two nodes that show the same hash of their tip hold the same ledger.
\<close>

subsection \<open>The sample network\<close>

text \<open>A node that has mined one block and stopped, and nodes that know its address.\<close>

lemma careful_threads:
  assumes "mining_run E (wal_address (nd_wallet nd)) (nd_workers nd, nd_shared nd) (pcs, s)"
  shows "(careful_step E)\<^sup>*\<^sup>* nd (nd\<lparr>nd_workers := pcs, nd_shared := s\<rparr>)"
  using assms
proof (induction "(pcs, s)" arbitrary: pcs s rule: rtranclp_induct)
  case base
  then show ?case by simp
next
  case (step ps)
  obtain pcs1 s1 where ps: "ps = (pcs1, s1)" by (cases ps)
  let ?nd1 = "nd\<lparr>nd_workers := pcs1, nd_shared := s1\<rparr>"
  have "careful_step E ?nd1 (?nd1\<lparr>nd_workers := pcs, nd_shared := s\<rparr>)"
    using step(2) ps by (intro careful_step.threads) simp
  with step(3)[OF ps] show ?case by simp
qed

lemma sample_distinct_block:
  "\<exists>now. sha512d sample_env (serializeForHash sample_genesis)
     \<noteq> sha512d sample_env (serializeForHash (candidate_of sample_env now addr 0 [] sample_chain))"
proof -
  let ?text = "\<lambda>now. serializeForHash (candidate_of sample_env now addr 0 [] sample_chain)"
  have append: "sample_checksum (x @ y) = sample_checksum x + sample_checksum y" for x y
    by (simp add: sample_checksum_def)
  have "sample_checksum (?text 1) = sample_checksum (?text 0) + 1"
    by (simp add: serializeForHash_def header_text_def candidate_of_def buildCandidate_def append
        show_i64_def show_int_def show_nat.simps digit_char_def)
      (simp add: sample_checksum_def)
  then have "sha512d sample_env (?text 1) \<noteq> sha512d sample_env (?text 0)" by (simp add: sample_sha512d)
  then show ?thesis by metis
qed

definition sample_mined :: "i64 \<Rightarrow> block" where
  "sample_mined now = candidate_of sample_env now (wal_address sample_wallet) 0 [] sample_chain"

lemma sample_separators: "CHR ''|'' \<notin> set (wal_address sample_wallet)" "CHR '','' \<notin> set (wal_address sample_wallet)"
  "CHR '';'' \<notin> set (wal_address sample_wallet)" "CHR 0x0A \<notin> set (wal_address sample_wallet)"
  using sample_wallet_ok sample_env_ok by (simp_all add: wallet_ok_def)

lemma sample_mined_ok: "block_wire_ok (sample_mined now)" "block_hash_ok (sample_mined now)"
  "block_hash_ok sample_genesis"
  using sample_separators
  by (auto simp: block_wire_ok_def block_hash_ok_def sample_mined_def candidate_of_def buildCandidate_def
      coinbase_line_def show_u64_def kCoinbaseReward_def sample_genesis_def genesis_candidate_def)

lemma sample_miner_node:
  "\<exists>nd. reach_from (node_init sample_env) (careful_step sample_env) nd \<and> joined nd \<and> nd_peers nd = []
    \<and> blocks_of nd = [sample_genesis, sample_mined now]
    \<and> unat (getBalance (sh_state (nd_shared nd)) (wal_address sample_wallet)) = 50"
proof -
  let ?nd1 = "cmd_mine 1 sample_node" and ?addr = "wal_address sample_wallet"
  have "stream_tokens ''mine'' = [''mine'']" by (rule stream_tokens_last) (simp add: solid_def is_space_def)
  then have "parse_command ''mine'' = Mine 1" by (simp add: parse_command_def token_arg_def)
  moreover have "joined sample_node" by (simp add: joined_def sample_node_def)
  ultimately have "careful_step sample_env sample_node ?nd1"
    by (intro careful_step.command[of "''mine''"]) (simp_all add: careful_def)
  with reach_init[of "node_init sample_env", OF sample_node_init]
  have r1: "reach_from (node_init sample_env) (careful_step sample_env) ?nd1" by (rule reach_step)
  have n1: "nd_workers ?nd1 = [OuterTest]" "sh_chain (nd_shared ?nd1) = sample_chain" "sh_state (nd_shared ?nd1) = state_empty"
    "sh_mempool (nd_shared ?nd1) = mempool_empty" "\<not> sh_stopFlag (nd_shared ?nd1)" "wal_address (nd_wallet ?nd1) = ?addr"
    "nd_peers ?nd1 = []"
    by (simp_all add: cmd_mine_def miner_start_def miner_stop_done_def miner_stop_request_def sample_node_def sample_shared_def)
  have mine: "mineBlock sample_env (sample_mined now) = Some (sample_mined now)"
    unfolding sample_mined_def by (rule sample_mine) (simp add: sample_chain_def)
  have "\<exists>s'. mining_run sample_env ?addr ([OuterTest], nd_shared ?nd1) ([OuterTest], s')
    \<and> chn_blocks (sh_chain s') = chn_blocks (sh_chain (nd_shared ?nd1)) @ [sample_mined now]
    \<and> represents (sh_mempool s') (drop 20 []) \<and> ns_height (sh_status s') = chain_height (sh_chain s')
    \<and> (\<forall>a. unat (getBalance (sh_state s') a) + sent_by a (take 20 [])
        = unat (getBalance (sh_state (nd_shared ?nd1)) a) + received_by a (take 20 []) + (if a = ?addr then 50 else 0))"
    by (rule round_settles[of 0]) (use n1 mine sample_separators(1) in \<open>simp_all add: sample_mined_def\<close>)
  then obtain s1 where s1: "mining_run sample_env ?addr ([OuterTest], nd_shared ?nd1) ([OuterTest], s1)"
    "chn_blocks (sh_chain s1) = [sample_genesis, sample_mined now]" "unat (getBalance (sh_state s1) ?addr) = 50"
    using n1 by (auto simp: sample_chain_def)
  let ?s2 = "miner_stop_request s1"
  have "mining_step sample_env ?addr ([OuterTest], s1) ([OuterTest], ?s2)" by (rule mining_step.stop_request)
  moreover have "mining_step sample_env ?addr ([OuterTest], ?s2) ([Finished], ?s2)"
    using mining_step.worker[of 0 "[OuterTest]" sample_env 0 ?addr ?s2 Finished ?s2] by (simp add: miner_stop_request_def)
  ultimately have "mining_run sample_env (wal_address (nd_wallet ?nd1)) (nd_workers ?nd1, nd_shared ?nd1) ([Finished], ?s2)"
    using s1(1) n1(1,6) by (auto intro: rtranclp.rtrancl_into_rtrancl)
  from reach_run[OF careful_threads[OF this] r1] s1(2,3) n1(7) show ?thesis
    by (intro exI[of _ "?nd1\<lparr>nd_workers := [Finished], nd_shared := ?s2\<rparr>"]) (simp add: joined_def miner_stop_request_def)
qed

text \<open>Three nodes: the miner, and two that know its address.\<close>

definition sample_at :: addressing where
  "sample_at p = (if p = sample_peer then Some 0 else None)"

definition sample_knowing :: node where
  "sample_knowing = remember_peer sample_peer sample_node"

lemma sample_knowing_reach:
  "reach_from (node_init sample_env) (careful_step sample_env) sample_knowing"
  "reach_from (node_init sample_env) (careful_step sample_env) (remember_peer sample_peer sample_knowing)"
proof -
  have step: "careful_step sample_env nd (remember_peer sample_peer nd)" for nd
    by (rule careful_step.command[OF _ sample_add_peer]) (simp add: careful_def sample_parse_peer)
  show "reach_from (node_init sample_env) (careful_step sample_env) sample_knowing"
    unfolding sample_knowing_def by (rule reach_step[where s = sample_node]) (rule reach_init, rule sample_node_init, rule step)
  then show "reach_from (node_init sample_env) (careful_step sample_env) (remember_peer sample_peer sample_knowing)"
    by (rule reach_step) (rule step)
qed

definition sample_net :: "node \<Rightarrow> node list" where
  "sample_net nd = [nd, sample_knowing, remember_peer sample_peer sample_knowing]"

lemma sample_net_ready:
  assumes "reach_from (node_init sample_env) (careful_step sample_env) nd" "joined nd" "nd_peers nd = []"
    and b: "blocks_of nd = [sample_genesis, sample_mined now]"
  shows "\<forall>nd' \<in> set (sample_net nd). reach_from (node_init sample_env) (careful_step sample_env) nd' \<and> joined nd'"
    and "\<forall>nd' \<in> set (sample_net nd). length (blocks_of nd') < length (blocks_of nd) \<or> blocks_of nd' = blocks_of nd"
    and "\<forall>i < length (sample_net nd). \<forall>p \<in> set (nd_peers (sample_net nd ! i)). \<forall>k. sample_at p = Some k \<longrightarrow> k < length (sample_net nd)"
    and "\<forall>i < length (sample_net nd). i \<noteq> 0 \<longrightarrow> (\<exists>p \<in> set (nd_peers (sample_net nd ! i)). sample_at p = Some 0)"
    and "length (blocks_of nd) \<le> 2 ^ (long_bits (platform sample_env) - 1)"
    and "\<forall>b \<in> set (blocks_of nd). block_wire_ok b"
    and "set [2, 1, 2] = {..<length (sample_net nd)} - {0}"
proof -
  have other: "blocks_of sample_knowing = [sample_genesis]" "blocks_of (remember_peer sample_peer sample_knowing) = [sample_genesis]"
    "joined sample_knowing" "joined (remember_peer sample_peer sample_knowing)"
    "nd_peers sample_knowing = [sample_peer]" "nd_peers (remember_peer sample_peer sample_knowing) = [sample_peer, sample_peer]"
    by (simp_all add: sample_knowing_def remember_peer_def sample_node_def sample_shared_def sample_chain_def joined_def)
  show "\<forall>nd' \<in> set (sample_net nd). reach_from (node_init sample_env) (careful_step sample_env) nd' \<and> joined nd'"
    using assms sample_knowing_reach other by (simp add: sample_net_def)
  show "\<forall>nd' \<in> set (sample_net nd). length (blocks_of nd') < length (blocks_of nd) \<or> blocks_of nd' = blocks_of nd"
    using b other by (simp add: sample_net_def)
  show "\<forall>i < length (sample_net nd). \<forall>p \<in> set (nd_peers (sample_net nd ! i)). \<forall>k. sample_at p = Some k \<longrightarrow> k < length (sample_net nd)"
    by (auto simp: sample_net_def sample_at_def)
  show "\<forall>i < length (sample_net nd). i \<noteq> 0 \<longrightarrow> (\<exists>p \<in> set (nd_peers (sample_net nd ! i)). sample_at p = Some 0)"
    using other by (auto simp: sample_net_def sample_at_def less_Suc_eq_0_disj)
  show "length (blocks_of nd) \<le> 2 ^ (long_bits (platform sample_env) - 1)" unfolding b by simp
  show "\<forall>b \<in> set (blocks_of nd). block_wire_ok b"
    unfolding b using sample_mined_ok(1) sample_chain_wire by (simp add: sample_chain_def)
  show "set [2, 1, 2] = {..<length (sample_net nd)} - {0}"
    by (auto simp: sample_net_def)
qed

text \<open>The second of them after its sync.\<close>

lemma sample_synced:
  assumes "reach_from (node_init sample_env) (careful_step sample_env) nd" "joined nd" "nd_peers nd = []"
    and b: "blocks_of nd = [sample_genesis, sample_mined now]"
  shows "\<exists>nd'. reach_from (node_init sample_env) (careful_step sample_env) nd' \<and> joined nd'
    \<and> nd_peers nd' = [sample_peer] \<and> blocks_of nd' = blocks_of nd"
proof -
  let ?reach = "reach_from (node_init sample_env) (careful_step sample_env)"
  obtain cs where cs: "sync_conns sample_env sample_at (sample_net nd) sample_knowing cs" using sync_conns_exist by blast
  have kept: "books_kept sample_env nd" "joined nd" "books_kept sample_env sample_knowing"
    using books.reach_inv[OF assms(1)] books.reach_inv[OF sample_knowing_reach(1)] assms(2) by simp_all
  have k: "blocks_of sample_knowing = [sample_genesis]" "nd_peers sample_knowing = [sample_peer]" "joined sample_knowing"
    by (simp_all add: sample_knowing_def remember_peer_def sample_node_def sample_shared_def sample_chain_def joined_def)
  have at: "sample_at p = Some l \<Longrightarrow> sample_net nd ! l = nd" for p l
    by (simp add: sample_at_def sample_net_def split: if_splits)
  have r: "rebuildFromBlocks sample_env (blocks_of nd) state_empty = Inr (sh_state (nd_shared nd))"
    using books_replay[OF kept(1) joined_settled[OF kept(2)]] .
  have "doInitNode sample_env sample_knowing cs = (if blocks_of sample_knowing = blocks_of nd then Inr (AlreadyAsTall, sample_knowing)
    else bind_res (rebuildFromBlocks sample_env (blocks_of nd) state_empty) (\<lambda>st'.
      Inr (Synced (chain_height (sh_chain (nd_shared nd))), sample_knowing\<lparr>nd_shared := refreshHeightStatus
        ((nd_shared sample_knowing)\<lparr>sh_chain := \<lparr>chn_blocks = blocks_of nd,
          chn_difficulty = blk_difficulty (last (blocks_of nd))\<rparr>, sh_state := st'\<rparr>)\<rparr>)))"
    by (rule sync_tallest[OF cs, of _ sample_peer 0])
      (use k at b books_chain[OF kept(1)] books_chain[OF kept(3)] sample_net_ready(5,6)[OF assms] in
        \<open>auto simp: sample_at_def sample_net_def\<close>)
  then obtain rep nd' where nd': "doInitNode sample_env sample_knowing cs = Inr (rep, nd')" "blocks_of nd' = blocks_of nd"
    "nd_peers nd' = [sample_peer]"
    using r k(1,2) b by simp
  have "stream_tokens ''sync'' = [''sync'']" by (rule stream_tokens_last) (simp add: solid_def is_space_def)
  then have "parse_command ''sync'' = InitNode" by (simp add: parse_command_def)
  then have "careful_step sample_env sample_knowing nd'"
    using nd'(1) k(3) by (intro careful_step.command[of "''sync''" _ _ "\<lparr>in_clock = \<lambda>_. 0, in_conns = cs, in_listening = 3\<rparr>"])
      (simp_all add: careful_def of_res_def)
  with sample_knowing_reach(1) have "?reach nd'" by (rule reach_step)
  moreover have "joined nd'" using sync_books[OF nd'(1) kept(3) k(3)] k(3) by (simp add: joined_def)
  ultimately show ?thesis using nd'(2,3) by blast
qed

text \<open>The height of the tip counts the blocks.\<close>

lemma same_tip_length:
  assumes "heights_count xs" "heights_count ys" "xs \<noteq> []" "ys \<noteq> []" "last xs = last ys"
    and "length xs \<le> 2 ^ 64" "length ys \<le> 2 ^ 64"
  shows "length xs = length ys"
proof -
  have "unat (word_of_nat (length xs - 1) :: u64) = unat (word_of_nat (length ys - 1) :: u64)"
    using heights_count_last[OF assms(1,3)] heights_count_last[OF assms(2,4)] assms(5) by simp
  moreover have "length xs - 1 < 2 ^ 64" "length ys - 1 < 2 ^ 64"
    using assms(3,4,6,7) by (cases xs; cases ys; simp)+
  ultimately have "length xs - 1 = length ys - 1"
    by (simp add: unsigned_of_nat take_bit_nat_eq_self)
  then show ?thesis using assms(3,4) by (cases xs; cases ys) auto
qed

subsection \<open>Properties\<close>

text \<open>
  C1: A network that stops mining agrees. Any number of carefully used nodes have stopped mining; the
  longest chain is held by one of them, at an address that every other node knows, and by no
  other chain matched in length. When each of the others syncs, in any order and as often as it likes, asking
  whatever peers it knows and getting their answers as they are at that moment, over connections that cut the bytes
  anywhere, every sync returns, and in the end all nodes hold that chain, its balances, nonces and
  user names, and are in step, provided the line format can carry its blocks.
\<close>

theorem network_agrees:
  assumes "\<forall>nd \<in> set ns. reach_from (node_init E) (careful_step E) nd \<and> joined nd"
    and "j < length ns" "ch = sh_chain (nd_shared (ns ! j))"
    and "\<forall>nd \<in> set ns. length (blocks_of nd) < length (chn_blocks ch) \<or> blocks_of nd = chn_blocks ch"
    and "\<forall>i < length ns. \<forall>p \<in> set (nd_peers (ns ! i)). \<forall>k. at p = Some k \<longrightarrow> k < length ns"
    and "\<forall>i < length ns. i \<noteq> j \<longrightarrow> (\<exists>p \<in> set (nd_peers (ns ! i)). at p = Some j)"
    and "length (chn_blocks ch) \<le> 2 ^ (long_bits (platform E) - 1)" "\<forall>b \<in> set (chn_blocks ch). block_wire_ok b"
    and "set order = {..<length ns} - {j}"
  shows "(\<exists>ns'. net_syncs E at ns order ns')
    \<and> (\<forall>ns'. net_syncs E at ns order ns' \<longrightarrow> length ns' = length ns
        \<and> (\<forall>nd \<in> set ns'. blocks_of nd = chn_blocks ch \<and> sh_state (nd_shared nd) = sh_state (nd_shared (ns ! j))
             \<and> chain_height (sh_chain (nd_shared nd)) = chain_height ch))"
proof -
  have kept: "books_kept E nd" "joined nd" if "nd \<in> set ns" for nd
    using books.reach_inv assms(1) that by blast+
  have j: "ns ! j \<in> set ns" using assms(2) by simp
  note r = books_replay[OF kept(1)[OF j] joined_settled[OF kept(2)[OF j]], of state_empty]
  have net: "network E at ch (sh_state (nd_shared (ns ! j))) j ns"
    using assms kept books_chain[OF kept(1)[OF j]] r unfolding network_def by blast
  have sub: "set order \<subseteq> {..<length ns} - {j}" using assms(9) by simp
  have "length ns' = length ns \<and> (\<forall>nd \<in> set ns'. blocks_of nd = chn_blocks ch
      \<and> sh_state (nd_shared nd) = sh_state (nd_shared (ns ! j))
      \<and> chain_height (sh_chain (nd_shared nd)) = chain_height ch)" if s: "net_syncs E at ns order ns'" for ns'
  proof -
    note a = network_syncs_agree[OF s net sub]
    have all: "blocks_of nd = chn_blocks ch" if member: "nd \<in> set ns'" for nd
    proof -
      have "length ns' = length ns" using a by simp
      then obtain i where i: "i < length ns" "nd = ns' ! i" using member by (auto simp: in_set_conv_nth)
      then have "i = j \<or> i \<in> set order" using assms(9) by auto
      then show ?thesis using a i assms(3) by auto
    qed
    have "sh_state (nd_shared nd) = sh_state (nd_shared (ns ! j))" if "nd \<in> set ns'" for nd
    proof -
      have "books_kept E nd" "joined nd" using a that by (simp_all add: network_def)
      from books_replay[OF this(1) joined_settled[OF this(2)], of state_empty] all[OF that] r assms(3)
      show ?thesis by simp
    qed
    with a all show ?thesis by (simp add: chain_height_def)
  qed
  with network_syncs_return[OF net sub] show ?thesis by blast
qed

theorem network_agrees_witness:
  "\<exists>nd ns'. net_syncs sample_env sample_at (sample_net nd) [2, 1, 2] ns' \<and> length ns' = 3
    \<and> (\<forall>nd' \<in> set ns'. blocks_of nd' = [sample_genesis, sample_mined 0]
        \<and> unat (getBalance (sh_state (nd_shared nd')) (wal_address sample_wallet)) = 50)"
proof -
  obtain nd where nd: "reach_from (node_init sample_env) (careful_step sample_env) nd" "joined nd" "nd_peers nd = []"
    "blocks_of nd = [sample_genesis, sample_mined 0]"
    "unat (getBalance (sh_state (nd_shared nd)) (wal_address sample_wallet)) = 50"
    using sample_miner_node[of 0] by blast
  note ready = sample_net_ready[OF nd(1-4)]
  have first: "0 < length (sample_net nd)" "sample_net nd ! 0 = nd" by (simp_all add: sample_net_def)
  have agrees: "(\<exists>ns'. net_syncs sample_env sample_at (sample_net nd) [2, 1, 2] ns')
    \<and> (\<forall>ns'. net_syncs sample_env sample_at (sample_net nd) [2, 1, 2] ns' \<longrightarrow> length ns' = length (sample_net nd)
        \<and> (\<forall>nd' \<in> set ns'. blocks_of nd' = blocks_of nd \<and> sh_state (nd_shared nd') = sh_state (nd_shared (sample_net nd ! 0))
             \<and> chain_height (sh_chain (nd_shared nd')) = chain_height (sh_chain (nd_shared nd))))"
    by (rule network_agrees[OF ready(1) first(1)]) (use first(2) ready in simp_all)
  have "length (sample_net nd) = 3" by (simp add: sample_net_def)
  with agrees nd(4,5) first(2) show ?thesis by metis
qed

text \<open>
  C6: The hash of the tip stands for the ledger. Two nodes that are used carefully, each with its own
  commands, its own mining thread and its own peers, which may send anything, whose workers
  have no block in hand, and whose chains have at most 2^64 blocks and tips with the same hash, hold
  the same chain and the same balances, nonces and user names, unless two different blocks of their
  chains have the same hash. That takes a collision of the digest on different texts, or a block
  with a semicolon in a transaction or a bar in its previous hash, which peers may send and with
  which it does happen (\<open>serialize_ambiguous\<close>).
\<close>

theorem tip_stands_for_ledger:
  assumes "reach_from (node_init E) (careful_step E) nd1" "reach_from (node_init E) (careful_step E) nd2"
    and "settled nd1" "settled nd2"
    and "tipHash E (sh_chain (nd_shared nd1)) = tipHash E (sh_chain (nd_shared nd2))"
    and "\<forall>nd \<in> {nd1, nd2}. length (chn_blocks (sh_chain (nd_shared nd))) \<le> 2 ^ 64"
  shows "(chn_blocks (sh_chain (nd_shared nd1)) = chn_blocks (sh_chain (nd_shared nd2))
      \<and> sh_state (nd_shared nd1) = sh_state (nd_shared nd2))
    \<or> (\<exists>a \<in> set (chn_blocks (sh_chain (nd_shared nd1))) \<union> set (chn_blocks (sh_chain (nd_shared nd2))).
        \<exists>b \<in> set (chn_blocks (sh_chain (nd_shared nd1))) \<union> set (chn_blocks (sh_chain (nd_shared nd2))).
         a \<noteq> b \<and> computeHash E a = computeHash E b
         \<and> (serializeForHash a \<noteq> serializeForHash b \<and> sha512d E (serializeForHash a) = sha512d E (serializeForHash b)
            \<or> \<not> block_hash_ok a \<or> \<not> block_hash_ok b))"
proof (cases "hash_clash E (set (chn_blocks (sh_chain (nd_shared nd1))) \<union> set (chn_blocks (sh_chain (nd_shared nd2))))")
  case True
  then show ?thesis unfolding hash_clash_def by blast
next
  case False
  let ?xs = "chn_blocks (sh_chain (nd_shared nd1))" and ?ys = "chn_blocks (sh_chain (nd_shared nd2))"
  note k = books.reach_inv[OF assms(1)] books.reach_inv[OF assms(2)]
  have ch: "valid_chain E ?xs" "valid_chain E ?ys" "?xs \<noteq> []" "?ys \<noteq> []" "heights_count ?xs" "heights_count ?ys"
    using books_chain[OF k(1)] books_chain[OF k(2)] by (simp_all add: chain_inv_def)
  have tips: "computeHash E (last ?xs) = computeHash E (last ?ys)" using assms(5) by (simp add: tipHash_def)
  have "last ?xs = last ?ys"
    using inj_onD[OF no_clash_inj[OF False] tips] ch(3,4) by simp
  then have "length ?xs = length ?ys"
    using same_tip_length[OF ch(5,6,3,4)] assms(6) by simp
  then have eq: "?xs = ?ys"
    by (rule suffix_same_length[OF valid_chain_tip_suffix[OF ch(1,2) tips False]])
  moreover have "sh_state (nd_shared nd1) = sh_state (nd_shared nd2)"
    using books_replay[OF k(1) assms(3)] books_replay[OF k(2) assms(4)] eq by (metis sum.inject(2))
  ultimately show ?thesis by blast
qed

text \<open>The two nodes of the witness: the miner, and a node that has synced with it.\<close>

theorem tip_stands_for_ledger_witness:
  "\<exists>(nd1 :: node) (nd2 :: node). nd_peers nd1 \<noteq> nd_peers nd2 \<and> length (blocks_of nd1) = 2
    \<and> tipHash sample_env (sh_chain (nd_shared nd1)) = tipHash sample_env (sh_chain (nd_shared nd2))
    \<and> sh_state (nd_shared nd1) = sh_state (nd_shared nd2)"
proof -
  let ?reach = "reach_from (node_init sample_env) (careful_step sample_env)"
  obtain now where inj: "sha512d sample_env (serializeForHash sample_genesis) \<noteq> sha512d sample_env (serializeForHash (sample_mined now))"
    using sample_distinct_block unfolding sample_mined_def by blast
  obtain nd where nd: "?reach nd" "joined nd" "nd_peers nd = []" "blocks_of nd = [sample_genesis, sample_mined now]"
    using sample_miner_node[of now] by blast
  obtain nd2 where nd2: "?reach nd2" "joined nd2" "nd_peers nd2 = [sample_peer]" "blocks_of nd2 = blocks_of nd"
    using sample_synced[OF nd] by blast
  have tips: "tipHash sample_env (sh_chain (nd_shared nd)) = tipHash sample_env (sh_chain (nd_shared nd2))"
    using nd2(4) by (simp add: tipHash_def)
  have "sh_state (nd_shared nd) = sh_state (nd_shared nd2)"
    using tip_stands_for_ledger[OF nd(1) nd2(1) joined_settled[OF nd(2)] joined_settled[OF nd2(2)] tips]
      nd2(4) nd(4) inj by (auto simp: computeHash_digest)
  moreover have "nd_peers nd \<noteq> nd_peers nd2" "length (blocks_of nd) = 2" using nd(3,4) nd2(3) by simp_all
  ultimately show ?thesis using tips by (intro exI[of _ nd] exI[of _ nd2]) simp
qed

end
