(* ===== verification/Spec2Isabelle.thy ===== *)
theory Spec2Isabelle
  imports Takeover Forged_Coinbase Concurrent_Stop Submission_Order Wire_Laws Agreement
begin

text \<open>
  MegaByte is a prototype of a blockchain node: a chain of proof-of-work blocks, a mempool and an
  account state, a wallet, mining threads, a line-based peer protocol and a command loop. This
  library models its C++ sources (\<^verbatim>\<open>src/src/\<close>, header files and \<^verbatim>\<open>node/main.cpp\<close>) and proves what
  makes them correct, together with the places where they are not.

  \<^bold>\<open>The parts and their theories.\<close> Each theory is named after the part it models and imports the
  parts that part calls.
  \<^item> \<^verbatim>\<open>MB_Prelude\<close>: machine words, C++ exceptions as a sum type, loops that may throw, splitting
    and joining text, string searches, and the interfaces as locales: a text codec, a line codec,
    a codec whose decoded values can be encoded again, a transition system with an invariant, and
    one that refines another. \<^verbatim>\<open>Number_Text\<close>: decimal text, as \<^verbatim>\<open>operator<<\<close>
    prints it and \<^verbatim>\<open>std::stoull\<close> and its kin read it, with their exceptions.
  \<^item> \<^verbatim>\<open>Hash512\<close> (\<^verbatim>\<open>crypto/hash.hpp\<close>): the double digest as text. \<^verbatim>\<open>Block\<close> (\<^verbatim>\<open>blockchain/block.hpp\<close>): the
    block, its hashed text and its wire line, a line codec. \<^verbatim>\<open>Proof_Of_Work\<close>
    (\<^verbatim>\<open>consensus/proof_of_work.hpp\<close>): the difficulty test and the nonce search.
    \<^verbatim>\<open>Chain\<close> (\<^verbatim>\<open>blockchain/chain.hpp\<close>): the chain's operations, its invariant and fork choice.
  \<^item> \<^verbatim>\<open>Keystore\<close> and \<^verbatim>\<open>Transaction\<close> (\<^verbatim>\<open>wallet/\<close>): key files, addresses, signing, the transaction's
    line. \<^verbatim>\<open>State_Store\<close> (\<^verbatim>\<open>state/account.hpp\<close>): balances, nonces, user names and the replay of
    blocks; \<^verbatim>\<open>State_Laws\<close>: its invariant and the conservation of money. \<^verbatim>\<open>Mempool\<close>
    (\<^verbatim>\<open>mempool/mempool.hpp\<close>): admission and removal over the state's queries, with the locale
    \<^verbatim>\<open>ledger\<close> as the interface between them; \<^verbatim>\<open>Mempool_Laws\<close>: the abstract queue it refines.
  \<^item> \<^verbatim>\<open>Net\<close> (\<^verbatim>\<open>net/sockets_compat.hpp\<close>): sending, the two line readers and connecting, from what the system
    calls return. \<^verbatim>\<open>Accept_Loop\<close> (the rest of that header and the loop that both servers run):
    start-up, waiting with a timeout, closing, and the interface of a server that handles what it
    accepts until it is stopped, a locale that \<^verbatim>\<open>Peer_Server\<close> and \<^verbatim>\<open>Status_Monitor\<close> provide.
    \<^verbatim>\<open>Peer_Client\<close>, \<^verbatim>\<open>Peer_Server\<close> (\<^verbatim>\<open>p2p/\<close>): the two sides of the peer protocol; \<^verbatim>\<open>Peer_Protocol\<close>: the
    two together; \<^verbatim>\<open>Wire_Laws\<close>: what arrives can be passed on, on either platform, and which
    requests end the process. \<^verbatim>\<open>Status_Monitor\<close> (\<^verbatim>\<open>node/status.hpp\<close>, \<^verbatim>\<open>node/monitor.hpp\<close>): the counters,
    their server, the dashboard and the launch of its window.
  \<^item> \<^verbatim>\<open>Miner\<close> (\<^verbatim>\<open>node/miner.hpp\<close>): the worker threads as a step relation, one step for each access to
    shared state; \<^verbatim>\<open>Miner_Runs\<close> chains steps into rounds, \<^verbatim>\<open>Miner_Laws\<close> and \<^verbatim>\<open>Miner_Theorems\<close> hold
    what mining guarantees and what two workers can break; \<^verbatim>\<open>Stop_Mining\<close>: once asked to stop,
    the workers end; \<^verbatim>\<open>Submission\<close>: any number of threads that submit, lock by lock, beside them;
    \<^verbatim>\<open>Submission_Order\<close>: the mempool's calls access by access, and the order in which they are whole
    operations.
  \<^item> \<^verbatim>\<open>Node\<close> and \<^verbatim>\<open>Command_Loop\<close> (\<^verbatim>\<open>node/main.cpp\<close>): the handlers, the reading of a line, and the node
    as a transition system of commands and thread steps; \<^verbatim>\<open>Node_Laws\<close>, \<^verbatim>\<open>Node_Theorems\<close>.
    \<^verbatim>\<open>Status_History\<close>: the published height and difficulty as values of the node's history.
    \<^verbatim>\<open>Main_Program\<close>: the frame of \<^verbatim>\<open>main\<close>, from the arguments to the shutdown. \<^verbatim>\<open>Console\<close>: the text each
    command prints; \<^verbatim>\<open>Console_Laws\<close>: sessions of commands, threads and peers with their console,
    refinements of the node's transition system. \<^verbatim>\<open>Sync_Race\<close>: the end of the sync one lock at a time,
    and when it is the handler that \<^verbatim>\<open>Node\<close> runs in one step. \<^verbatim>\<open>Concurrent_Node\<close>: the whole node one
    lock at a time, the main thread with a program point like the others; \<^verbatim>\<open>Concurrent_Laws\<close>: each
    handler alone is the handler of \<^verbatim>\<open>Node\<close>, and the invariant of all threads together;
    \<^verbatim>\<open>Concurrent_Stop\<close>: from everywhere there is a way to stop mining. \<^verbatim>\<open>Pending_Lines\<close>: what of the
    mempool's order is left when the user types a transaction whose line has too many fields.
    \<^verbatim>\<open>Books\<close>: the careful use of a node, under which its ledger is the replay of its chain.
  \<^item> Several nodes: \<^verbatim>\<open>Registration\<close>: a user name from the command that registers it to the one that
    resolves it. \<^verbatim>\<open>Network\<close>: a payment from one node over a peer that mines and back, and what stays in
    the sender's mempool. \<^verbatim>\<open>Convergence\<close>: any number of nodes that know each other by address and sync
    in any order; \<^verbatim>\<open>Agreement\<close>: they end with one chain and one ledger, and the hash of the tip tells
    whether two nodes do. \<^verbatim>\<open>Takeover\<close>: a peer whose chain cost no work. \<^verbatim>\<open>Forged_Coinbase\<close>: a peer whose
    transaction poses as a coinbase.
  \<^item> \<^verbatim>\<open>Sample_Env\<close> and the definitions named \<^verbatim>\<open>sample_...\<close> are the concrete inputs of the witnesses.

  \<^bold>\<open>How code becomes definitions.\<close> A class is a record, a method a function from the record to the
  record and its result, named as in the source. \<^verbatim>\<open>uint64_t\<close> is \<^typ>\<open>64 word\<close> and wraps;
  \<^verbatim>\<open>int64_t\<close> is read with \<open>sint\<close>. An exception is \<open>Inl\<close> of its kind; no caller in the sources
  catches one, except where \<^verbatim>\<open>peer_client.hpp\<close> does. \<^verbatim>\<open>std::string\<close> is a list of characters, a hash map
  a map. Every method that holds a mutex is one step. Loops that may not end are a
  \<open>while_option\<close> (the nonce search) and a \<open>partial_function\<close> (the retry loop of \<^verbatim>\<open>add\<close>), whose
  \<open>None\<close> is a run without end; both have a theorem that says when they end. There is no fuel.
  The other loops are structural or come with a measure.

  \<^bold>\<open>Parameters.\<close> OpenSSL is not in the repository: SHA-512 and Ed25519 are the fields of \<open>env\<close>, and
  \<open>openssl_ok\<close> states the documented lengths and that a signature verifies under its own key.
  No collision freedom is assumed: a theorem about hashes says what follows or that there is a
  collision. The width of \<^verbatim>\<open>long\<close> is a field of \<open>env\<close> too. The clock, what the system calls return, and
  the other threads' work inside a handler are arguments.

  \<^bold>\<open>What is proved.\<close> Round trips of every text format with the exact texts they fail on; validity of
  the chain and exact fork choice; conservation of money and permanence of user names; the
  mempool as a refinement of a queue; independence of the network code from how bytes arrive;
  for the miner, that every block is applied once for any interleaving, that one worker keeps the
  state equal to the replay of the chain, and that a round pays what is pending; for the node, an
  invariant over all commands, that its console tells the truth and that a refused command
  changes nothing, that its servers and its miner stop when asked, that a restart keeps the
  wallet, that every handler is the sequence of its locked steps, and what holds of all threads
  together for any interleaving of them; for a node used with care, that its ledger is the replay
  of its chain whatever its peers send; for several nodes, that a payment crosses the network, that
  a network which stops mining and syncs agrees on one chain and one ledger, that two nodes with
  the same tip hash hold the same ledger, and, here, that a node which syncs with a miner ends
  with its ledger. The library also proves the
  defects it met: a key that spends from any account, a transaction that mints any amount or ends
  the miner, a chain without work that replaces any other, a node that can send but once, a
  coinbase of any amount, a pending transaction that stops the miner, difficulties that never
  end, the ledger that two workers, or a sync during mining, break, a request that ends the
  process, and handlers of peers that outlive the objects they use.

  \<^bold>\<open>What is not modelled.\<close> The system calls themselves, \<^verbatim>\<open>cleanupSockets\<close> and sleeping; which of two
  streams a text is written to; the ends of processes and the order in which detached threads of
  the peer server print. Signals (a write to a closed connection ends a POSIX process, since
  \<^verbatim>\<open>sendAll\<close> passes no flags) and the exhaustion of memory, threads or descriptors, which \<^verbatim>\<open>mine\<close>
  with a huge number of threads would meet, are outside the model. In \<^verbatim>\<open>Node\<close> and what builds on
  it a handler of the command loop is one step, though the code takes its locks one by one, and a
  command that has to wait for workers changes nothing before they have finished:
  \<^verbatim>\<open>Concurrent_Node\<close> takes every handler apart, sets the stop flag before it waits, and its
  theorems say what is left when other threads move in between; \<^verbatim>\<open>Sync_Race\<close> has the sync, and
  \<^verbatim>\<open>Status_History\<close> the race of the published counters. The computation of the status port,
  which overflows for the port 2147483647, is that of unbounded integers, and the hash rate thread,
  which \<^verbatim>\<open>stop\<close> joins too, is left running. In \<^verbatim>\<open>Concurrent_Node\<close> a shared variable is read or written
  as one step, in the order of the source. The build files and the setup script hold no program logic.
\<close>

subsection \<open>A node that syncs with a miner\<close>

text \<open>
  From the miner to its peers. A node that syncs, over connections that cut the bytes anywhere,
  with a peer that has been mining with one thread, through any interleaving of mining with
  submitted transactions and changes of difficulty, ends with the miner's chain, the miner's
  balances, nonces and user names, and the miner's height, provided the miner's chain is longer
  and the line format can carry its blocks.
\<close>

lemma sync_with_miner:
  assumes "reach_from (solo_init E) (mining_step E addr) ([pc], miner)" "\<forall>b. pc \<noteq> Apply b"
    and "length (chn_blocks (sh_chain miner)) \<le> 2 ^ (long_bits (platform E) - 1)"
    and "\<forall>b \<in> set (chn_blocks (sh_chain miner)). block_wire_ok b"
    and "nd_peers nd = [p]" "peer_answers E (sh_chain miner) (sh_state miner) (sh_mempool miner) cs"
    and "chain_inv E (sh_chain (nd_shared nd))" "heights_count (chn_blocks (sh_chain (nd_shared nd)))"
    and "length (chn_blocks (sh_chain (nd_shared nd))) < length (chn_blocks (sh_chain miner))"
  shows "\<exists>nd'. doInitNode E nd cs = Inr (Synced (chain_height (sh_chain miner)), nd')
    \<and> chn_blocks (sh_chain (nd_shared nd')) = chn_blocks (sh_chain miner)
    \<and> sh_state (nd_shared nd') = sh_state miner
    \<and> ns_height (sh_status (nd_shared nd')) = chain_height (sh_chain miner)"
proof -
  have inv: "solo_inv E ([pc], miner)" using solo.reach_inv[OF assms(1)] .
  have "rebuildFromBlocks E (chn_blocks (sh_chain miner)) state_empty = Inr (sh_state miner)"
    using inv assms(2) by (rule solo_inv_replay)
  moreover have "chain_inv E (sh_chain miner)" "heights_count (chn_blocks (sh_chain miner))"
    using inv by (simp_all add: solo_inv_def)
  ultimately show ?thesis
    using sync_one_peer[OF assms(5,6,4) _ _ assms(3,7,8,9)] by blast
qed

text \<open>The miner of the example: the sample node after one round of its worker.\<close>

lemma sync_with_miner_example:
  "\<exists>miner cs nd'. mining_run sample_env ''m'' ([OuterTest], sample_shared) ([OuterTest], miner)
    \<and> doInitNode sample_env (remember_peer sample_peer sample_node) cs = Inr (Synced 1, nd')
    \<and> sh_state (nd_shared nd') = sh_state miner \<and> unat (getBalance (sh_state (nd_shared nd')) ''m'') = 50"
proof -
  obtain miner where m: "mining_run sample_env ''m'' ([OuterTest], sample_shared) ([OuterTest], miner)"
    "chn_blocks (sh_chain miner) = [sample_genesis, sample_round_block]"
    "unat (getBalance (sh_state miner) ''m'') = 50" using sample_round[of 1] by auto
  have h: "chain_height (sh_chain miner) = 1"
    using m(2) sample_round_block_height by (simp add: chain_height_def)
  obtain cs where cs: "peer_answers sample_env (sh_chain miner) (sh_state miner) (sh_mempool miner) cs"
    using peer_answers_exists by blast
  have wire: "\<forall>b \<in> set (chn_blocks (sh_chain miner)). block_wire_ok b"
    using m(2) sample_chain_wire sample_round_wire by (simp add: sample_chain_def)
  have ps: "nd_peers (remember_peer sample_peer sample_node) = [sample_peer]"
    and own: "sh_chain (nd_shared (remember_peer sample_peer sample_node)) = sample_chain"
    by (simp_all add: remember_peer_def sample_node_def sample_shared_def)
  have len: "length (chn_blocks (sh_chain miner)) \<le> 2 ^ (long_bits (platform sample_env) - 1)"
    "length (chn_blocks sample_chain) < length (chn_blocks (sh_chain miner))"
    by (cases "platform sample_env"; simp add: m(2) sample_chain_def)+
  from sync_with_miner[OF sample_solo_reach[OF m(1)] _ len(1) wire ps cs] own len(2) sample_chain_inv h m
  show ?thesis by (metis pc.distinct(11))
qed

end
